(* ===== verification/Prelude.thy ===== *)
theory Prelude
  imports Main "HOL-Library.AList" "HOL-Library.Word"
begin

text \<open>
  Shared ground of the development: the outcomes of Go code (a returned value or a panic),
  Go errors, Go maps as association lists, instants and durations of package \<open>time\<close>, and
  the few string functions of packages \<open>strings\<close> and \<open>strconv\<close> the controller uses.

  \<^item> A Go \<open>error\<close> is a value of \<open>go_error\<close>; a function with results \<open>(T, error)\<close> returns
    \<open>go_error + 'a\<close> where the code never looks at the \<open>T\<close> of a failed call, and a pair with a
    \<open>go_error option\<close> where it does.
  \<^item> A run-time panic (nil dereference, index out of range) or a call of \<open>panic\<close> is the outcome \<open>Panics\<close>.
  \<^item> A Go map with string keys is an association list with distinct keys; its order is the
    order in which one \<open>range\<close> over the map visits it.
\<close>

named_theorems frame_simps \<open>what an operation leaves unchanged\<close>

section \<open>Outcomes and errors\<close>

datatype panic = NilDereference | IndexOutOfRange | CloseOfClosedChannel | ChannelFull

datatype 'a outcome = Returns (returned: 'a) | Panics panic

fun panics :: "'a outcome \<Rightarrow> bool" where
  "panics (Returns _) = False"
| "panics (Panics _) = True"

lemma not_panics_iff: "\<not> panics r \<longleftrightarrow> (\<exists>x. r = Returns x)"
  by (cases r) auto

text \<open>\<open>metav1.StatusReason\<close> of an API error: the two reasons the controller asks for, and
  any other one.\<close>

datatype status_reason = StatusReasonNotFound | StatusReasonAlreadyExists | OtherReason string

text \<open>
  \<open>StatusError\<close> is an error answer of the API server, \<open>ErrorString\<close> an error made by
  \<open>fmt.Errorf\<close> or \<open>errors.New\<close> (with its message), \<open>Wrapf\<close> one made by \<open>fmt.Errorf\<close> with the
  verb \<open>w\<close> (prefix of the message, wrapped error). The others are the sentinels of
  \<open>queue/timeout_queue.go\<close> and \<open>queue/job_queue.go\<close>.
\<close>

datatype go_error =
    StatusError status_reason string
  | ErrorString string
  | Wrapf string go_error
  | ErrNotStarted
  | ErrStopped
  | ErrKeyNotAllowed
  | ErrJobDuplicated
  | ErrJobConflict
  | ErrJobCounteract
  | ErrJobInvalid

text \<open>\<open>errors.ReasonForError\<close>: \<open>errors.As\<close> looks through wrapped errors.\<close>

fun ReasonForError :: "go_error \<Rightarrow> status_reason option" where
  "ReasonForError (StatusError r _) = Some r"
| "ReasonForError (Wrapf _ e) = ReasonForError e"
| "ReasonForError _ = None"

definition IsNotFound :: "go_error \<Rightarrow> bool" where
  "IsNotFound e \<longleftrightarrow> ReasonForError e = Some StatusReasonNotFound"

definition IsAlreadyExists :: "go_error \<Rightarrow> bool" where
  "IsAlreadyExists e \<longleftrightarrow> ReasonForError e = Some StatusReasonAlreadyExists"

text \<open>The method \<open>Error()\<close>.\<close>

fun Error :: "go_error \<Rightarrow> string" where
  "Error (StatusError _ m) = m"
| "Error (ErrorString m) = m"
| "Error (Wrapf m e) = m @ Error e"
| "Error ErrNotStarted = ''not started''"
| "Error ErrStopped = ''stopped''"
| "Error ErrKeyNotAllowed = ''key not allowed''"
| "Error ErrJobDuplicated = ''job duplicated''"
| "Error ErrJobConflict = ''job conflicted''"
| "Error ErrJobCounteract = ''job counteracted''"
| "Error ErrJobInvalid = ''job invalid''"

section \<open>Instants and durations\<close>

text \<open>
  A \<open>time.Time\<close> is the number of nanoseconds since Go's zero time (January 1, year 1, UTC),
  so that \<open>IsZero\<close> is comparison with 0; the location is not part of the model, since the code
  only compares instants. A \<open>time.Duration\<close> is an \<open>int64\<close> count of nanoseconds.
\<close>

type_synonym gotime = int
type_synonym duration = "64 word"

definition time_IsZero :: "gotime \<Rightarrow> bool" where
  "time_IsZero t \<longleftrightarrow> t = 0"

definition time_Add :: "gotime \<Rightarrow> duration \<Rightarrow> gotime" where
  "time_Add t d = t + sint d"

definition time_Before :: "gotime \<Rightarrow> gotime \<Rightarrow> bool" where
  "time_Before t u \<longleftrightarrow> t < u"

definition time_After :: "gotime \<Rightarrow> gotime \<Rightarrow> bool" where
  "time_After t u \<longleftrightarrow> t > u"

lemmas time_defs = time_IsZero_def time_Add_def time_Before_def time_After_def

text \<open>Nanoseconds from the zero time to the Unix epoch, and \<open>Time.UnixNano\<close>, which is an
  \<open>int64\<close> and wraps around for instants that do not fit.\<close>

definition unix_epoch :: int where
  "unix_epoch = 62135596800 * 1000000000"

definition UnixNano :: "gotime \<Rightarrow> 64 word" where
  "UnixNano t = word_of_int (t - unix_epoch)"

definition Millisecond :: duration where
  "Millisecond = 1000000"

text \<open>A \<open>*metav1.Time\<close>: \<open>IsZero\<close> and \<open>Equal\<close> accept nil.\<close>

type_synonym mtime = "gotime option"

definition mtime_IsZero :: "mtime \<Rightarrow> bool" where
  "mtime_IsZero t = (case t of None \<Rightarrow> True | Some x \<Rightarrow> time_IsZero x)"

definition mtime_Equal :: "mtime \<Rightarrow> mtime \<Rightarrow> bool" where
  "mtime_Equal t u =
     (case (t, u) of (None, None) \<Rightarrow> True | (Some x, Some y) \<Rightarrow> x = y | _ \<Rightarrow> False)"

text \<open>The guard \<open>t != nil && !t.IsZero()\<close> that the code repeats for its phase timestamps.\<close>

abbreviation time_set :: "mtime \<Rightarrow> bool" where
  "time_set t \<equiv> t \<noteq> None \<and> \<not> time_IsZero (the t)"

lemma mtime_Equal_refl [simp]: "mtime_Equal t t"
  by (cases t) (auto simp: mtime_Equal_def)

lemma not_time_set_iff: "(t = None \<or> mtime_IsZero t) = (\<not> time_set t)"
  by (cases t) (auto simp: mtime_IsZero_def)

end
