(* ===== verification/KubeTypes.thy ===== *)
theory KubeTypes
  imports Prelude
begin

text \<open>
  The Kubernetes objects the controller reads and writes, with the fields the code touches.
  A field \<open>..._rest\<close> stands for the remaining fields of the Go struct, which the code only
  copies. Pointers are options, Go maps are association lists (see \<open>Prelude\<close>). Also here, the
  helpers of the vendored Kubernetes packages that the controller calls on these objects:
  tolerations of taints and controller references.
\<close>

section \<open>Metadata and owner references\<close>

record OwnerReference =
  or_APIVersion :: string
  or_Kind :: string
  or_Name :: string
  or_UID :: string
  or_Controller :: "bool option"
  or_BlockOwnerDeletion :: "bool option"

record ObjectMeta =
  om_Name :: string
  om_Namespace :: string
  om_UID :: string
  om_Labels :: "(string \<times> string) list"
  om_Annotations :: "(string \<times> string) list"
  om_CreationTimestamp :: gotime
  om_DeletionTimestamp :: mtime
  om_OwnerReferences :: "OwnerReference list"

text \<open>The zero value of the struct.\<close>

definition zero_ObjectMeta :: ObjectMeta where
  "zero_ObjectMeta = \<lparr>om_Name = '''', om_Namespace = '''', om_UID = '''', om_Labels = [],
     om_Annotations = [], om_CreationTimestamp = 0, om_DeletionTimestamp = None,
     om_OwnerReferences = []\<rparr>"

text \<open>\<open>metav1.NewControllerRef\<close>, given the group version and kind.\<close>

definition NewControllerRef :: "ObjectMeta \<Rightarrow> string \<Rightarrow> string \<Rightarrow> OwnerReference" where
  "NewControllerRef owner gv kind = \<lparr>or_APIVersion = gv, or_Kind = kind,
     or_Name = om_Name owner, or_UID = om_UID owner,
     or_Controller = Some True, or_BlockOwnerDeletion = Some True\<rparr>"

text \<open>\<open>metav1.GetControllerOf\<close>: the first owner reference with \<open>Controller\<close> set.\<close>

definition GetControllerOf :: "ObjectMeta \<Rightarrow> OwnerReference option" where
  "GetControllerOf m = List.find (\<lambda>r. or_Controller r = Some True) (om_OwnerReferences m)"

lemma GetControllerOf_new [simp]:
  "om_OwnerReferences m = [NewControllerRef o' gv k] \<Longrightarrow>
   GetControllerOf m = Some (NewControllerRef o' gv k)"
  by (simp add: GetControllerOf_def NewControllerRef_def)

section \<open>Nodes, taints and tolerations\<close>

record Taint =
  tt_Key :: string
  tt_Value :: string
  tt_Effect :: string
  tt_TimeAdded :: mtime

record Toleration =
  tl_Key :: string
  tl_Operator :: string
  tl_Value :: string
  tl_Effect :: string
  tl_TolerationSeconds :: "int option"

record Node =
  nd_Meta :: ObjectMeta
  nd_ProviderID :: string
  nd_Taints :: "Taint list"
  nd_MachineID :: string
  nd_SystemUUID :: string
  nd_BootID :: string
  nd_rest :: string

definition TaintNodeUnschedulable :: string where
  "TaintNodeUnschedulable = ''node.kubernetes.io/unschedulable''"

definition TaintEffectNoSchedule :: string where
  "TaintEffectNoSchedule = ''NoSchedule''"

text \<open>\<open>Toleration.ToleratesTaint\<close>.\<close>

definition ToleratesTaint :: "Toleration \<Rightarrow> Taint \<Rightarrow> bool" where
  "ToleratesTaint t taint =
     (if tl_Effect t \<noteq> [] \<and> tl_Effect t \<noteq> tt_Effect taint then False
      else if tl_Key t \<noteq> [] \<and> tl_Key t \<noteq> tt_Key taint then False
      else if tl_Operator t = [] \<or> tl_Operator t = ''Equal'' then tl_Value t = tt_Value taint
      else if tl_Operator t = ''Exists'' then True
      else False)"

definition TolerationsTolerateTaint :: "Toleration list \<Rightarrow> Taint \<Rightarrow> bool" where
  "TolerationsTolerateTaint ts taint = list_ex (\<lambda>t. ToleratesTaint t taint) ts"

text \<open>\<open>FindMatchingUntoleratedTaint\<close> with a nil filter: the first taint no toleration
  tolerates.\<close>

fun FindMatchingUntoleratedTaint :: "Taint list \<Rightarrow> Toleration list \<Rightarrow> Taint option" where
  "FindMatchingUntoleratedTaint [] tls = None"
| "FindMatchingUntoleratedTaint (t # ts) tls =
     (if \<not> TolerationsTolerateTaint tls t then Some t
      else FindMatchingUntoleratedTaint ts tls)"

lemma FindMatchingUntoleratedTaint_None_iff:
  "FindMatchingUntoleratedTaint ts tls = None \<longleftrightarrow>
   (\<forall>t \<in> set ts. \<exists>l \<in> set tls. ToleratesTaint l t)"
  by (induction ts) (auto simp: TolerationsTolerateTaint_def list_ex_iff)

section \<open>Environment of containers, pods and jobs\<close>

record ConfigMapKeySelector =
  ks_Name :: string
  ks_Key :: string
  ks_Optional :: "bool option"

text \<open>\<open>corev1.SecretKeySelector\<close> has the same fields.\<close>

record EnvVarSource =
  vs_FieldRef :: "string option"
  vs_ResourceFieldRef :: "string option"
  vs_ConfigMapKeyRef :: "ConfigMapKeySelector option"
  vs_SecretKeyRef :: "ConfigMapKeySelector option"

record EnvVar =
  ev_Name :: string
  ev_Value :: string
  ev_ValueFrom :: "EnvVarSource option"

text \<open>\<open>corev1.ConfigMapEnvSource\<close> and \<open>corev1.SecretEnvSource\<close>.\<close>

record EnvSourceRef =
  es_Name :: string
  es_Optional :: "bool option"

record EnvFromSource =
  ef_Prefix :: string
  ef_ConfigMapRef :: "EnvSourceRef option"
  ef_SecretRef :: "EnvSourceRef option"

record Container =
  ct_Name :: string
  ct_Env :: "EnvVar list"
  ct_EnvFrom :: "EnvFromSource list"
  ct_rest :: string

text \<open>\<open>corev1.PodTemplateSpec\<close> with its \<open>PodSpec\<close>. \<open>ps_Affinity = None\<close> is a nil
  \<open>Affinity\<close>, \<open>Some None\<close> one whose \<open>NodeAffinity\<close> is nil.\<close>

record PodTemplateSpec =
  ps_Meta :: ObjectMeta
  ps_Affinity :: "string option option"
  ps_NodeName :: string
  ps_NodeSelector :: "(string \<times> string) list option"
  ps_Tolerations :: "Toleration list"
  ps_RestartPolicy :: string
  ps_InitContainers :: "Container list"
  ps_Containers :: "Container list"
  ps_rest :: string

record JobCondition =
  jc_Reason :: string
  jc_Message :: string

text \<open>\<open>batchv1.Job\<close>. The counters are \<open>int32\<close>, the deadline is an \<open>*int64\<close>.\<close>

record KJob =
  kj_Meta :: ObjectMeta
  kj_Parallelism :: "32 word option"
  kj_Completions :: "32 word option"
  kj_ActiveDeadlineSeconds :: "64 word option"
  kj_Template :: PodTemplateSpec
  kj_Active :: "32 word"
  kj_Succeeded :: "32 word"
  kj_Failed :: "32 word"
  kj_CompletionTime :: mtime
  kj_Conditions :: "JobCondition list"

end
