(* ===== verification/ViharaTypes.thy ===== *)
theory ViharaTypes
  imports KubeTypes
begin

text \<open>
  The custom resources of \<open>pkg/apis/vihara/v1alpha1\<close>: \<open>types_maintenance.go\<close> and
  \<open>types_maintenancejob.go\<close>, with every field, the phase predicates of both resources and the
  validation of node specific environment references. \<open>Maintenance\<close> and \<open>MaintenanceJob\<close>
  carry their metadata as \<open>mt_Meta\<close> and \<open>mj_Meta\<close>.
\<close>

definition MaintenanceConditionSucceeded :: string where
  "MaintenanceConditionSucceeded = ''succeeded''"

definition MaintenanceConditionFailed :: string where
  "MaintenanceConditionFailed = ''failed''"

definition SchemeGroupVersion :: string where
  "SchemeGroupVersion = ''vihara.arhat.dev/v1alpha1''"

section \<open>Specification of a maintenance\<close>

record MaintenanceDependency =
  dep_Name :: string
  dep_Individual :: bool
  dep_Condition :: string

record MaintenanceSchedule =
  sch_Since :: mtime
  sch_Delay :: duration
  sch_Until :: mtime
  sch_Duration :: duration
  sch_Depends :: "MaintenanceDependency list"

text \<open>\<open>ValueFrom\<close> holds an \<open>ObjectFieldSelector\<close>; the code reads only its \<open>FieldPath\<close>.\<close>

record ValueFrom =
  vf_APIVersion :: string
  vf_FieldPath :: string

record MaintenanceNodeSelector =
  ns_Key :: string
  ns_Value :: string
  ns_ValueFrom :: ValueFrom

record MaintenanceNodeDrainSpec =
  dr_NodeSelector :: "MaintenanceNodeSelector list"
  dr_GracePeriod :: duration
  dr_PodSelector :: "(string \<times> string) list"
  dr_DeleteLocalData :: bool
  dr_IgnoreDaemonsets :: bool

record MaintenanceNodeUncordonSpec =
  un_NodeSelector :: "MaintenanceNodeSelector list"

record MaintenanceStage =
  st_Name :: string
  st_Delay :: duration
  st_Timeout :: duration
  st_Drain :: "MaintenanceNodeDrainSpec option"
  st_Uncordon :: "MaintenanceNodeUncordonSpec option"
  st_Pod :: "PodTemplateSpec option"

text \<open>\<open>ObjectNameRef\<close>, and \<open>ObjectNameKeyRef\<close>, which embeds it.\<close>

record ObjectNameRef =
  nr_Name :: string
  nr_NameFrom :: "ValueFrom option"
  nr_NameFormat :: string

record ObjectNameKeyRef = ObjectNameRef +
  kr_Key :: string
  kr_KeyFrom :: "ValueFrom option"
  kr_KeyFormat :: string

record NodeSpecificEnvValueFrom =
  nv_ConfigMapKeyRef :: "ObjectNameKeyRef option"
  nv_SecretKeyRef :: "ObjectNameKeyRef option"

record NodeSpecificEnvVar =
  ne_Name :: string
  ne_Value :: string
  ne_ValueFrom :: NodeSpecificEnvValueFrom

record NodeSpecificEnvFromSource =
  nf_Prefix :: string
  nf_ConfigMapRef :: "ObjectNameRef option"
  nf_SecretRef :: "ObjectNameRef option"

record MaintenanceSpec =
  sp_TargetNamespaces :: "string list"
  sp_DryRun :: bool
  sp_NodeSelector :: "(string \<times> string) list"
  sp_Nodes :: "string list"
  sp_Env :: "NodeSpecificEnvVar list"
  sp_EnvFrom :: "NodeSpecificEnvFromSource list"
  sp_Tolerations :: "Toleration list"
  sp_Schedule :: MaintenanceSchedule
  sp_Stages :: "MaintenanceStage list"

section \<open>Validation of references\<close>

text \<open>A validation returns nil (\<open>None\<close>) or an error.\<close>

definition ValidateName :: "('a ObjectNameRef_scheme) \<Rightarrow> go_error option" where
  "ValidateName r =
     (if nr_Name r \<noteq> [] then None
      else if (case nr_NameFrom r of None \<Rightarrow> True | Some f \<Rightarrow> vf_FieldPath f = [])
      then Some (ErrorString ''no value available for name'')
      else None)"

definition ValidateNameAndValue :: "ObjectNameKeyRef \<Rightarrow> go_error option" where
  "ValidateNameAndValue r =
     (case ValidateName r of
        Some err \<Rightarrow> Some err
      | None \<Rightarrow>
          if kr_Key r \<noteq> [] then None
          else if (case kr_KeyFrom r of None \<Rightarrow> True | Some f \<Rightarrow> vf_FieldPath f = [])
          then Some (ErrorString ''no value available for key'')
          else None)"

definition ValidateValueFrom :: "NodeSpecificEnvValueFrom \<Rightarrow> go_error option" where
  "ValidateValueFrom f =
     (case nv_ConfigMapKeyRef f of
        Some r \<Rightarrow> ValidateNameAndValue r
      | None \<Rightarrow>
          (case nv_SecretKeyRef f of
             Some r \<Rightarrow> ValidateNameAndValue r
           | None \<Rightarrow> Some (ErrorString ''must provide at least one value source'')))"

definition ValidateEnvVar :: "NodeSpecificEnvVar \<Rightarrow> go_error option" where
  "ValidateEnvVar e =
     (if ne_Name e = [] then Some (ErrorString ''must provide name'')
      else if ne_Value e \<noteq> [] then None
      else ValidateValueFrom (ne_ValueFrom e))"

definition ValidateEnvFrom :: "NodeSpecificEnvFromSource \<Rightarrow> go_error option" where
  "ValidateEnvFrom s =
     (case nf_ConfigMapRef s of
        Some r \<Rightarrow> ValidateName r
      | None \<Rightarrow>
          (case nf_SecretRef s of
             Some r \<Rightarrow> ValidateName r
           | None \<Rightarrow> Some (ErrorString ''must provide at least one value source'')))"

lemmas validate_defs =
  ValidateName_def ValidateNameAndValue_def ValidateValueFrom_def ValidateEnvVar_def
  ValidateEnvFrom_def

section \<open>Status of a maintenance\<close>

record ResourceReference =
  rr_Name :: string
  rr_Namespace :: string
  rr_UID :: string

record MaintenancePhaseAdmitted =
  ad_At :: mtime
  ad_By :: ResourceReference
  ad_ScheduleSince :: mtime
  ad_ScheduleUntil :: mtime

text \<open>\<open>sc_Sha256Hex\<close> is \<open>SpecSnapshotHash.Sha256Hex\<close>, the only field of \<open>Hash\<close>.\<close>

record MaintenancePhaseScheduled =
  sc_At :: mtime
  sc_By :: ResourceReference
  sc_SpecSnapshot :: string
  sc_Sha256Hex :: string

record MaintenancePhaseFinished =
  fi_At :: mtime
  fi_By :: ResourceReference

record MaintenanceStatus =
  ms_Admitted :: MaintenancePhaseAdmitted
  ms_Scheduled :: MaintenancePhaseScheduled
  ms_Finished :: MaintenancePhaseFinished

record Maintenance =
  mt_Meta :: ObjectMeta
  mt_Spec :: MaintenanceSpec
  mt_Status :: MaintenanceStatus

text \<open>The zero values, which the generated client returns with an error.\<close>

definition zero_ref :: ResourceReference where
  "zero_ref = \<lparr>rr_Name = '''', rr_Namespace = '''', rr_UID = ''''\<rparr>"

definition zero_Schedule :: MaintenanceSchedule where
  "zero_Schedule = \<lparr>sch_Since = None, sch_Delay = 0, sch_Until = None, sch_Duration = 0,
     sch_Depends = []\<rparr>"

definition zero_Spec :: MaintenanceSpec where
  "zero_Spec = \<lparr>sp_TargetNamespaces = [], sp_DryRun = False, sp_NodeSelector = [],
     sp_Nodes = [], sp_Env = [], sp_EnvFrom = [], sp_Tolerations = [],
     sp_Schedule = zero_Schedule, sp_Stages = []\<rparr>"

definition zero_Status :: MaintenanceStatus where
  "zero_Status = \<lparr>
     ms_Admitted = \<lparr>ad_At = None, ad_By = zero_ref, ad_ScheduleSince = None,
                    ad_ScheduleUntil = None\<rparr>,
     ms_Scheduled = \<lparr>sc_At = None, sc_By = zero_ref, sc_SpecSnapshot = '''',
                     sc_Sha256Hex = ''''\<rparr>,
     ms_Finished = \<lparr>fi_At = None, fi_By = zero_ref\<rparr>\<rparr>"

definition zero_Maintenance :: Maintenance where
  "zero_Maintenance = \<lparr>mt_Meta = zero_ObjectMeta, mt_Spec = zero_Spec, mt_Status = zero_Status\<rparr>"

abbreviation mt_Name :: "Maintenance \<Rightarrow> string" where
  "mt_Name mt \<equiv> om_Name (mt_Meta mt)"

abbreviation admitted_of :: "Maintenance \<Rightarrow> MaintenancePhaseAdmitted" where
  "admitted_of mt \<equiv> ms_Admitted (mt_Status mt)"

abbreviation scheduled_of :: "Maintenance \<Rightarrow> MaintenancePhaseScheduled" where
  "scheduled_of mt \<equiv> ms_Scheduled (mt_Status mt)"

abbreviation finished_of :: "Maintenance \<Rightarrow> MaintenancePhaseFinished" where
  "finished_of mt \<equiv> ms_Finished (mt_Status mt)"

section \<open>Phase predicates of a maintenance\<close>

definition CanBeScheduledIn :: "Maintenance \<Rightarrow> string \<Rightarrow> bool" where
  "CanBeScheduledIn mt namespace =
     (if sp_TargetNamespaces (mt_Spec mt) \<noteq> []
      then list_ex (\<lambda>ns. namespace = ns) (sp_TargetNamespaces (mt_Spec mt))
      else True)"

definition Finished :: "Maintenance \<Rightarrow> bool" where
  "Finished mt \<longleftrightarrow> time_set (fi_At (finished_of mt))"

definition Admitted :: "Maintenance \<Rightarrow> bool" where
  "Admitted mt \<longleftrightarrow> time_set (ad_At (admitted_of mt))"

definition Canceled :: "Maintenance \<Rightarrow> bool" where
  "Canceled mt \<longleftrightarrow> time_set (om_DeletionTimestamp (mt_Meta mt))"

definition Started :: "Maintenance \<Rightarrow> gotime \<Rightarrow> bool" where
  "Started mt now \<longleftrightarrow> ad_ScheduleSince (admitted_of mt) \<noteq> None \<and>
     \<not> time_After (the (ad_ScheduleSince (admitted_of mt))) now"

definition Scheduled :: "Maintenance \<Rightarrow> bool" where
  "Scheduled mt \<longleftrightarrow> time_set (sc_At (scheduled_of mt))"

definition Expired :: "Maintenance \<Rightarrow> gotime \<Rightarrow> bool" where
  "Expired mt now \<longleftrightarrow> ad_ScheduleUntil (admitted_of mt) \<noteq> None \<and>
     time_Before (the (ad_ScheduleUntil (admitted_of mt))) now"

lemmas phase_defs =
  Finished_def Admitted_def Canceled_def Started_def Scheduled_def Expired_def

lemma zero_Maintenance_phases [simp]:
  "\<not> Finished zero_Maintenance" "\<not> Admitted zero_Maintenance"
  "\<not> Canceled zero_Maintenance" "\<not> Started zero_Maintenance now"
  "\<not> Scheduled zero_Maintenance" "\<not> Expired zero_Maintenance now"
  by (auto simp: phase_defs zero_Maintenance_def zero_Status_def zero_ObjectMeta_def)

lemma zero_Maintenance_name [simp]: "mt_Name zero_Maintenance = ''''"
  by (simp add: zero_Maintenance_def zero_ObjectMeta_def)

lemma CanBeScheduledIn_iff:
  "CanBeScheduledIn mt ns \<longleftrightarrow>
   sp_TargetNamespaces (mt_Spec mt) = [] \<or> ns \<in> set (sp_TargetNamespaces (mt_Spec mt))"
  by (auto simp: CanBeScheduledIn_def list_ex_iff)

section \<open>Maintenance jobs\<close>

record MaintenanceJobSpec =
  js_NodeName :: string
  js_MachineID :: string
  js_Stages :: "MaintenanceStage list"

record MaintenanceJobStageStatus =
  ss_Name :: string
  ss_ScheduledAt :: mtime
  ss_FinishedAt :: mtime
  ss_Message :: string
  ss_Reason :: string
  ss_Running :: bool
  ss_Succeeded :: bool
  ss_Failed :: bool

record MaintenanceJobStatus =
  jt_SucceededAt :: mtime
  jt_FailedAt :: mtime
  jt_Stages :: "MaintenanceJobStageStatus list"

record MaintenanceJob =
  mj_Meta :: ObjectMeta
  mj_Spec :: MaintenanceJobSpec
  mj_Status :: MaintenanceJobStatus

definition zero_MaintenanceJob :: MaintenanceJob where
  "zero_MaintenanceJob = \<lparr>mj_Meta = zero_ObjectMeta,
     mj_Spec = \<lparr>js_NodeName = '''', js_MachineID = '''', js_Stages = []\<rparr>,
     mj_Status = \<lparr>jt_SucceededAt = None, jt_FailedAt = None, jt_Stages = []\<rparr>\<rparr>"

abbreviation mj_Name :: "MaintenanceJob \<Rightarrow> string" where
  "mj_Name j \<equiv> om_Name (mj_Meta j)"

abbreviation spec_stages :: "MaintenanceJob \<Rightarrow> MaintenanceStage list" where
  "spec_stages j \<equiv> js_Stages (mj_Spec j)"

abbreviation status_stages :: "MaintenanceJob \<Rightarrow> MaintenanceJobStageStatus list" where
  "status_stages j \<equiv> jt_Stages (mj_Status j)"

text \<open>
  \<open>Finished\<close>, \<open>Succeeded\<close> and \<open>Failed\<close> of a maintenance job look at the last stage status when
  there are as many stage statuses as stages. With no stages at all, the index
  \<open>len(Stages) - 1\<close> is -1 and the access panics.
\<close>

definition last_stage_test :: "(MaintenanceJobStageStatus \<Rightarrow> bool) \<Rightarrow> MaintenanceJob \<Rightarrow> bool outcome" where
  "last_stage_test p j =
     (if length (status_stages j) = length (spec_stages j)
      then (if status_stages j = [] then Panics IndexOutOfRange
            else Returns (p (status_stages j ! (length (status_stages j) - 1))))
      else Returns False)"

definition JobFinished :: "MaintenanceJob \<Rightarrow> bool outcome" where
  "JobFinished j = last_stage_test (\<lambda>s. time_set (ss_FinishedAt s)) j"

definition JobSucceeded :: "MaintenanceJob \<Rightarrow> bool outcome" where
  "JobSucceeded j = last_stage_test ss_Succeeded j"

definition JobFailed :: "MaintenanceJob \<Rightarrow> bool outcome" where
  "JobFailed j = last_stage_test ss_Failed j"

lemmas job_test_defs = JobFinished_def JobSucceeded_def JobFailed_def last_stage_test_def

lemma last_stage_test_panics_iff:
  "panics (last_stage_test p j) \<longleftrightarrow> status_stages j = [] \<and> spec_stages j = []"
  by (auto simp: last_stage_test_def)

lemma last_stage_test_ok:
  "spec_stages j \<noteq> [] \<Longrightarrow> last_stage_test p j =
     Returns (length (status_stages j) = length (spec_stages j) \<and> p (last (status_stages j)))"
  by (cases "status_stages j = []") (auto simp: last_stage_test_def last_conv_nth)

end
