(* ===== verification/EnvResolve.thy ===== *)
theory EnvResolve
  imports ViharaTypes
begin

text \<open>
  Node specific environment (\<open>pkg/controller/maintenance/maintenance.go\<close>): reading a field of
  the node by its path, and building a pod \<open>EnvVar\<close> or \<open>EnvFromSource\<close> from a node specific
  one. Two library functions are parameters: \<open>fp\<close> is \<open>fieldpath.ExtractFieldPathAsString\<close> and
  \<open>sp\<close> is \<open>fmt.Sprintf\<close> applied to a user supplied format and one string.
\<close>

type_synonym fieldpath = "Node \<Rightarrow> string \<Rightarrow> go_error + string"
type_synonym sprintf = "string \<Rightarrow> string \<Rightarrow> string"

section \<open>Field paths of a node\<close>

definition ExtractNodeFieldPathAsString :: "fieldpath \<Rightarrow> Node \<Rightarrow> string \<Rightarrow> go_error + string" where
  "ExtractNodeFieldPathAsString fp node fieldPath =
     (if fieldPath = ''status.nodeInfo.bootID'' then Inr (nd_BootID node)
      else if fieldPath = ''status.nodeInfo.systemUUID'' then Inr (nd_SystemUUID node)
      else if fieldPath = ''status.nodeInfo.machineID'' then Inr (nd_MachineID node)
      else if fieldPath = ''node.spec.providerID'' then Inr (nd_ProviderID node)
      else fp node fieldPath)"

text \<open>A value given literally, or through a field reference: dereferencing a nil reference
  panics.\<close>

definition resolve_ref :: "fieldpath \<Rightarrow> Node \<Rightarrow> string \<Rightarrow> ValueFrom option \<Rightarrow> (go_error + string) outcome" where
  "resolve_ref fp node v from =
     (if v \<noteq> [] then Returns (Inr v)
      else (case from of
              None \<Rightarrow> Panics NilDereference
            | Some f \<Rightarrow> Returns (ExtractNodeFieldPathAsString fp node (vf_FieldPath f))))"

definition apply_format :: "sprintf \<Rightarrow> string \<Rightarrow> string \<Rightarrow> string" where
  "apply_format sp fmt v = (if fmt \<noteq> [] then sp fmt v else v)"

lemma resolve_ref_returns:
  "v \<noteq> [] \<or> from \<noteq> None \<Longrightarrow> \<exists>r. resolve_ref fp node v from = Returns r"
  by (auto simp: resolve_ref_def)

section \<open>\<open>CreatePodEnvSourceFromNodeSpecificEnvFrom\<close>\<close>

text \<open>The name is taken from the config map reference first; the kind of the result is decided
  by the secret reference first.\<close>

definition CreatePodEnvSourceFromNodeSpecificEnvFrom ::
  "fieldpath \<Rightarrow> sprintf \<Rightarrow> Node \<Rightarrow> NodeSpecificEnvFromSource \<Rightarrow> (go_error + EnvFromSource) outcome"
where
  "CreatePodEnvSourceFromNodeSpecificEnvFrom fp sp node nodeEnvFrom =
     (let targetRef = (case nf_ConfigMapRef nodeEnvFrom of
                         Some r \<Rightarrow> Some r | None \<Rightarrow> nf_SecretRef nodeEnvFrom)
      in case targetRef of
           None \<Rightarrow> Panics NilDereference
         | Some r \<Rightarrow>
             (case resolve_ref fp node (nr_Name r) (nr_NameFrom r) of
                Panics p \<Rightarrow> Panics p
              | Returns (Inl err) \<Rightarrow> Returns (Inl err)
              | Returns (Inr name0) \<Rightarrow>
                  (let name = apply_format sp (nr_NameFormat r) name0;
                       src = Some \<lparr>es_Name = name, es_Optional = None\<rparr>
                   in Returns (Inr (if nf_SecretRef nodeEnvFrom \<noteq> None
                        then \<lparr>ef_Prefix = nf_Prefix nodeEnvFrom,
                              ef_ConfigMapRef = None, ef_SecretRef = src\<rparr>
                        else \<lparr>ef_Prefix = nf_Prefix nodeEnvFrom,
                              ef_ConfigMapRef = src, ef_SecretRef = None\<rparr>)))))"

section \<open>\<open>CreatePodEnvVarFromNodeSpecificEnv\<close>\<close>

text \<open>The secret branch stores the name as the key, as the code does.\<close>

definition CreatePodEnvVarFromNodeSpecificEnv ::
  "fieldpath \<Rightarrow> sprintf \<Rightarrow> Node \<Rightarrow> NodeSpecificEnvVar \<Rightarrow> (go_error + EnvVar) outcome"
where
  "CreatePodEnvVarFromNodeSpecificEnv fp sp node nodeEnv =
     (let vf = ne_ValueFrom nodeEnv;
          targetRef = (case nv_ConfigMapKeyRef vf of
                         Some r \<Rightarrow> Some r | None \<Rightarrow> nv_SecretKeyRef vf)
      in case targetRef of
           None \<Rightarrow> Panics NilDereference
         | Some r \<Rightarrow>
             (case resolve_ref fp node (nr_Name r) (nr_NameFrom r) of
                Panics p \<Rightarrow> Panics p
              | Returns (Inl err) \<Rightarrow>
                  Returns (Inl (Wrapf (''failed to resolve node specific name for env ''
                    @ ne_Name nodeEnv @ '': '') err))
              | Returns (Inr name0) \<Rightarrow>
                  (case resolve_ref fp node (kr_Key r) (kr_KeyFrom r) of
                     Panics p \<Rightarrow> Panics p
                   | Returns (Inl err) \<Rightarrow>
                       Returns (Inl (Wrapf (''failed to resolve node specific key for env ''
                         @ ne_Name nodeEnv @ '': '') err))
                   | Returns (Inr key0) \<Rightarrow>
                       (let name = apply_format sp (nr_NameFormat r) name0;
                            key = apply_format sp (kr_KeyFormat r) key0
                        in Returns (Inr \<lparr>ev_Name = ne_Name nodeEnv, ev_Value = '''',
                             ev_ValueFrom = Some
                               (if nv_ConfigMapKeyRef vf \<noteq> None
                                then \<lparr>vs_FieldRef = None, vs_ResourceFieldRef = None,
                                      vs_ConfigMapKeyRef =
                                        Some \<lparr>ks_Name = name, ks_Key = key, ks_Optional = None\<rparr>,
                                      vs_SecretKeyRef = None\<rparr>
                                else \<lparr>vs_FieldRef = None, vs_ResourceFieldRef = None,
                                      vs_ConfigMapKeyRef = None,
                                      vs_SecretKeyRef =
                                        Some \<lparr>ks_Name = name, ks_Key = name, ks_Optional = None\<rparr>\<rparr>)\<rparr>)))))"

section \<open>Lemmas\<close>

lemma ValidateName_None_iff:
  "ValidateName r = None \<longleftrightarrow>
   nr_Name r \<noteq> [] \<or> (\<exists>f. nr_NameFrom r = Some f \<and> vf_FieldPath f \<noteq> [])"
  by (auto simp: ValidateName_def split: option.splits)

lemma ValidateNameAndValue_None_iff:
  "ValidateNameAndValue r = None \<longleftrightarrow> ValidateName r = None \<and>
   (kr_Key r \<noteq> [] \<or> (\<exists>f. kr_KeyFrom r = Some f \<and> vf_FieldPath f \<noteq> []))"
  by (auto simp: ValidateNameAndValue_def split: option.splits)

text \<open>The target reference of a pod environment variable or source.\<close>

definition env_target :: "NodeSpecificEnvVar \<Rightarrow> ObjectNameKeyRef option" where
  "env_target e = (case nv_ConfigMapKeyRef (ne_ValueFrom e) of
                     Some r \<Rightarrow> Some r | None \<Rightarrow> nv_SecretKeyRef (ne_ValueFrom e))"

definition envFrom_target :: "NodeSpecificEnvFromSource \<Rightarrow> ObjectNameRef option" where
  "envFrom_target s = (case nf_ConfigMapRef s of Some r \<Rightarrow> Some r | None \<Rightarrow> nf_SecretRef s)"

text \<open>A reference resolves without a panic.\<close>

definition name_resolvable :: "('a ObjectNameRef_scheme) \<Rightarrow> bool" where
  "name_resolvable r \<longleftrightarrow> nr_Name r \<noteq> [] \<or> nr_NameFrom r \<noteq> None"

definition key_resolvable :: "ObjectNameKeyRef \<Rightarrow> bool" where
  "key_resolvable r \<longleftrightarrow> kr_Key r \<noteq> [] \<or> kr_KeyFrom r \<noteq> None"

lemma valid_value_from_resolvable:
  assumes "ValidateValueFrom (ne_ValueFrom e) = None"
  shows "\<exists>r. env_target e = Some r \<and> name_resolvable r \<and> key_resolvable r"
  using assms
  by (auto simp: ValidateValueFrom_def env_target_def name_resolvable_def key_resolvable_def
        ValidateNameAndValue_None_iff ValidateName_None_iff split: option.splits)

lemma valid_env_from_resolvable:
  assumes "ValidateEnvFrom s = None"
  shows "\<exists>r. envFrom_target s = Some r \<and> name_resolvable r"
  using assms
  by (auto simp: ValidateEnvFrom_def envFrom_target_def name_resolvable_def
        ValidateName_None_iff split: option.splits)

lemma env_var_returns:
  assumes "env_target e = Some r" "name_resolvable r" "key_resolvable r"
  shows "\<exists>x. CreatePodEnvVarFromNodeSpecificEnv fp sp node e = Returns x"
proof -
  obtain n where n: "resolve_ref fp node (nr_Name r) (nr_NameFrom r) = Returns n"
    using assms(2) resolve_ref_returns by (fastforce simp: name_resolvable_def)
  obtain k where k: "resolve_ref fp node (kr_Key r) (kr_KeyFrom r) = Returns k"
    using assms(3) resolve_ref_returns by (fastforce simp: key_resolvable_def)
  show ?thesis
    using assms(1) n k
    by (simp add: CreatePodEnvVarFromNodeSpecificEnv_def env_target_def Let_def split: sum.splits)
qed

lemma env_from_returns:
  assumes "envFrom_target s = Some r" "name_resolvable r"
  shows "\<exists>x. CreatePodEnvSourceFromNodeSpecificEnvFrom fp sp node s = Returns x"
proof -
  obtain n where n: "resolve_ref fp node (nr_Name r) (nr_NameFrom r) = Returns n"
    using assms(2) resolve_ref_returns by (fastforce simp: name_resolvable_def)
  show ?thesis
    using assms(1) n
    by (simp add: CreatePodEnvSourceFromNodeSpecificEnvFrom_def envFrom_target_def Let_def
          split: sum.splits)
qed

lemma env_var_panics_iff:
  "panics (CreatePodEnvVarFromNodeSpecificEnv fp sp node e) \<longleftrightarrow>
   (case env_target e of
      None \<Rightarrow> True
    | Some r \<Rightarrow> \<not> name_resolvable r \<or>
        (\<not> key_resolvable r \<and>
         (\<exists>n. resolve_ref fp node (nr_Name r) (nr_NameFrom r) = Returns (Inr n))))"
  by (auto simp: CreatePodEnvVarFromNodeSpecificEnv_def env_target_def Let_def
        name_resolvable_def key_resolvable_def resolve_ref_def
        split: option.splits sum.splits)

section \<open>Properties\<close>

definition sample_node :: Node where
  "sample_node = \<lparr>nd_Meta = zero_ObjectMeta\<lparr>om_Name := ''n1''\<rparr>, nd_ProviderID = ''p1'',
     nd_Taints = [], nd_MachineID = ''m1'', nd_SystemUUID = ''u1'', nd_BootID = ''b1'',
     nd_rest = ''''\<rparr>"

definition sample_key_ref :: ObjectNameKeyRef where
  "sample_key_ref = \<lparr>nr_Name = '''',
     nr_NameFrom = Some \<lparr>vf_APIVersion = ''v1'', vf_FieldPath = ''status.nodeInfo.machineID''\<rparr>,
     nr_NameFormat = '''', kr_Key = ''k'', kr_KeyFrom = None, kr_KeyFormat = ''''\<rparr>"

definition sample_secret_env :: NodeSpecificEnvVar where
  "sample_secret_env = \<lparr>ne_Name = ''TOKEN'', ne_Value = '''',
     ne_ValueFrom = \<lparr>nv_ConfigMapKeyRef = None, nv_SecretKeyRef = Some sample_key_ref\<rparr>\<rparr>"

lemmas env_samples = sample_node_def sample_key_ref_def sample_secret_env_def

text \<open>An environment variable with a literal value and no reference passes validation, and
  converting it panics for every node: the literal value is never used.\<close>

lemma env_var_literal_panics:
  assumes "ne_Name e \<noteq> []" and "ne_Value e \<noteq> []"
    and "nv_ConfigMapKeyRef (ne_ValueFrom e) = None" and "nv_SecretKeyRef (ne_ValueFrom e) = None"
  shows "ValidateEnvVar e = None \<and>
     CreatePodEnvVarFromNodeSpecificEnv fp sp node e = Panics NilDereference"
  using assms by (simp add: ValidateEnvVar_def CreatePodEnvVarFromNodeSpecificEnv_def)

definition sample_literal_env :: NodeSpecificEnvVar where
  "sample_literal_env = \<lparr>ne_Name = ''A'', ne_Value = ''1'',
     ne_ValueFrom = \<lparr>nv_ConfigMapKeyRef = None, nv_SecretKeyRef = None\<rparr>\<rparr>"

lemma env_var_literal_panics_witness:
  "ValidateEnvVar sample_literal_env = None \<and>
   CreatePodEnvVarFromNodeSpecificEnv (\<lambda>_ p. Inr ''x'') (\<lambda>_ v. v) sample_node sample_literal_env
     = Panics NilDereference"
  by (rule env_var_literal_panics) (simp_all add: sample_literal_env_def)

text \<open>A successful conversion keeps the name of the variable, sets no literal value and
  selects exactly one source. With a config map reference, the selector carries the resolved
  and formatted name and key. Otherwise it is a secret selector whose key is the resolved
  name: the resolved key of the reference is lost.\<close>

lemma env_var_result:
  assumes "CreatePodEnvVarFromNodeSpecificEnv fp sp node e = Returns (Inr v)"
  shows "\<exists>r n k. env_target e = Some r
    \<and> resolve_ref fp node (nr_Name r) (nr_NameFrom r) = Returns (Inr n)
    \<and> resolve_ref fp node (kr_Key r) (kr_KeyFrom r) = Returns (Inr k)
    \<and> ev_Name v = ne_Name e \<and> ev_Value v = ''''
    \<and> (let name = apply_format sp (nr_NameFormat r) n;
           key = apply_format sp (kr_KeyFormat r) k;
           sel = \<lparr>ks_Name = name,
                  ks_Key = (if nv_ConfigMapKeyRef (ne_ValueFrom e) = None then name else key),
                  ks_Optional = None\<rparr>
       in ev_ValueFrom v = Some
            (if nv_ConfigMapKeyRef (ne_ValueFrom e) = None
             then \<lparr>vs_FieldRef = None, vs_ResourceFieldRef = None, vs_ConfigMapKeyRef = None,
                   vs_SecretKeyRef = Some sel\<rparr>
             else \<lparr>vs_FieldRef = None, vs_ResourceFieldRef = None, vs_ConfigMapKeyRef = Some sel,
                   vs_SecretKeyRef = None\<rparr>))"
  using assms
  by (auto simp: CreatePodEnvVarFromNodeSpecificEnv_def env_target_def Let_def
        split: option.splits outcome.splits sum.splits)

lemma env_var_result_witness:
  "\<exists>v. CreatePodEnvVarFromNodeSpecificEnv (\<lambda>_ p. Inr ''x'') (\<lambda>_ s. s) sample_node sample_secret_env
         = Returns (Inr v) \<and> ev_Name v = ''TOKEN''"
proof -
  obtain v where v: "CreatePodEnvVarFromNodeSpecificEnv (\<lambda>_ p. Inr ''x'') (\<lambda>_ s. s) sample_node
      sample_secret_env = Returns (Inr v)"
    by (simp add: env_samples CreatePodEnvVarFromNodeSpecificEnv_def resolve_ref_def
          ExtractNodeFieldPathAsString_def Let_def)
  from env_var_result [OF v] show ?thesis using v by (auto simp: sample_secret_env_def)
qed

end
