(* ===== verification/TimeoutQueue.thy ===== *)
theory TimeoutQueue
  imports Prelude "HOL-Library.Multiset"
begin

text \<open>
  The timeout queue the controller schedules with (\<open>arhat.dev/pkg/queue/timeout_queue.go\<close>):
  entries with an expiry time, an index from keys to positions, and a set of forbidden keys.
  The operations are those of the data structure. The two goroutines of \<open>Start\<close> appear as the
  requests they are sent: \<open>tq_resets\<close> lists the timer resets requested so far (newest first),
  \<open>tq_expired\<close> the entries handed over for delivery (oldest first). A send on \<open>resetCh\<close> may
  have to wait for the timer goroutine; waiting changes no data.
\<close>

section \<open>State\<close>

record ('k, 'd) TimeoutData =
  td_Key :: 'k
  td_Data :: 'd
  td_expireAt :: "64 word"

record ('k, 'd) TimeoutQueue =
  tq_started :: bool
  tq_stopped :: bool
  tq_nextSort :: "64 word"
  tq_blackList :: "'k list"
  tq_index :: "('k \<times> nat) list"
  tq_data :: "('k, 'd) TimeoutData list"
  tq_resets :: "64 word list"
  tq_expired :: "('k, 'd) TimeoutData list"

definition NewTimeoutQueue :: "('k, 'd) TimeoutQueue" where
  "NewTimeoutQueue = \<lparr>tq_started = False, tq_stopped = False, tq_nextSort = 0,
     tq_blackList = [], tq_index = [], tq_data = [], tq_resets = [], tq_expired = []\<rparr>"

text \<open>\<open>tq_stopped\<close> is whether the channel given to \<open>Start\<close> has been closed.\<close>

definition tq_Start :: "('k, 'd) TimeoutQueue \<Rightarrow> ('k, 'd) TimeoutQueue" where
  "tq_Start q = (if tq_started q then q else q\<lparr>tq_started := True\<rparr>)"

abbreviation tq_keys :: "('k, 'd) TimeoutQueue \<Rightarrow> 'k list" where
  "tq_keys q \<equiv> map td_Key (tq_data q)"

section \<open>Operations\<close>

text \<open>The loop \<open>for i, d := range q.data { q.index[d.Key] = i }\<close>.\<close>

definition rebuild_index :: "('k, 'd) TimeoutData list \<Rightarrow> ('k \<times> nat) list \<Rightarrow> ('k \<times> nat) list" where
  "rebuild_index ds ix = fold (\<lambda>(i, d) ix. AList.update (td_Key d) i ix) (enumerate 0 ds) ix"

text \<open>\<open>now\<close> is the clock reading with which the timer reset is computed.\<close>

definition OfferWithTime ::
  "'k \<Rightarrow> 'd \<Rightarrow> gotime \<Rightarrow> gotime \<Rightarrow> ('k, 'd) TimeoutQueue \<Rightarrow> go_error option \<times> ('k, 'd) TimeoutQueue"
where
  "OfferWithTime key val at now q =
     (if \<not> tq_started q then (Some ErrNotStarted, q)
      else if tq_stopped q then (Some ErrStopped, q)
      else if key \<in> set (tq_blackList q) then (Some ErrKeyNotAllowed, q)
      else
        (let expireAt = UnixNano at;
             q1 = q\<lparr>tq_data := tq_data q @ [\<lparr>td_Key = key, td_Data = val, td_expireAt = expireAt\<rparr>],
                    tq_index := AList.update key (length (tq_data q)) (tq_index q)\<rparr>
         in if length (tq_data q1) = 1 \<or> sint (tq_nextSort q1) > sint expireAt
            then (None, q1\<lparr>tq_nextSort := expireAt,
                           tq_resets := (expireAt - UnixNano now) # tq_resets q1\<rparr>)
            else (None, q1)))"

text \<open>\<open>OfferWithDelay\<close> reads the clock (\<open>now1\<close>) to compute the expiry.\<close>

definition OfferWithDelay ::
  "'k \<Rightarrow> 'd \<Rightarrow> duration \<Rightarrow> gotime \<Rightarrow> gotime \<Rightarrow> ('k, 'd) TimeoutQueue
     \<Rightarrow> go_error option \<times> ('k, 'd) TimeoutQueue"
where
  "OfferWithDelay key val wait now1 now2 q = OfferWithTime key val (time_Add now1 wait) now2 q"

definition tq_Clear :: "('k, 'd) TimeoutQueue \<Rightarrow> ('k, 'd) TimeoutQueue" where
  "tq_Clear q = q\<lparr>tq_blackList := [], tq_index := [], tq_data := []\<rparr>"

definition tq_Remove :: "'k \<Rightarrow> ('k, 'd) TimeoutQueue \<Rightarrow> 'd option \<times> ('k, 'd) TimeoutQueue" where
  "tq_Remove key q =
     (case map_of (tq_index q) key of
        Some i \<Rightarrow>
          (let toRemove = td_Data (tq_data q ! i);
               data' = take i (tq_data q) @ drop (Suc i) (tq_data q)
           in (Some toRemove,
               q\<lparr>tq_index := rebuild_index data' (AList.delete key (tq_index q)),
                 tq_data := data'\<rparr>))
      | None \<Rightarrow> (None, q))"

definition tq_Allow :: "'k \<Rightarrow> ('k, 'd) TimeoutQueue \<Rightarrow> ('k, 'd) TimeoutQueue" where
  "tq_Allow key q = q\<lparr>tq_blackList := removeAll key (tq_blackList q)\<rparr>"

definition tq_Forbid :: "'k \<Rightarrow> ('k, 'd) TimeoutQueue \<Rightarrow> ('k, 'd) TimeoutQueue" where
  "tq_Forbid key q = q\<lparr>tq_blackList := List.insert key (tq_blackList q)\<rparr>"

definition tq_Find :: "'k \<Rightarrow> ('k, 'd) TimeoutQueue \<Rightarrow> ('k, 'd) TimeoutData option" where
  "tq_Find key q = map_option (\<lambda>i. tq_data q ! i) (map_of (tq_index q) key)"

definition tq_Remains :: "('k, 'd) TimeoutQueue \<Rightarrow> ('k, 'd) TimeoutData list" where
  "tq_Remains q = tq_data q"

section \<open>Sorting and expiry\<close>

text \<open>
  \<open>sort.Sort\<close> of the standard library calls \<open>Swap\<close> on some sequence of positions, after which
  the data is sorted by expiry; the sequence is the parameter \<open>swaps\<close> of the model.
\<close>

definition tq_Swap :: "nat \<Rightarrow> nat \<Rightarrow> ('k, 'd) TimeoutQueue \<Rightarrow> ('k, 'd) TimeoutQueue" where
  "tq_Swap i j q =
     (let di = tq_data q ! i; dj = tq_data q ! j
      in q\<lparr>tq_index := AList.update (td_Key dj) i (AList.update (td_Key di) j (tq_index q)),
           tq_data := (tq_data q)[i := dj, j := di]\<rparr>)"

fun tq_swaps :: "(nat \<times> nat) list \<Rightarrow> ('k, 'd) TimeoutQueue \<Rightarrow> ('k, 'd) TimeoutQueue" where
  "tq_swaps [] q = q"
| "tq_swaps ((i, j) # s) q = tq_swaps s (tq_Swap i j q)"

text \<open>The positions the library swaps are those of entries.\<close>

definition swaps_in_range :: "(nat \<times> nat) list \<Rightarrow> ('k, 'd) TimeoutQueue \<Rightarrow> bool" where
  "swaps_in_range s q \<longleftrightarrow> (\<forall>(i, j) \<in> set s. i < length (tq_data q) \<and> j < length (tq_data q))"

text \<open>An entry is due when less than a millisecond is left; the difference is an \<open>int64\<close>.\<close>

definition due :: "64 word \<Rightarrow> ('k, 'd) TimeoutData \<Rightarrow> bool" where
  "due now d \<longleftrightarrow> sint (td_expireAt d - now) < sint Millisecond"

text \<open>The method \<open>sort\<close>: the loop stops at the first entry that is not due, for which it
  requests a timer reset; the due ones are handed over for delivery. When the stop channel is
  closed, the method returns without handing anything over.\<close>

definition tq_sort :: "(nat \<times> nat) list \<Rightarrow> gotime \<Rightarrow> ('k, 'd) TimeoutQueue \<Rightarrow> ('k, 'd) TimeoutQueue" where
  "tq_sort swaps now_t q =
     (if tq_data q = [] then q
      else
        (let q1 = tq_swaps swaps q;
             now = UnixNano now_t;
             expired = takeWhile (due now) (tq_data q1);
             rest = dropWhile (due now) (tq_data q1);
             q2 = (case rest of
                     [] \<Rightarrow> q1
                   | c # _ \<Rightarrow>
                       (if tq_stopped q1 then q1\<lparr>tq_nextSort := td_expireAt c\<rparr>
                        else q1\<lparr>tq_nextSort := td_expireAt c,
                                tq_resets := (td_expireAt c - now) # tq_resets q1\<rparr>))
         in if expired = [] \<or> tq_stopped q2 then q2
            else q2\<lparr>tq_expired := tq_expired q2 @ expired,
                    tq_data := rest,
                    tq_index := rebuild_index rest
                      (fold (\<lambda>d ix. AList.delete (td_Key d) ix) expired (tq_index q2))\<rparr>))"

section \<open>The index\<close>

text \<open>
  Every index entry points to a data entry with its key, and every key in the data is indexed.
  The invariant allows several entries with one key, since nothing in the queue forbids them.
\<close>

definition index_ok :: "('k \<times> nat) list \<Rightarrow> ('k, 'd) TimeoutData list \<Rightarrow> bool" where
  "index_ok ix ds \<longleftrightarrow>
     (\<forall>k i. map_of ix k = Some i \<longrightarrow> i < length ds \<and> td_Key (ds ! i) = k) \<and>
     td_Key ` set ds \<subseteq> dom (map_of ix)"

definition tq_inv :: "('k, 'd) TimeoutQueue \<Rightarrow> bool" where
  "tq_inv q \<longleftrightarrow> index_ok (tq_index q) (tq_data q)"

lemma index_ok_nth: "index_ok ix ds \<Longrightarrow> map_of ix k = Some i \<Longrightarrow> i < length ds \<and> td_Key (ds ! i) = k"
  by (simp add: index_ok_def)

lemma index_ok_dom: "index_ok ix ds \<Longrightarrow> dom (map_of ix) = td_Key ` set ds"
  unfolding index_ok_def by (fastforce simp: dom_def)

lemma index_ok_None: "index_ok ix ds \<Longrightarrow> map_of ix k = None \<longleftrightarrow> k \<notin> td_Key ` set ds"
  using index_ok_dom [of ix ds] by (metis domIff)

lemma rebuild_index_Nil [simp]: "rebuild_index [] ix = ix"
  by (simp add: rebuild_index_def)

lemma rebuild_index_snoc:
  "rebuild_index (ds @ [d]) ix = AList.update (td_Key d) (length ds) (rebuild_index ds ix)"
  by (simp add: rebuild_index_def enumerate_append_eq)

lemma rebuild_index_other:
  "k \<notin> td_Key ` set ds \<Longrightarrow> map_of (rebuild_index ds ix) k = map_of ix k"
  by (induction ds rule: rev_induct) (auto simp: rebuild_index_snoc update_conv')

lemma rebuild_index_key:
  "k \<in> td_Key ` set ds \<Longrightarrow>
   \<exists>i < length ds. td_Key (ds ! i) = k \<and> map_of (rebuild_index ds ix) k = Some i"
proof (induction ds rule: rev_induct)
  case (snoc d ds)
  show ?case
  proof (cases "k = td_Key d")
    case True
    then show ?thesis by (intro exI [of _ "length ds"]) (simp add: rebuild_index_snoc update_conv')
  next
    case False
    with snoc obtain i where "i < length ds" "td_Key (ds ! i) = k"
      "map_of (rebuild_index ds ix) k = Some i" by auto
    with False show ?thesis
      by (intro exI [of _ i]) (simp add: rebuild_index_snoc update_conv' nth_append)
  qed
qed simp

lemma rebuild_index_ok:
  assumes "dom (map_of ix) \<subseteq> td_Key ` set ds"
  shows "index_ok (rebuild_index ds ix) ds"
  unfolding index_ok_def
proof (intro conjI allI impI subsetI)
  fix k i assume a: "map_of (rebuild_index ds ix) k = Some i"
  then have "k \<in> td_Key ` set ds"
    using assms rebuild_index_other [of k ds ix] by (cases "k \<in> td_Key ` set ds") auto
  with rebuild_index_key [of k ds ix] a
  show "i < length ds" "td_Key (ds ! i) = k" by auto
next
  fix k assume "k \<in> td_Key ` set ds"
  then show "k \<in> dom (map_of (rebuild_index ds ix))"
    using rebuild_index_key [of k ds ix] by auto
qed

lemma dom_delete_expired:
  "dom (map_of (fold (\<lambda>d ix. AList.delete (td_Key d) ix) ds ix)) = dom (map_of ix) - td_Key ` set ds"
  by (induction ds arbitrary: ix) (auto simp: delete_conv' dom_def)

section \<open>Every operation keeps the index\<close>

lemma tq_inv_new [simp]: "tq_inv NewTimeoutQueue"
  by (simp add: tq_inv_def index_ok_def NewTimeoutQueue_def)

lemma tq_inv_start [simp]: "tq_inv (tq_Start q) = tq_inv q"
  by (simp add: tq_inv_def tq_Start_def)

lemma tq_inv_clear [simp]: "tq_inv (tq_Clear q)"
  by (simp add: tq_inv_def index_ok_def tq_Clear_def)

lemma tq_inv_allow [simp]: "tq_inv (tq_Allow k q) = tq_inv q"
  by (simp add: tq_inv_def tq_Allow_def)

lemma tq_inv_forbid [simp]: "tq_inv (tq_Forbid k q) = tq_inv q"
  by (simp add: tq_inv_def tq_Forbid_def)

lemma index_ok_offer:
  "index_ok ix ds \<Longrightarrow> index_ok (AList.update (td_Key d) (length ds) ix) (ds @ [d])"
  by (fastforce simp: index_ok_def update_conv' nth_append split: if_splits)

lemma tq_inv_offer:
  assumes "tq_inv q"
  shows "tq_inv (snd (OfferWithTime k v at now q))"
  using index_ok_offer [of "tq_index q" "tq_data q" "\<lparr>td_Key = k, td_Data = v, td_expireAt = UnixNano at\<rparr>"]
    assms
  by (simp add: tq_inv_def OfferWithTime_def Let_def)

lemma index_ok_remove:
  assumes ok: "index_ok ix ds" and i: "map_of ix k = Some i"
  shows "dom (map_of (AList.delete k ix)) \<subseteq> td_Key ` set (take i ds @ drop (Suc i) ds)"
proof
  fix k' assume "k' \<in> dom (map_of (AList.delete k ix))"
  then obtain j where "k' \<noteq> k" and j: "map_of ix k' = Some j"
    by (auto simp: delete_conv' dom_def split: if_splits)
  then have "j < length ds" "td_Key (ds ! j) = k'" "j \<noteq> i"
    using index_ok_nth [OF ok] i by auto
  moreover have "ds ! j \<in> set (take i ds @ drop (Suc i) ds)"
  proof (cases "j < i")
    case True
    then have "take i ds ! j = ds ! j" "j < length (take i ds)" using \<open>j < length ds\<close> by auto
    then show ?thesis by (metis UnCI nth_mem set_append)
  next
    case False
    with \<open>j \<noteq> i\<close> have "Suc i \<le> j" by simp
    then have "drop (Suc i) ds ! (j - Suc i) = ds ! j" "j - Suc i < length (drop (Suc i) ds)"
      using \<open>j < length ds\<close> by auto
    then show ?thesis by (metis UnCI nth_mem set_append)
  qed
  ultimately show "k' \<in> td_Key ` set (take i ds @ drop (Suc i) ds)" by blast
qed

lemma tq_inv_remove:
  assumes "tq_inv q"
  shows "tq_inv (snd (tq_Remove k q))"
proof (cases "map_of (tq_index q) k")
  case (Some i)
  with assms have "index_ok (tq_index q) (tq_data q)" by (simp add: tq_inv_def)
  from index_ok_remove [OF this Some] Some show ?thesis
    by (simp add: tq_inv_def tq_Remove_def Let_def rebuild_index_ok)
qed (use assms in \<open>simp add: tq_Remove_def\<close>)

lemma index_ok_swap:
  assumes ok: "index_ok ix ds" and i: "i < length ds" and j: "j < length ds"
  shows "index_ok (AList.update (td_Key (ds ! j)) i (AList.update (td_Key (ds ! i)) j ix))
           (ds[i := ds ! j, j := ds ! i])"
  using assms unfolding index_ok_def
  by (auto simp: update_conv' nth_list_update set_swap split: if_splits)

lemma tq_inv_swaps:
  assumes "tq_inv q" and "\<forall>(i, j) \<in> set s. i < length (tq_data q) \<and> j < length (tq_data q)"
  shows "tq_inv (tq_swaps s q)"
  using assms
proof (induction s q rule: tq_swaps.induct)
  case (2 i j s q)
  then have "tq_inv (tq_Swap i j q)"
    using index_ok_swap [of "tq_index q" "tq_data q" i j]
    by (simp add: tq_inv_def tq_Swap_def Let_def)
  then show ?case
    using 2 by (auto simp: tq_Swap_def Let_def)
qed simp

lemma tq_inv_sort:
  assumes inv: "tq_inv q"
    and s: "\<forall>(i, j) \<in> set s. i < length (tq_data q) \<and> j < length (tq_data q)"
  shows "tq_inv (tq_sort s now q)"
proof -
  let ?q1 = "tq_swaps s q"
  let ?e = "takeWhile (due (UnixNano now)) (tq_data ?q1)"
  let ?r = "dropWhile (due (UnixNano now)) (tq_data ?q1)"
  have i1: "index_ok (tq_index ?q1) (tq_data ?q1)"
    using tq_inv_swaps [OF inv s] by (simp add: tq_inv_def)
  have "set (tq_data ?q1) = set ?e \<union> set ?r"
    by (metis set_append takeWhile_dropWhile_id)
  then have "dom (map_of (tq_index ?q1)) - td_Key ` set ?e \<subseteq> td_Key ` set ?r"
    using index_ok_dom [OF i1] by auto
  then have "index_ok (rebuild_index ?r (fold (\<lambda>d ix. AList.delete (td_Key d) ix) ?e (tq_index ?q1))) ?r"
    by (intro rebuild_index_ok) (simp add: dom_delete_expired)
  with inv i1 show ?thesis
    by (auto simp: tq_inv_def tq_sort_def Let_def split: list.split)
qed

section \<open>Contents\<close>

lemma tq_Find_iff: "tq_inv q \<Longrightarrow> tq_Find k q \<noteq> None \<longleftrightarrow> k \<in> set (tq_keys q)"
  by (simp add: tq_inv_def tq_Find_def index_ok_None del: not_None_eq)

lemma tq_Find_entry:
  "tq_inv q \<Longrightarrow> tq_Find k q = Some d \<Longrightarrow> d \<in> set (tq_data q) \<and> td_Key d = k"
  by (auto simp: tq_inv_def tq_Find_def dest: index_ok_nth)

lemma tq_keys_offer:
  "tq_keys (snd (OfferWithTime k v at now q)) =
   (if fst (OfferWithTime k v at now q) = None then tq_keys q @ [k] else tq_keys q)"
  by (simp add: OfferWithTime_def Let_def)

lemma offer_result:
  "fst (OfferWithTime k v at now q) =
   (if \<not> tq_started q then Some ErrNotStarted else if tq_stopped q then Some ErrStopped
    else if k \<in> set (tq_blackList q) then Some ErrKeyNotAllowed else None)"
  by (simp add: OfferWithTime_def Let_def)

lemma tq_data_remove:
  assumes "tq_inv q"
  shows "mset (tq_keys (snd (tq_Remove k q))) = mset (tq_keys q) - {#k#}"
proof (cases "map_of (tq_index q) k")
  case None
  then have "k \<notin> set (tq_keys q)"
    using assms by (simp add: tq_inv_def index_ok_None)
  then have "mset (tq_keys q) - {#k#} = mset (tq_keys q)"
    by (intro diff_single_trivial) simp
  moreover have "snd (tq_Remove k q) = q" using None by (simp add: tq_Remove_def)
  ultimately show ?thesis by (simp only:)
next
  case (Some i)
  then have i: "i < length (tq_data q)" "td_Key (tq_data q ! i) = k"
    using assms index_ok_nth [of "tq_index q" "tq_data q" k i] by (simp_all add: tq_inv_def)
  have "mset (tq_keys q) = mset (map td_Key (take i (tq_data q) @ tq_data q ! i # drop (Suc i) (tq_data q)))"
    using id_take_nth_drop [OF i(1)] by simp
  with i(2) Some show ?thesis by (simp add: tq_Remove_def Let_def)
qed

lemma mset_swaps:
  "\<forall>(i, j) \<in> set s. i < length (tq_data q) \<and> j < length (tq_data q) \<Longrightarrow>
   mset (tq_data (tq_swaps s q)) = mset (tq_data q)"
proof (induction s q rule: tq_swaps.induct)
  case (2 i j s q)
  then have "mset (tq_data (tq_Swap i j q)) = mset (tq_data q)"
    using mset_swap [of j "tq_data q" i]
    by (simp add: tq_Swap_def Let_def list_update_swap)
  with 2 show ?case by (auto simp: tq_Swap_def Let_def)
qed simp

lemma swaps_frame [simp]:
  "tq_stopped (tq_swaps s q) = tq_stopped q" "tq_expired (tq_swaps s q) = tq_expired q"
  "length (tq_data (tq_swaps s q)) = length (tq_data q)"
  by (induction s q rule: tq_swaps.induct) (auto simp: tq_Swap_def Let_def)

lemma tq_sort_split:
  assumes "\<not> tq_stopped q"
  shows "tq_expired (tq_sort s now q) = tq_expired q @ takeWhile (due (UnixNano now)) (tq_data (tq_swaps s q))"
    and "tq_data (tq_sort s now q) = dropWhile (due (UnixNano now)) (tq_data (tq_swaps s q))"
proof -
  have "tq_data q = [] \<longleftrightarrow> tq_data (tq_swaps s q) = []"
    by (metis length_0_conv swaps_frame(3))
  moreover have "dropWhile p xs = xs" if "takeWhile p xs = []" for p and xs :: "('a, 'b) TimeoutData list"
    using that by (metis append_Nil takeWhile_dropWhile_id)
  ultimately show "tq_expired (tq_sort s now q) = tq_expired q @ takeWhile (due (UnixNano now)) (tq_data (tq_swaps s q))"
    and "tq_data (tq_sort s now q) = dropWhile (due (UnixNano now)) (tq_data (tq_swaps s q))"
    using assms by (auto simp: tq_sort_def Let_def split: list.split)
qed

text \<open>The differences to \<open>now\<close> do not overflow: the entries are within 292 years of it.\<close>

definition near :: "64 word \<Rightarrow> ('k, 'd) TimeoutData \<Rightarrow> bool" where
  "near now d \<longleftrightarrow> - (2 ^ 63) \<le> sint (td_expireAt d) - sint now \<and>
     sint (td_expireAt d) - sint now < 2 ^ 63"

lemma due_near: "near now d \<Longrightarrow> due now d \<longleftrightarrow> sint (td_expireAt d) - sint now < 1000000"
  using signed_take_bit_int_eq_self [of 63 "sint (td_expireAt d) - sint now"]
  by (simp add: near_def due_def Millisecond_def sint_word_ariths)

lemma sorted_dropWhile_due:
  assumes "sorted (map (\<lambda>d. sint (td_expireAt d)) ds)" "\<forall>d \<in> set ds. near now d"
    and "d \<in> set (dropWhile (due now) ds)"
  shows "\<not> due now d"
  using assms
proof (induction ds)
  case (Cons x ds)
  show ?case
  proof (cases "due now x")
    case True
    with Cons show ?thesis by simp
  next
    case False
    then have x: "\<not> sint (td_expireAt x) - sint now < 1000000"
      using Cons.prems(2) by (simp add: due_near)
    have d: "d = x \<or> d \<in> set ds" using Cons.prems(3) False by auto
    then have "sint (td_expireAt x) \<le> sint (td_expireAt d)" using Cons.prems(1) by auto
    moreover have "near now d" using d Cons.prems(2) by auto
    ultimately show ?thesis using x by (simp add: due_near)
  qed
qed simp

section \<open>The interface of a schedule queue\<close>

text \<open>
  What the controller and the reconciler need of a queue of keys: the operations they call and
  the laws they rely on. \<open>pending\<close> lists the keys waiting in the queue.
\<close>

locale schedule_queue =
  fixes offer :: "'k \<Rightarrow> gotime \<Rightarrow> gotime \<Rightarrow> 'q \<Rightarrow> go_error option \<times> 'q"
    and remove :: "'k \<Rightarrow> 'q \<Rightarrow> 'q"
    and found :: "'k \<Rightarrow> 'q \<Rightarrow> bool"
    and pending :: "'q \<Rightarrow> 'k list"
    and inv :: "'q \<Rightarrow> bool"
  assumes inv_offer: "inv q \<Longrightarrow> inv (snd (offer k at now q))"
    and inv_remove: "inv q \<Longrightarrow> inv (remove k q)"
    and found_iff: "inv q \<Longrightarrow> found k q \<longleftrightarrow> k \<in> set (pending q)"
    and pending_offer: "pending (snd (offer k at now q)) =
      (if fst (offer k at now q) = None then pending q @ [k] else pending q)"
    and pending_remove: "inv q \<Longrightarrow> mset (pending (remove k q)) = mset (pending q) - {#k#}"
begin

definition guarded_offer :: "'k \<Rightarrow> gotime \<Rightarrow> gotime \<Rightarrow> 'q \<Rightarrow> 'q" where
  "guarded_offer k at now q = (if found k q then q else snd (offer k at now q))"

definition queue_ok :: "'q \<Rightarrow> bool" where
  "queue_ok q \<longleftrightarrow> inv q \<and> distinct (pending q)"

text \<open>Looking a key up before offering it keeps at most one entry per key.\<close>

lemma guarded_offer_ok: "queue_ok q \<Longrightarrow> queue_ok (guarded_offer k at now q)"
  by (auto simp: queue_ok_def guarded_offer_def inv_offer found_iff pending_offer)

lemma offer_found:
  "inv q \<Longrightarrow> fst (offer k at now q) = None \<Longrightarrow> found k (snd (offer k at now q))"
  by (simp add: inv_offer found_iff pending_offer)

lemma offer_failed: "fst (offer k at now q) \<noteq> None \<Longrightarrow> pending (snd (offer k at now q)) = pending q"
  by (simp add: pending_offer)

lemma remove_ok: "queue_ok q \<Longrightarrow> queue_ok (remove k q)"
proof -
  assume q: "queue_ok q"
  then have "mset (pending (remove k q)) = mset (remove1 k (pending q))"
    by (simp add: queue_ok_def pending_remove)
  then have "distinct (pending (remove k q)) = distinct (remove1 k (pending q))"
    by (rule mset_eq_imp_distinct_iff)
  with q show ?thesis by (simp add: queue_ok_def inv_remove)
qed

lemma remove_found: "queue_ok q \<Longrightarrow> found k' (remove k q) \<longleftrightarrow> found k' q \<and> k' \<noteq> k"
proof -
  assume q: "queue_ok q"
  then have "inv q" "distinct (pending q)" by (auto simp: queue_ok_def)
  then have "set_mset (mset (pending (remove k q))) = set (pending q) - {k}"
    by (metis pending_remove set_remove1_eq mset_remove1 set_mset_mset)
  then show ?thesis
    using \<open>inv q\<close> by (simp add: found_iff inv_remove)
qed

end

interpretation tq: schedule_queue "\<lambda>k at now q. OfferWithTime k () at now q"
  "\<lambda>k q. snd (tq_Remove k q)" "\<lambda>k q. tq_Find k q \<noteq> None" tq_keys tq_inv
proof (unfold_locales, goal_cases)
  case (1 q k at now)
  then show ?case by (rule tq_inv_offer)
next
  case (2 q k)
  then show ?case by (rule tq_inv_remove)
next
  case (3 q k)
  then show ?case by (rule tq_Find_iff)
next
  case (4 k at now q)
  show ?case by (rule tq_keys_offer)
next
  case (5 q k)
  then show ?case by (rule tq_data_remove)
qed

section \<open>Properties\<close>

text \<open>Every operation of the timeout queue keeps its index exact: each index entry points to a
  data entry with its key and every key in the data is indexed, also when a key was offered
  twice. For the sort this holds whatever in-range swaps the library performs.\<close>

lemma tq_operations_keep_index:
  assumes "tq_inv q"
    and "\<forall>(i, j) \<in> set s. i < length (tq_data q) \<and> j < length (tq_data q)"
  shows "tq_inv (snd (OfferWithTime k v at now q)) \<and> tq_inv (snd (tq_Remove k q)) \<and>
     tq_inv (tq_Clear q) \<and> tq_inv (tq_Allow k q) \<and> tq_inv (tq_Forbid k q) \<and>
     tq_inv (tq_sort s now q)"
  using assms by (simp_all add: tq_inv_offer tq_inv_remove tq_inv_sort)

definition sample_queue :: "(string, unit) TimeoutQueue" where
  "sample_queue = snd (OfferWithTime ''b'' () (unix_epoch + 3000000) unix_epoch
     (snd (OfferWithTime ''a'' () (unix_epoch + 9000000) unix_epoch (tq_Start NewTimeoutQueue))))"

lemma sample_queue_eq:
  "sample_queue = \<lparr>tq_started = True, tq_stopped = False, tq_nextSort = 9000000 - 6000000,
     tq_blackList = [], tq_index = [(''a'', 0), (''b'', 1)],
     tq_data = [\<lparr>td_Key = ''a'', td_Data = (), td_expireAt = 9000000\<rparr>,
                \<lparr>td_Key = ''b'', td_Data = (), td_expireAt = 3000000\<rparr>],
     tq_resets = [3000000, 9000000], tq_expired = []\<rparr>"
  by (simp add: sample_queue_def OfferWithTime_def tq_Start_def NewTimeoutQueue_def UnixNano_def)

lemma tq_operations_keep_index_witness:
  "tq_inv sample_queue \<and> tq_inv (tq_sort [(0, 1)] (unix_epoch + 2500000) sample_queue)"
proof -
  have i: "tq_inv sample_queue"
    by (simp add: sample_queue_eq tq_inv_def index_ok_def)
  have "\<forall>(i, j) \<in> set [(0, 1)]. i < length (tq_data sample_queue) \<and> j < length (tq_data sample_queue)"
    by (simp add: sample_queue_eq)
  from i tq_operations_keep_index [OF i this] show ?thesis by blast
qed

text \<open>C36: A sort of a running queue delivers exactly the due entries. If the swaps leave the data
  sorted by expiry and no difference to the clock overflows, then the entries handed over are,
  in the order of their expiry, the entries that expire in less than a millisecond, the others
  stay, and nothing is lost or duplicated.\<close>

theorem tq_sort_delivers_due:
  assumes "\<not> tq_stopped q"
    and s: "\<forall>(i, j) \<in> set s. i < length (tq_data q) \<and> j < length (tq_data q)"
    and sorted: "sorted (map (\<lambda>d. sint (td_expireAt d)) (tq_data (tq_swaps s q)))"
    and near: "\<forall>d \<in> set (tq_data q). near (UnixNano now) d"
  shows "\<exists>e. tq_expired (tq_sort s now q) = tq_expired q @ e \<and>
     mset e + mset (tq_data (tq_sort s now q)) = mset (tq_data q) \<and>
     sorted (map (\<lambda>d. sint (td_expireAt d)) e) \<and>
     (\<forall>d \<in> set e. sint (td_expireAt d) - sint (UnixNano now) < 1000000) \<and>
     (\<forall>d \<in> set (tq_data (tq_sort s now q)).
        sint (td_expireAt d) - sint (UnixNano now) \<ge> 1000000)"
proof -
  let ?n = "UnixNano now" and ?ds = "tq_data (tq_swaps s q)"
  have m: "mset ?ds = mset (tq_data q)" by (rule mset_swaps [OF s])
  then have nr: "\<forall>d \<in> set ?ds. near ?n d"
    using near mset_eq_setD by blast
  have sub: "set (takeWhile (due ?n) ?ds) \<subseteq> set ?ds" "set (dropWhile (due ?n) ?ds) \<subseteq> set ?ds"
    by (auto dest: set_takeWhileD set_dropWhileD)
  have "mset (takeWhile (due ?n) ?ds) + mset (dropWhile (due ?n) ?ds) = mset ?ds"
    by (metis mset_append takeWhile_dropWhile_id)
  moreover have "sorted (map (\<lambda>d. sint (td_expireAt d)) (takeWhile (due ?n) ?ds))"
    using sorted by (metis map_append sorted_append takeWhile_dropWhile_id)
  moreover have "\<forall>d \<in> set (takeWhile (due ?n) ?ds). sint (td_expireAt d) - sint ?n < 1000000"
    using nr sub(1) due_near set_takeWhileD by fastforce
  moreover have "\<forall>d \<in> set (dropWhile (due ?n) ?ds). sint (td_expireAt d) - sint ?n \<ge> 1000000"
    using nr sub(2) due_near sorted_dropWhile_due [OF sorted nr] by fastforce
  ultimately show ?thesis
    using tq_sort_split [OF assms(1)] m by metis
qed

lemma tq_sort_delivers_due_witness:
  "\<exists>e. tq_expired (tq_sort [(0, 1)] (unix_epoch + 2500000) sample_queue) = [] @ e \<and>
     length e + length (tq_data (tq_sort [(0, 1)] (unix_epoch + 2500000) sample_queue)) = 2"
proof -
  have h: "\<not> tq_stopped sample_queue"
    "\<forall>(i, j) \<in> set [(0, 1)]. i < length (tq_data sample_queue) \<and> j < length (tq_data sample_queue)"
    "sorted (map (\<lambda>d. sint (td_expireAt d)) (tq_data (tq_swaps [(0, 1)] sample_queue)))"
    "\<forall>d \<in> set (tq_data sample_queue). near (UnixNano (unix_epoch + 2500000)) d"
    by (simp_all add: sample_queue_eq tq_Swap_def near_def UnixNano_def)
  from tq_sort_delivers_due [OF h] obtain e where
    e: "tq_expired (tq_sort [(0, 1)] (unix_epoch + 2500000) sample_queue) = tq_expired sample_queue @ e"
    "mset e + mset (tq_data (tq_sort [(0, 1)] (unix_epoch + 2500000) sample_queue))
       = mset (tq_data sample_queue)"
    by blast
  have "tq_expired sample_queue = []" "size (mset (tq_data sample_queue)) = 2"
    by (simp_all add: sample_queue_eq)
  with e show ?thesis by (metis size_mset size_union)
qed

end
