(* ===== verification/JobQueue.thy ===== *)
theory JobQueue
  imports Prelude "HOL-Library.Multiset"
begin

text \<open>
  The job queue of the reconcilers (\<open>arhat.dev/pkg/queue/job_queue.go\<close>): pending jobs in order, an
  index from jobs to positions, and the channel \<open>hasJob\<close> whose being closed tells the consumer that
  there may be something to acquire. Of that channel the model keeps whether it is closed
  (\<open>jq_closed\<close>), apart from the field \<open>chanClosed\<close> that is meant to say the same, so that
  closing it twice is a panic of the model as it is one of the code.
\<close>

section \<open>State\<close>

datatype JobAction = ActionInvalid | ActionAdd | ActionUpdate | ActionDelete | ActionCleanup

record 'k Job =
  jb_Action :: JobAction
  jb_Key :: 'k

abbreviation mk_job :: "JobAction \<Rightarrow> 'k \<Rightarrow> 'k Job" where
  "mk_job a k \<equiv> \<lparr>jb_Action = a, jb_Key = k\<rparr>"

record 'k JobQueue =
  jq_queue :: "'k Job list"
  jq_index :: "('k Job \<times> nat) list"
  jq_closed :: bool
  jq_chanClosed :: bool
  jq_paused :: bool

definition NewJobQueue :: "'k JobQueue" where
  "NewJobQueue = \<lparr>jq_queue = [], jq_index = [], jq_closed = True, jq_chanClosed = True,
     jq_paused = True\<rparr>"

section \<open>Operations\<close>

definition jq_has :: "JobAction \<Rightarrow> 'k \<Rightarrow> 'k JobQueue \<Rightarrow> bool" where
  "jq_has action key q \<longleftrightarrow> map_of (jq_index q) (mk_job action key) \<noteq> None"

definition jq_add :: "'k Job \<Rightarrow> 'k JobQueue \<Rightarrow> 'k JobQueue" where
  "jq_add w q = q\<lparr>jq_index := AList.update w (length (jq_queue q)) (jq_index q),
     jq_queue := jq_queue q @ [w]\<rparr>"

definition buildIndex :: "'k Job list \<Rightarrow> ('k Job \<times> nat) list \<Rightarrow> ('k Job \<times> nat) list" where
  "buildIndex ws ix = fold (\<lambda>(i, w) ix. AList.update w i ix) (enumerate 0 ws) ix"

definition jq_delete :: "JobAction \<Rightarrow> 'k \<Rightarrow> 'k JobQueue \<Rightarrow> bool \<times> 'k JobQueue" where
  "jq_delete action key q =
     (case map_of (jq_index q) (mk_job action key) of
        Some idx \<Rightarrow>
          (let queue = take idx (jq_queue q) @ drop (Suc idx) (jq_queue q)
           in (True, q\<lparr>jq_index := buildIndex queue (AList.delete (mk_job action key) (jq_index q)),
                       jq_queue := queue\<rparr>))
      | None \<Rightarrow> (False, q))"

definition jq_Remains :: "'k JobQueue \<Rightarrow> 'k Job list" where
  "jq_Remains q = jq_queue q"

fun find_action :: "JobAction list \<Rightarrow> 'k \<Rightarrow> 'k JobQueue \<Rightarrow> 'k Job option" where
  "find_action [] key q = None"
| "find_action (t # ts) key q =
     (case map_of (jq_index q) (mk_job t key) of
        Some i \<Rightarrow> Some (jq_queue q ! i)
      | None \<Rightarrow> find_action ts key q)"

definition jq_Find :: "'k \<Rightarrow> 'k JobQueue \<Rightarrow> 'k Job option" where
  "jq_Find key q = find_action [ActionAdd, ActionUpdate, ActionDelete, ActionCleanup] key q"

text \<open>\<open>hasJob = make(chan struct{}); chanClosed = false\<close>\<close>

definition reopen :: "'k JobQueue \<Rightarrow> 'k JobQueue" where
  "reopen q = q\<lparr>jq_closed := False, jq_chanClosed := False\<rparr>"

text \<open>
  \<open>Acquire\<close> blocks while the channel is open (\<open>None\<close>). Otherwise it returns a job, or none, and
  whether to acquire more; the deferred function reopens the channel when nothing is left.
\<close>

definition Acquire :: "'k JobQueue \<Rightarrow> (('k Job option \<times> bool) \<times> 'k JobQueue) option" where
  "Acquire q =
     (if \<not> jq_closed q then None
      else if jq_paused q then Some ((None, False), q)
      else
        (let finish = (\<lambda>q1. if jq_queue q1 = [] \<and> \<not> jq_paused q1 then reopen q1 else q1)
         in case jq_queue q of
              [] \<Rightarrow> Some ((None, True), finish q)
            | w # _ \<Rightarrow> Some ((Some w, True), finish (snd (jq_delete (jb_Action w) (jb_Key w) q)))))"

text \<open>The signal at the end of \<open>Offer\<close>: a closed channel is left alone.\<close>

definition signal :: "'k JobQueue \<Rightarrow> 'k JobQueue" where
  "signal q = (if jq_closed q then q else q\<lparr>jq_closed := True, jq_chanClosed := True\<rparr>)"

definition jq_Offer :: "'k Job \<Rightarrow> 'k JobQueue \<Rightarrow> go_error option \<times> 'k JobQueue" where
  "jq_Offer w q =
     (if jb_Action w = ActionInvalid then (Some ErrJobInvalid, q)
      else if map_of (jq_index q) w \<noteq> None then (Some ErrJobDuplicated, q)
      else
        (case jb_Action w of
           ActionInvalid \<Rightarrow> (None, signal q)
         | ActionAdd \<Rightarrow>
             if jq_has ActionUpdate (jb_Key w) q then (Some ErrJobConflict, q)
             else (None, signal (jq_add w q))
         | ActionUpdate \<Rightarrow>
             if jq_has ActionAdd (jb_Key w) q \<or> jq_has ActionDelete (jb_Key w) q
             then (Some ErrJobConflict, q)
             else (None, signal (jq_add w q))
         | ActionDelete \<Rightarrow>
             if jq_has ActionAdd (jb_Key w) q
             then (Some ErrJobCounteract, snd (jq_delete ActionAdd (jb_Key w) q))
             else
               (let q1 = (if jq_has ActionUpdate (jb_Key w) q
                          then snd (jq_delete ActionUpdate (jb_Key w) q) else q)
                in (None, signal (jq_add w q1)))
         | ActionCleanup \<Rightarrow> (None, signal (jq_add w q))))"

definition Resume :: "'k JobQueue \<Rightarrow> 'k JobQueue" where
  "Resume q =
     (let q1 = (if jq_chanClosed q \<and> jq_queue q = [] then reopen q else q)
      in q1\<lparr>jq_paused := False\<rparr>)"

definition Pause :: "'k JobQueue \<Rightarrow> unit outcome \<times> 'k JobQueue" where
  "Pause q =
     (if \<not> jq_chanClosed q
      then (if jq_closed q then (Panics CloseOfClosedChannel, q)
            else (Returns (), q\<lparr>jq_closed := True, jq_chanClosed := True, jq_paused := True\<rparr>))
      else (Returns (), q\<lparr>jq_paused := True\<rparr>))"

definition jq_Remove :: "'k Job \<Rightarrow> 'k JobQueue \<Rightarrow> bool \<times> 'k JobQueue" where
  "jq_Remove w q = jq_delete (jb_Action w) (jb_Key w) q"

section \<open>What the queue promises\<close>

text \<open>The abstract queue is the list of pending jobs, without duplicates. \<open>offer_spec\<close> is the table
  of the comments in the code: which offers are refused, and what they drop.\<close>

fun offer_spec :: "'k Job \<Rightarrow> 'k Job list \<Rightarrow> go_error option \<times> 'k Job list" where
  "offer_spec \<lparr>jb_Action = a, jb_Key = k\<rparr> ws =
     (if a = ActionInvalid then (Some ErrJobInvalid, ws)
      else if mk_job a k \<in> set ws then (Some ErrJobDuplicated, ws)
      else if a = ActionAdd \<and> mk_job ActionUpdate k \<in> set ws \<or>
              a = ActionUpdate \<and> (mk_job ActionAdd k \<in> set ws \<or> mk_job ActionDelete k \<in> set ws)
      then (Some ErrJobConflict, ws)
      else if a = ActionDelete \<and> mk_job ActionAdd k \<in> set ws
      then (Some ErrJobCounteract, remove1 (mk_job ActionAdd k) ws)
      else (None, (if a = ActionDelete then remove1 (mk_job ActionUpdate k) ws else ws) @ [mk_job a k]))"

text \<open>The index is exact, which makes the jobs distinct; the channel and \<open>chanClosed\<close> agree; the channel
  is closed whenever there is a job or the queue is paused, so that no consumer waits in vain.\<close>

definition jindex_ok :: "('k Job \<times> nat) list \<Rightarrow> 'k Job list \<Rightarrow> bool" where
  "jindex_ok ix ws \<longleftrightarrow> (\<forall>w i. map_of ix w = Some i \<longleftrightarrow> i < length ws \<and> ws ! i = w)"

definition signal_ok :: "'k JobQueue \<Rightarrow> bool" where
  "signal_ok q \<longleftrightarrow> jq_chanClosed q = jq_closed q \<and> (jq_queue q \<noteq> [] \<or> jq_paused q \<longrightarrow> jq_closed q)"

definition jq_inv :: "'k JobQueue \<Rightarrow> bool" where
  "jq_inv q \<longleftrightarrow> jindex_ok (jq_index q) (jq_queue q) \<and> signal_ok q"

text \<open>The jobs of one key: \<open>Update\<close> is never pending beside \<open>Add\<close> or \<open>Delete\<close>, and a \<open>Delete\<close> beside an
  \<open>Add\<close> comes first.\<close>

definition compatible :: "'k Job list \<Rightarrow> bool" where
  "compatible ws \<longleftrightarrow> distinct ws \<and> (\<forall>k. mk_job ActionInvalid k \<notin> set ws \<and>
     (mk_job ActionUpdate k \<in> set ws \<longrightarrow> mk_job ActionAdd k \<notin> set ws \<and> mk_job ActionDelete k \<notin> set ws) \<and>
     (\<forall>us vs. ws = us @ mk_job ActionAdd k # vs \<longrightarrow> mk_job ActionDelete k \<notin> set vs))"

section \<open>Lemmas\<close>

lemma job_eta [simp]: "mk_job (jb_Action w) (jb_Key w) = w"
  by simp

lemma jindex_distinct:
  assumes "jindex_ok ix ws"
  shows "distinct ws"
  unfolding distinct_conv_nth
proof (intro allI impI)
  fix i j
  assume "i < length ws" "j < length ws" "i \<noteq> j"
  then have "map_of ix (ws ! i) = Some i" "map_of ix (ws ! j) = Some j"
    using assms by (auto simp: jindex_ok_def)
  with \<open>i \<noteq> j\<close> show "ws ! i \<noteq> ws ! j" by auto
qed

lemma jindex_in: "jindex_ok ix ws \<Longrightarrow> map_of ix w \<noteq> None \<longleftrightarrow> w \<in> set ws"
  unfolding jindex_ok_def by (metis in_set_conv_nth not_None_eq)

lemma buildIndex_snoc:
  "buildIndex (ws @ [w]) ix = AList.update w (length ws) (buildIndex ws ix)"
  by (simp add: buildIndex_def enumerate_append_eq)

lemma buildIndex_lookup:
  "distinct ws \<Longrightarrow> map_of (buildIndex ws ix) w =
     (if w \<in> set ws then Some (THE i. i < length ws \<and> ws ! i = w) else map_of ix w)"
proof (induction ws rule: rev_induct)
  case Nil
  then show ?case by (simp add: buildIndex_def)
next
  case (snoc v ws)
  show ?case
  proof (cases "w = v")
    case True
    then have "(THE i. i < length (ws @ [v]) \<and> (ws @ [v]) ! i = w) = length ws"
      using snoc.prems by (intro the_equality) (auto simp: nth_append in_set_conv_nth split: if_splits)
    with True show ?thesis by (simp add: buildIndex_snoc update_conv')
  next
    case False
    then have "i < length (ws @ [v]) \<and> (ws @ [v]) ! i = w \<longleftrightarrow> i < length ws \<and> ws ! i = w" for i
      by (auto simp: nth_append)
    with False snoc show ?thesis by (simp add: buildIndex_snoc update_conv')
  qed
qed

lemma jindex_build:
  assumes "distinct ws" and "\<And>w. w \<notin> set ws \<Longrightarrow> map_of ix w = None"
  shows "jindex_ok (buildIndex ws ix) ws"
  unfolding jindex_ok_def
proof (intro allI)
  fix w i
  show "map_of (buildIndex ws ix) w = Some i \<longleftrightarrow> i < length ws \<and> ws ! i = w"
  proof (cases "w \<in> set ws")
    case True
    then obtain n where n: "n < length ws" "ws ! n = w" by (auto simp: in_set_conv_nth)
    then have "(THE i. i < length ws \<and> ws ! i = w) = n"
      using assms(1) by (intro the_equality) (auto simp: nth_eq_iff_index_eq)
    with True n assms(1) show ?thesis
      by (auto simp: buildIndex_lookup nth_eq_iff_index_eq)
  next
    case False
    then show ?thesis using assms by (auto simp: buildIndex_lookup)
  qed
qed

lemma take_drop_remove1:
  "distinct ws \<Longrightarrow> i < length ws \<Longrightarrow> take i ws @ drop (Suc i) ws = remove1 (ws ! i) ws"
proof (induction ws arbitrary: i)
  case (Cons v ws)
  then show ?case by (cases i) (auto simp: in_set_conv_nth)
qed simp

lemma jindex_delete:
  assumes "jindex_ok ix ws" and "map_of ix w = Some i"
  shows "take i ws @ drop (Suc i) ws = remove1 w ws"
    and "jindex_ok (buildIndex (remove1 w ws) (AList.delete w ix)) (remove1 w ws)"
proof -
  note d = jindex_distinct [OF assms(1)]
  have i: "i < length ws" "ws ! i = w" using assms by (auto simp: jindex_ok_def)
  with d show "take i ws @ drop (Suc i) ws = remove1 w ws" by (metis take_drop_remove1)
  show "jindex_ok (buildIndex (remove1 w ws) (AList.delete w ix)) (remove1 w ws)"
  proof (rule jindex_build)
    show "distinct (remove1 w ws)" using d by simp
    fix v assume v: "v \<notin> set (remove1 w ws)"
    show "map_of (AList.delete w ix) v = None"
    proof (cases "v = w")
      case False
      with v have "v \<notin> set ws" by (metis in_set_remove1)
      with False show ?thesis using jindex_in [OF assms(1), of v] by (simp add: delete_conv')
    qed (simp add: delete_conv')
  qed
qed

lemma jq_delete_eq:
  assumes "jindex_ok (jq_index q) (jq_queue q)"
  shows "fst (jq_delete a k q) = (mk_job a k \<in> set (jq_queue q))"
    and "jq_queue (snd (jq_delete a k q)) = remove1 (mk_job a k) (jq_queue q)"
    and "jindex_ok (jq_index (snd (jq_delete a k q))) (jq_queue (snd (jq_delete a k q)))"
proof -
  have "fst (jq_delete a k q) = (mk_job a k \<in> set (jq_queue q)) \<and>
    jq_queue (snd (jq_delete a k q)) = remove1 (mk_job a k) (jq_queue q) \<and>
    jindex_ok (jq_index (snd (jq_delete a k q))) (jq_queue (snd (jq_delete a k q)))"
  proof (cases "map_of (jq_index q) (mk_job a k)")
    case None
    then have "mk_job a k \<notin> set (jq_queue q)" using jindex_in [OF assms] by blast
    with None assms show ?thesis by (simp add: jq_delete_def remove1_idem)
  next
    case (Some i)
    then have "mk_job a k \<in> set (jq_queue q)" using jindex_in [OF assms] by blast
    with Some jindex_delete [OF assms Some] show ?thesis by (simp add: jq_delete_def Let_def)
  qed
  then show "fst (jq_delete a k q) = (mk_job a k \<in> set (jq_queue q))"
    and "jq_queue (snd (jq_delete a k q)) = remove1 (mk_job a k) (jq_queue q)"
    and "jindex_ok (jq_index (snd (jq_delete a k q))) (jq_queue (snd (jq_delete a k q)))" by auto
qed

lemma jq_delete_frame [frame_simps, simp]:
  "jq_closed (snd (jq_delete a k q)) = jq_closed q" "jq_chanClosed (snd (jq_delete a k q)) = jq_chanClosed q"
  "jq_paused (snd (jq_delete a k q)) = jq_paused q"
  by (simp_all add: jq_delete_def Let_def split: option.split)

lemma signal_simps [simp]:
  "jq_queue (signal q) = jq_queue q" "jq_index (signal q) = jq_index q" "jq_paused (signal q) = jq_paused q"
  "jq_closed (signal q)"
  by (simp_all add: signal_def)

lemma signal_chanClosed: "jq_chanClosed q = jq_closed q \<Longrightarrow> jq_chanClosed (signal q)"
  by (simp add: signal_def)

lemma reopen_simps [simp]:
  "jq_queue (reopen q) = jq_queue q" "jq_index (reopen q) = jq_index q" "jq_paused (reopen q) = jq_paused q"
  "\<not> jq_closed (reopen q)" "\<not> jq_chanClosed (reopen q)"
  by (simp_all add: reopen_def)

lemma jindex_add:
  assumes "jindex_ok ix ws" and "w \<notin> set ws"
  shows "jindex_ok (AList.update w (length ws) ix) (ws @ [w])"
  unfolding jindex_ok_def
proof (intro allI)
  fix v i
  have "map_of ix w = None" using jindex_in [OF assms(1)] assms(2) by blast
  then show "map_of (AList.update w (length ws) ix) v = Some i \<longleftrightarrow> i < length (ws @ [w]) \<and> (ws @ [w]) ! i = v"
    using assms unfolding jindex_ok_def
    by (auto simp: update_conv' nth_append in_set_conv_nth)
qed

lemma jq_add_simps [simp]:
  "jq_queue (jq_add w q) = jq_queue q @ [w]" "jq_closed (jq_add w q) = jq_closed q"
  "jq_chanClosed (jq_add w q) = jq_chanClosed q" "jq_paused (jq_add w q) = jq_paused q"
  "jq_index (jq_add w q) = AList.update w (length (jq_queue q)) (jq_index q)"
  by (simp_all add: jq_add_def)

lemma jq_has_iff: "jindex_ok (jq_index q) (jq_queue q) \<Longrightarrow> jq_has a k q \<longleftrightarrow> mk_job a k \<in> set (jq_queue q)"
  by (simp add: jq_has_def jindex_in del: not_None_eq)

lemma offer_refines:
  assumes "jindex_ok (jq_index q) (jq_queue q)"
  shows "(fst (jq_Offer w q), jq_queue (snd (jq_Offer w q))) = offer_spec w (jq_queue q)"
proof (cases w)
  case (fields a k)
  note facts = jq_has_iff [OF assms] jindex_in [OF assms] jq_delete_eq [OF assms]
  show ?thesis
    using fields by (cases a) (simp_all add: jq_Offer_def Let_def facts remove1_idem del: not_None_eq)
qed

lemma offer_index:
  assumes "jindex_ok (jq_index q) (jq_queue q)"
  shows "jindex_ok (jq_index (snd (jq_Offer w q))) (jq_queue (snd (jq_Offer w q)))"
proof -
  note d = jq_delete_eq [OF assms]
  have add: "jindex_ok (jq_index (signal (jq_add w q))) (jq_queue (signal (jq_add w q)))"
    if "jindex_ok (jq_index q) (jq_queue q)" "w \<notin> set (jq_queue q)" for q
    using jindex_add [OF that] by simp
  have "w \<notin> set (jq_queue (snd (jq_delete b k q)))" if "w \<notin> set (jq_queue q)" for b k
    using that d(2) by (metis notin_set_remove1)
  then show ?thesis
    using assms add [OF assms] add [OF d(3)] d(3) jindex_in [OF assms, of w]
    by (simp add: jq_Offer_def Let_def del: not_None_eq split: JobAction.split)
qed

lemma offer_signal:
  assumes "signal_ok q" and "jindex_ok (jq_index q) (jq_queue q)"
  shows "signal_ok (snd (jq_Offer w q))"
  using assms(1) jq_delete_eq(2) [OF assms(2)]
  by (auto simp: jq_Offer_def Let_def signal_ok_def signal_chanClosed split: JobAction.split)

lemma jq_inv_offer: "jq_inv q \<Longrightarrow> jq_inv (snd (jq_Offer w q))"
  by (simp add: jq_inv_def offer_index offer_signal)

lemma jq_inv_delete: "jq_inv q \<Longrightarrow> jq_inv (snd (jq_delete a k q))"
proof -
  assume q: "jq_inv q"
  then have ix: "jindex_ok (jq_index q) (jq_queue q)" by (simp add: jq_inv_def)
  have "jq_queue (snd (jq_delete a k q)) \<noteq> [] \<Longrightarrow> jq_queue q \<noteq> []"
    using jq_delete_eq(2) [OF ix, of a k] by auto
  then have "signal_ok (snd (jq_delete a k q))" using q by (auto simp: jq_inv_def signal_ok_def)
  then show ?thesis using jq_delete_eq(3) [OF ix] by (simp add: jq_inv_def)
qed

lemma jq_inv_remove: "jq_inv q \<Longrightarrow> jq_inv (snd (jq_Remove w q))"
  by (simp add: jq_Remove_def jq_inv_delete)

lemma jq_inv_reopen: "jq_inv q \<Longrightarrow> jq_queue q = [] \<Longrightarrow> \<not> jq_paused q \<Longrightarrow> jq_inv (reopen q)"
  by (auto simp: jq_inv_def signal_ok_def)

lemma jq_inv_acquire: "jq_inv q \<Longrightarrow> Acquire q = Some (r, q') \<Longrightarrow> jq_inv q'"
  by (auto simp: Acquire_def Let_def jq_inv_delete intro!: jq_inv_reopen split: if_splits list.splits)

lemma jq_inv_resume: "jq_inv q \<Longrightarrow> jq_inv (Resume q)"
  by (auto simp: jq_inv_def Resume_def Let_def signal_ok_def)

lemma jq_inv_pause: "jq_inv q \<Longrightarrow> jq_inv (snd (Pause q)) \<and> fst (Pause q) = Returns ()"
  by (simp add: jq_inv_def Pause_def signal_ok_def)

lemma jq_inv_new: "jq_inv NewJobQueue"
  by (simp add: jq_inv_def NewJobQueue_def jindex_ok_def signal_ok_def)

lemma jq_queue_frame [simp]:
  "jq_queue (Resume q) = jq_queue q" "jq_queue (snd (Pause q)) = jq_queue q"
  by (simp_all add: Resume_def Pause_def Let_def)

text \<open>An acquired job is the first one and leaves the queue.\<close>

lemma acquire_first:
  assumes "jq_inv q" and "Acquire q = Some ((Some w, m), q')"
  shows "jq_queue q = w # jq_queue q' \<and> m \<and> \<not> jq_paused q"
  using assms jq_delete_eq(2) [of q "jb_Action w" "jb_Key w"]
  by (auto simp: Acquire_def Let_def jq_inv_def split: if_splits list.splits)

lemma acquire_none:
  "Acquire q = Some ((None, m), q') \<Longrightarrow> jq_queue q' = jq_queue q \<and> (jq_paused q \<or> jq_queue q = [])"
  by (auto simp: Acquire_def Let_def split: if_splits list.splits)

text \<open>Offers and removals keep the jobs of each key compatible.\<close>

lemma compatible_remove1: 
  assumes "compatible ws"
  shows "compatible (remove1 w ws)"
proof -
  have "mk_job ActionDelete k \<notin> set vs" if e: "remove1 w ws = us @ mk_job ActionAdd k # vs" for k us vs
  proof
    assume d: "mk_job ActionDelete k \<in> set vs"
    have "w \<in> set ws" using e assms d unfolding compatible_def by (metis remove1_idem)
    then obtain as bs where ws: "ws = as @ w # bs" "w \<notin> set as" by (meson split_list_first)
    then have "as @ bs = us @ mk_job ActionAdd k # vs" using e by (simp add: remove1_append)
    then obtain cs where "us = as @ cs \<and> cs @ mk_job ActionAdd k # vs = bs \<or>
        as = us @ cs \<and> cs @ bs = mk_job ActionAdd k # vs"
      by (auto simp: append_eq_append_conv2)
    then show False
    proof (elim disjE conjE)
      assume "cs @ mk_job ActionAdd k # vs = bs"
      then have "ws = (as @ w # cs) @ mk_job ActionAdd k # vs" using ws by simp
      with d assms show False unfolding compatible_def by blast
    next
      assume a: "as = us @ cs" "cs @ bs = mk_job ActionAdd k # vs"
      show False
      proof (cases cs)
        case Nil
        with a ws have "ws = (us @ [w]) @ mk_job ActionAdd k # vs" by simp
        with d assms show False unfolding compatible_def by blast
      next
        case (Cons c cs')
        with a have "c = mk_job ActionAdd k" "vs = cs' @ bs" by auto
        with a Cons ws have "ws = us @ mk_job ActionAdd k # (cs' @ w # bs)" by simp
        moreover have "mk_job ActionDelete k \<in> set (cs' @ w # bs)" using d \<open>vs = cs' @ bs\<close> by auto
        ultimately show False using assms unfolding compatible_def by blast
      qed
    qed
  qed
  moreover have "distinct (remove1 w ws)" "set (remove1 w ws) \<subseteq> set ws"
    using assms by (auto simp: compatible_def dest: notin_set_remove1)
  ultimately show ?thesis using assms unfolding compatible_def by blast
qed

lemma compatible_snoc:
  assumes "compatible ws" and "mk_job a k \<notin> set ws" and "a \<noteq> ActionInvalid"
    and "a = ActionAdd \<Longrightarrow> mk_job ActionUpdate k \<notin> set ws"
    and "a = ActionUpdate \<Longrightarrow> mk_job ActionAdd k \<notin> set ws \<and> mk_job ActionDelete k \<notin> set ws"
    and "a = ActionDelete \<Longrightarrow> mk_job ActionAdd k \<notin> set ws \<and> mk_job ActionUpdate k \<notin> set ws"
  shows "compatible (ws @ [mk_job a k])"
proof -
  have "mk_job ActionDelete k' \<notin> set vs" if e: "ws @ [mk_job a k] = us @ mk_job ActionAdd k' # vs" for k' us vs
  proof (cases vs rule: rev_cases)
    case (snoc vs' v)
    with e have v: "v = mk_job a k" "ws = us @ mk_job ActionAdd k' # vs'" by auto
    then have "mk_job ActionDelete k' \<notin> set vs'" using assms(1) unfolding compatible_def by blast
    moreover have "mk_job ActionDelete k' \<noteq> v" using v assms(6) by auto
    ultimately show ?thesis using snoc by simp
  qed simp
  then show ?thesis using assms unfolding compatible_def by auto
qed

lemma compatible_offer_spec:
  assumes "compatible ws"
  shows "compatible (snd (offer_spec w ws))"
proof (cases w)
  case (fields a k)
  have "compatible ((if a = ActionDelete then remove1 (mk_job ActionUpdate k) ws else ws) @ [mk_job a k])"
    if "a \<noteq> ActionInvalid" "mk_job a k \<notin> set ws" "a = ActionAdd \<Longrightarrow> mk_job ActionUpdate k \<notin> set ws"
      "a = ActionUpdate \<Longrightarrow> mk_job ActionAdd k \<notin> set ws \<and> mk_job ActionDelete k \<notin> set ws"
      "a = ActionDelete \<Longrightarrow> mk_job ActionAdd k \<notin> set ws"
  proof (cases "a = ActionDelete")
    case True
    have "distinct ws" using assms by (simp add: compatible_def)
    then have "mk_job ActionUpdate k \<notin> set (remove1 (mk_job ActionUpdate k) ws)" by simp
    moreover have "mk_job b k \<notin> set ws \<Longrightarrow> mk_job b k \<notin> set (remove1 (mk_job ActionUpdate k) ws)" for b
      by (rule notin_set_remove1)
    ultimately show ?thesis using that True compatible_remove1 [OF assms]
      by (auto intro!: compatible_snoc)
  next
    case False
    then show ?thesis using that assms by (auto intro!: compatible_snoc)
  qed
  with fields assms compatible_remove1 [OF assms] show ?thesis by auto
qed

lemma compatible_tl: "compatible (w # ws) \<Longrightarrow> compatible ws"
  using compatible_remove1 [of "w # ws" w] by simp

section \<open>The interface of a job queue\<close>

text \<open>What the reconciler needs: the offers follow the table, a removal takes one job out.\<close>

locale job_queue =
  fixes offer :: "'k Job \<Rightarrow> 'q \<Rightarrow> go_error option \<times> 'q"
    and remove :: "'k Job \<Rightarrow> 'q \<Rightarrow> 'q"
    and jobs :: "'q \<Rightarrow> 'k Job list"
    and inv :: "'q \<Rightarrow> bool"
  assumes inv_offer: "inv q \<Longrightarrow> inv (snd (offer w q))"
    and inv_remove: "inv q \<Longrightarrow> inv (remove w q)"
    and distinct_jobs: "inv q \<Longrightarrow> distinct (jobs q)"
    and offer_table: "inv q \<Longrightarrow> (fst (offer w q), jobs (snd (offer w q))) = offer_spec w (jobs q)"
    and remove_job: "inv q \<Longrightarrow> jobs (remove w q) = remove1 w (jobs q)"
begin

text \<open>A job for the key is waiting after an offer, unless the offer was counteracted.\<close>

lemma offer_pending:
  assumes "inv q" and "jb_Action w \<noteq> ActionInvalid" and "fst (offer w q) \<noteq> Some ErrJobCounteract"
  shows "\<exists>a. mk_job a (jb_Key w) \<in> set (jobs (snd (offer w q)))"
proof (cases w)
  case (fields a k)
  have t: "fst (offer (mk_job a k) q) = fst (offer_spec (mk_job a k) (jobs q))"
      "jobs (snd (offer (mk_job a k) q)) = snd (offer_spec (mk_job a k) (jobs q))"
    using offer_table [OF assms(1), of "mk_job a k"] by (metis fst_conv, metis snd_conv)
  show ?thesis using assms(2,3) unfolding fields t by (auto split: if_splits)
qed

lemma offer_success:
  assumes "inv q" and "fst (offer w q) = None"
  shows "w \<in> set (jobs (snd (offer w q)))"
proof (cases w)
  case (fields a k)
  have t: "fst (offer (mk_job a k) q) = fst (offer_spec (mk_job a k) (jobs q))"
      "jobs (snd (offer (mk_job a k) q)) = snd (offer_spec (mk_job a k) (jobs q))"
    using offer_table [OF assms(1), of "mk_job a k"] by (metis fst_conv, metis snd_conv)
  show ?thesis using assms(2) unfolding fields t by (auto split: if_splits)
qed

text \<open>An offer that is preceded by the removal of the same job is never a duplicate.\<close>

lemma reoffer_not_duplicated:
  assumes "inv q"
  shows "fst (offer w (remove w q)) \<noteq> Some ErrJobDuplicated"
proof (cases w)
  case (fields a k)
  have t: "fst (offer (mk_job a k) (remove w q)) = fst (offer_spec (mk_job a k) (jobs (remove w q)))"
    using offer_table [OF inv_remove [OF assms], of "mk_job a k" w] by (metis fst_conv)
  have "mk_job a k \<notin> set (jobs (remove w q))"
    using distinct_jobs [OF assms] fields by (simp add: remove_job [OF assms])
  then show ?thesis unfolding fields t [unfolded fields] by simp
qed

lemma compatible_offer: "inv q \<Longrightarrow> compatible (jobs q) \<Longrightarrow> compatible (jobs (snd (offer w q)))"
  using compatible_offer_spec [of "jobs q" w] offer_table [of q w] by (metis snd_conv)

lemma compatible_remove: "inv q \<Longrightarrow> compatible (jobs q) \<Longrightarrow> compatible (jobs (remove w q))"
  by (simp add: remove_job compatible_remove1)

end

interpretation jq: job_queue jq_Offer "\<lambda>w q. snd (jq_Remove w q)" jq_queue jq_inv
proof (unfold_locales, goal_cases)
  case (1 q w)
  then show ?case by (rule jq_inv_offer)
next
  case (2 q w)
  then show ?case by (rule jq_inv_remove)
next
  case (3 q)
  then show ?case by (auto simp: jq_inv_def intro: jindex_distinct)
next
  case (4 q w)
  then show ?case by (simp add: jq_inv_def offer_refines)
next
  case (5 q w)
  then show ?case by (simp add: jq_inv_def jq_Remove_def jq_delete_eq)
qed

section \<open>Properties\<close>

text \<open>C15: An offer does what the table of the code's comments says, and the index never shows: an
  invalid or duplicated job is refused; \<open>Add\<close> conflicts with a pending \<open>Update\<close> of the same key, and
  \<open>Update\<close> with a pending \<open>Add\<close> or \<open>Delete\<close>; \<open>Delete\<close> counteracts a pending \<open>Add\<close>, which it takes out of the
  queue, or else replaces a pending \<open>Update\<close>; any other job is put at the end.\<close>

theorem job_offer_refines_table:
  assumes "jq_inv q"
  shows "(fst (jq_Offer w q), jq_queue (snd (jq_Offer w q))) = offer_spec w (jq_queue q)"
  by (rule jq.offer_table [OF assms])

definition sample_jobs :: "string JobQueue" where
  "sample_jobs = snd (jq_Offer (mk_job ActionUpdate ''b'') (snd (jq_Offer (mk_job ActionAdd ''a'') NewJobQueue)))"

lemma sample_jobs_inv: "jq_inv sample_jobs"
  by (simp add: sample_jobs_def jq.inv_offer jq_inv_new)

lemma sample_jobs_queue: "jq_queue sample_jobs = [mk_job ActionAdd ''a'', mk_job ActionUpdate ''b'']"
  by code_simp

theorem job_offer_refines_table_witness:
  "fst (jq_Offer (mk_job ActionDelete ''a'') sample_jobs) = Some ErrJobCounteract \<and>
   jq_queue (snd (jq_Offer (mk_job ActionDelete ''b'') sample_jobs)) = [mk_job ActionAdd ''a'', mk_job ActionDelete ''b'']"
  using job_offer_refines_table [OF sample_jobs_inv, of "mk_job ActionDelete ''a''"]
    job_offer_refines_table [OF sample_jobs_inv, of "mk_job ActionDelete ''b''"]
  by (simp add: sample_jobs_queue)

text \<open>C27: Every operation of the job queue keeps its invariant: the index is exact, the jobs of each
  key are compatible (an \<open>Update\<close> never waits beside an \<open>Add\<close> or \<open>Delete\<close>, and no \<open>Delete\<close> behind an \<open>Add\<close>),
  the consumer is signalled whenever a job waits or the queue is paused, and no operation closes
  the signal channel twice, so that \<open>Pause\<close> never panics.\<close>

theorem job_queue_operations_ok:
  assumes "jq_inv q" and "compatible (jq_queue q)"
  shows "(\<forall>q' \<in> {snd (jq_Offer w q), snd (jq_Remove w q), Resume q, snd (Pause q)} \<union>
        {q'. \<exists>r. Acquire q = Some (r, q')}.
      jq_inv q' \<and> compatible (jq_queue q')) \<and> fst (Pause q) = Returns ()"
proof -
  have "compatible (jq_queue q')" if "Acquire q = Some (r, q')" for r q'
  proof (cases "fst r")
    case None
    with that have "jq_queue q' = jq_queue q" using acquire_none [of q "snd r" q'] by (cases r) auto
    with assms(2) show ?thesis by simp
  next
    case (Some v)
    with that have "jq_queue q = v # jq_queue q'" using acquire_first [OF assms(1), of v "snd r" q'] by (cases r) auto
    with assms(2) show ?thesis by (simp add: compatible_tl)
  qed
  moreover have "jq_inv (snd (Pause q)) \<and> fst (Pause q) = Returns ()" by (rule jq_inv_pause [OF assms(1)])
  ultimately show ?thesis
    using assms jq.inv_offer jq.inv_remove jq.compatible_offer jq.compatible_remove jq_inv_resume
      jq_inv_acquire by auto
qed

lemma sample_jobs_compatible: "compatible (jq_queue sample_jobs)"
proof -
  have "compatible ([] :: string Job list)" by (simp add: compatible_def)
  then show ?thesis
    unfolding sample_jobs_def
    by (intro jq.compatible_offer jq.inv_offer jq_inv_new) (simp add: NewJobQueue_def)
qed

theorem job_queue_operations_ok_witness:
  "compatible (jq_queue (snd (jq_Offer (mk_job ActionDelete ''b'') sample_jobs))) \<and>
   jq_inv (snd (jq_Offer (mk_job ActionDelete ''b'') sample_jobs))"
  using job_queue_operations_ok [OF sample_jobs_inv sample_jobs_compatible, of "mk_job ActionDelete ''b''"]
  by simp

end
