(* ===== verification/World.thy ===== *)
theory World
  imports EnvResolve TimeoutQueue JobQueue
begin

text \<open>
  The controller's surroundings. The state the handlers share is a \<open>world\<close>: the two informer
  caches, the two schedule queues and the history of calls made to the outside. Everything
  outside the repository answers through an \<open>env\<close>: the API server, the clock and a few library
  functions. An answer may depend on the whole history, so nothing is assumed about it.

  The objects in the caches are the ones the informers hold: the code that looks one up and
  assigns to its fields changes the cached object, which the model writes back explicitly.
\<close>

section \<open>Results of reconcile handlers\<close>

text \<open>\<open>reconcile.Result\<close>; a handler returns a pointer to a result or nil.\<close>

record Result =
  rs_NextAction :: JobAction
  rs_ScheduleAfter :: duration
  rs_Err :: "go_error option"

definition result_next :: "JobAction \<Rightarrow> Result" where
  "result_next a = \<lparr>rs_NextAction = a, rs_ScheduleAfter = 0, rs_Err = None\<rparr>"

definition result_err :: "go_error \<Rightarrow> Result" where
  "result_err e = \<lparr>rs_NextAction = ActionInvalid, rs_ScheduleAfter = 0, rs_Err = Some e\<rparr>"

section \<open>Configuration\<close>

record MaintenanceJobConfig =
  jc_Namespace :: string
  jc_DefaultStageTimeout :: duration
  jc_PollInterval :: duration

record MaintenanceScheduleConfig =
  sc_DefaultDelay :: duration
  sc_DefaultDuration :: duration
  sc_PollInterval :: duration

record MaintenanceConfig =
  mc_Schedule :: MaintenanceScheduleConfig
  mc_Jobs :: MaintenanceJobConfig

section \<open>Calls to the outside\<close>

text \<open>
  Readings of the clock, events given to a recorder (type, reason, name of the object; the
  message text is left out), and API calls with what they send.
\<close>

datatype effect =
    Clock gotime
  | Event string string string
  | MtUpdateStatus Maintenance
  | MtDelete string
  | MjUpdateStatus MaintenanceJob
  | MjCreate MaintenanceJob
  | JobCreate KJob
  | NodeGet string
  | NodeList string
  | NodePatch string string

type_synonym history = "effect list"

text \<open>
  \<open>en_LabelSelector\<close> is \<open>labels.SelectorFromSet(m).String()\<close>, \<open>en_MergePatch\<close> is
  \<open>strategicpatch.CreateTwoWayMergePatch\<close> on nodes, \<open>en_RangeOrder\<close> the order in which a
  \<open>range\<close> over a Go map with the given keys visits them.
\<close>

record env =
  en_Config :: MaintenanceConfig
  en_ThisPod :: ResourceReference
  en_Now :: "history \<Rightarrow> gotime"
  en_MtUpdateStatus :: "history \<Rightarrow> Maintenance \<Rightarrow> go_error + Maintenance"
  en_MtDelete :: "history \<Rightarrow> string \<Rightarrow> go_error option"
  en_MjUpdateStatus :: "history \<Rightarrow> MaintenanceJob \<Rightarrow> go_error + MaintenanceJob"
  en_MjCreate :: "history \<Rightarrow> MaintenanceJob \<Rightarrow> go_error option"
  en_JobCreate :: "history \<Rightarrow> KJob \<Rightarrow> go_error option"
  en_NodeGet :: "history \<Rightarrow> string \<Rightarrow> go_error + Node"
  en_NodeList :: "history \<Rightarrow> string \<Rightarrow> go_error + Node list"
  en_NodePatch :: "history \<Rightarrow> string \<Rightarrow> string \<Rightarrow> go_error option"
  en_MarshalSpec :: "MaintenanceSpec \<Rightarrow> go_error + string"
  en_UnmarshalSpec :: "string \<Rightarrow> go_error + MaintenanceSpec"
  en_MarshalNode :: "Node \<Rightarrow> go_error + string"
  en_MergePatch :: "string \<Rightarrow> string \<Rightarrow> go_error + string"
  en_Sha256SumHex :: "string \<Rightarrow> string"
  en_FieldPath :: fieldpath
  en_Sprintf :: sprintf
  en_LabelSelector :: "(string \<times> string) list \<Rightarrow> string"
  en_RangeOrder :: "history \<Rightarrow> string list \<Rightarrow> string list"

record world =
  wd_Mt :: "(string \<times> Maintenance) list"
  wd_Mj :: "(string \<times> MaintenanceJob) list"
  wd_MtTQ :: "(string, unit) TimeoutQueue"
  wd_MjTQ :: "(string, unit) TimeoutQueue"
  wd_Hist :: history

abbreviation schedule_config :: "env \<Rightarrow> MaintenanceScheduleConfig" where
  "schedule_config E \<equiv> mc_Schedule (en_Config E)"

abbreviation jobs_config :: "env \<Rightarrow> MaintenanceJobConfig" where
  "jobs_config E \<equiv> mc_Jobs (en_Config E)"

abbreviation jobNamespace :: "env \<Rightarrow> string" where
  "jobNamespace E \<equiv> jc_Namespace (jobs_config E)"

section \<open>Primitive operations\<close>

definition log_effect :: "effect \<Rightarrow> world \<Rightarrow> world" where
  "log_effect e w = w\<lparr>wd_Hist := e # wd_Hist w\<rparr>"

definition time_now :: "env \<Rightarrow> world \<Rightarrow> gotime \<times> world" where
  "time_now E w = (let t = en_Now E (wd_Hist w) in (t, log_effect (Clock t) w))"

definition record_event :: "string \<Rightarrow> string \<Rightarrow> string \<Rightarrow> world \<Rightarrow> world" where
  "record_event etype reason name w = log_effect (Event etype reason name) w"

abbreviation EventTypeNormal :: string where "EventTypeNormal \<equiv> ''Normal''"
abbreviation EventTypeWarning :: string where "EventTypeWarning \<equiv> ''Warning''"

text \<open>The generated clients return a pointer to a new zero object when the call failed.\<close>

definition mt_UpdateStatus :: "env \<Rightarrow> Maintenance \<Rightarrow> world \<Rightarrow> Maintenance \<times> go_error option \<times> world" where
  "mt_UpdateStatus E mt w =
     (case en_MtUpdateStatus E (wd_Hist w) mt of
        Inl err \<Rightarrow> (zero_Maintenance, Some err, log_effect (MtUpdateStatus mt) w)
      | Inr m \<Rightarrow> (m, None, log_effect (MtUpdateStatus mt) w))"

definition mt_Delete :: "env \<Rightarrow> string \<Rightarrow> world \<Rightarrow> go_error option \<times> world" where
  "mt_Delete E name w = (en_MtDelete E (wd_Hist w) name, log_effect (MtDelete name) w)"

definition mj_UpdateStatus :: "env \<Rightarrow> MaintenanceJob \<Rightarrow> world \<Rightarrow> MaintenanceJob \<times> go_error option \<times> world" where
  "mj_UpdateStatus E j w =
     (case en_MjUpdateStatus E (wd_Hist w) j of
        Inl err \<Rightarrow> (zero_MaintenanceJob, Some err, log_effect (MjUpdateStatus j) w)
      | Inr m \<Rightarrow> (m, None, log_effect (MjUpdateStatus j) w))"

definition mj_Create :: "env \<Rightarrow> MaintenanceJob \<Rightarrow> world \<Rightarrow> go_error option \<times> world" where
  "mj_Create E j w = (en_MjCreate E (wd_Hist w) j, log_effect (MjCreate j) w)"

definition job_Create :: "env \<Rightarrow> KJob \<Rightarrow> world \<Rightarrow> go_error option \<times> world" where
  "job_Create E j w = (en_JobCreate E (wd_Hist w) j, log_effect (JobCreate j) w)"

definition node_Get :: "env \<Rightarrow> string \<Rightarrow> world \<Rightarrow> (go_error + Node) \<times> world" where
  "node_Get E name w = (en_NodeGet E (wd_Hist w) name, log_effect (NodeGet name) w)"

definition node_List :: "env \<Rightarrow> string \<Rightarrow> world \<Rightarrow> (go_error + Node list) \<times> world" where
  "node_List E sel w = (en_NodeList E (wd_Hist w) sel, log_effect (NodeList sel) w)"

definition node_Patch :: "env \<Rightarrow> string \<Rightarrow> string \<Rightarrow> world \<Rightarrow> go_error option \<times> world" where
  "node_Patch E name patch w =
     (en_NodePatch E (wd_Hist w) name patch, log_effect (NodePatch name patch) w)"

lemmas api_defs =
  log_effect_def time_now_def record_event_def mt_UpdateStatus_def mt_Delete_def
  mj_UpdateStatus_def mj_Create_def job_Create_def node_Get_def node_List_def node_Patch_def

section \<open>The informer caches\<close>

text \<open>\<open>GetByKey\<close> of the indexer never fails, so its error branch is not part of the model.\<close>

definition getMaintenanceFromCache :: "string \<Rightarrow> world \<Rightarrow> go_error + Maintenance" where
  "getMaintenanceFromCache name w =
     (case map_of (wd_Mt w) name of
        None \<Rightarrow> Inl (ErrorString (''maintenance not found in cache: '' @ name))
      | Some mt \<Rightarrow> Inr mt)"

definition mj_key :: "string \<Rightarrow> string \<Rightarrow> string" where
  "mj_key namespace name = namespace @ ''/'' @ name"

definition getMaintenanceJobFromCache :: "string \<Rightarrow> string \<Rightarrow> world \<Rightarrow> go_error + MaintenanceJob" where
  "getMaintenanceJobFromCache namespace name w =
     (case map_of (wd_Mj w) (mj_key namespace name) of
        None \<Rightarrow> Inl (ErrorString (''maintenanceJob not found in cache: '' @ mj_key namespace name))
      | Some j \<Rightarrow> Inr j)"

text \<open>Assignments through a pointer obtained from a cache.\<close>

definition put_mt :: "string \<Rightarrow> Maintenance \<Rightarrow> world \<Rightarrow> world" where
  "put_mt name mt w = w\<lparr>wd_Mt := AList.update name mt (wd_Mt w)\<rparr>"

definition put_mj :: "string \<Rightarrow> MaintenanceJob \<Rightarrow> world \<Rightarrow> world" where
  "put_mj key j w = w\<lparr>wd_Mj := AList.update key j (wd_Mj w)\<rparr>"

section \<open>The schedule queues\<close>

text \<open>
  \<open>OfferWithTime\<close> reads the clock to compute a timer reset, \<open>OfferWithDelay\<close> once more for the
  expiry. The reading for the reset is logged also when no reset is needed.
\<close>

definition mtTQ_offer_time :: "env \<Rightarrow> string \<Rightarrow> gotime \<Rightarrow> world \<Rightarrow> go_error option \<times> world" where
  "mtTQ_offer_time E name at w =
     (let (now, w1) = time_now E w;
          (err, q) = OfferWithTime name () at now (wd_MtTQ w1)
      in (err, w1\<lparr>wd_MtTQ := q\<rparr>))"

definition mtTQ_offer_delay :: "env \<Rightarrow> string \<Rightarrow> duration \<Rightarrow> world \<Rightarrow> go_error option \<times> world" where
  "mtTQ_offer_delay E name delay w =
     (let (now1, w1) = time_now E w;
          (now2, w2) = time_now E w1;
          (err, q) = OfferWithDelay name () delay now1 now2 (wd_MtTQ w2)
      in (err, w2\<lparr>wd_MtTQ := q\<rparr>))"

definition mjTQ_offer_delay :: "env \<Rightarrow> string \<Rightarrow> duration \<Rightarrow> world \<Rightarrow> go_error option \<times> world" where
  "mjTQ_offer_delay E name delay w =
     (let (now1, w1) = time_now E w;
          (now2, w2) = time_now E w1;
          (err, q) = OfferWithDelay name () delay now1 now2 (wd_MjTQ w2)
      in (err, w2\<lparr>wd_MjTQ := q\<rparr>))"

section \<open>Frame lemmas\<close>

lemma log_effect_frame [frame_simps, simp]:
  "wd_Mt (log_effect e w) = wd_Mt w" "wd_Mj (log_effect e w) = wd_Mj w"
  "wd_MtTQ (log_effect e w) = wd_MtTQ w" "wd_MjTQ (log_effect e w) = wd_MjTQ w"
  "wd_Hist (log_effect e w) = e # wd_Hist w"
  by (simp_all add: log_effect_def)

lemma time_now_eq [simp]:
  "time_now E w = (en_Now E (wd_Hist w), log_effect (Clock (en_Now E (wd_Hist w))) w)"
  by (simp add: time_now_def Let_def)

lemma record_event_eq [simp]:
  "record_event t r n w = log_effect (Event t r n) w"
  by (simp add: record_event_def)

lemma put_frame [frame_simps, simp]:
  "wd_Mj (put_mt n mt w) = wd_Mj w" "wd_MtTQ (put_mt n mt w) = wd_MtTQ w"
  "wd_MjTQ (put_mt n mt w) = wd_MjTQ w" "wd_Hist (put_mt n mt w) = wd_Hist w"
  "wd_Mt (put_mj k j w) = wd_Mt w" "wd_MtTQ (put_mj k j w) = wd_MtTQ w"
  "wd_MjTQ (put_mj k j w) = wd_MjTQ w" "wd_Hist (put_mj k j w) = wd_Hist w"
  by (simp_all add: put_mt_def put_mj_def)

lemma put_lookup [simp]:
  "map_of (wd_Mt (put_mt n mt w)) n' = (if n' = n then Some mt else map_of (wd_Mt w) n')"
  "map_of (wd_Mj (put_mj k j w)) k' = (if k' = k then Some j else map_of (wd_Mj w) k')"
  by (simp_all add: put_mt_def put_mj_def update_conv')

lemma offer_frame [frame_simps, simp]:
  "wd_Mt (snd (mtTQ_offer_time E n t w)) = wd_Mt w"
  "wd_Mj (snd (mtTQ_offer_time E n t w)) = wd_Mj w"
  "wd_MjTQ (snd (mtTQ_offer_time E n t w)) = wd_MjTQ w"
  "wd_Mt (snd (mtTQ_offer_delay E n d w)) = wd_Mt w"
  "wd_Mj (snd (mtTQ_offer_delay E n d w)) = wd_Mj w"
  "wd_MjTQ (snd (mtTQ_offer_delay E n d w)) = wd_MjTQ w"
  "wd_Mt (snd (mjTQ_offer_delay E n d w)) = wd_Mt w"
  "wd_Mj (snd (mjTQ_offer_delay E n d w)) = wd_Mj w"
  "wd_MtTQ (snd (mjTQ_offer_delay E n d w)) = wd_MtTQ w"
  by (simp_all add: mtTQ_offer_time_def mtTQ_offer_delay_def mjTQ_offer_delay_def split: prod.split)

section \<open>Calls in a history\<close>

text \<open>The API calls that change something in the cluster.\<close>

fun is_write :: "effect \<Rightarrow> bool" where
  "is_write (MtUpdateStatus _) = True"
| "is_write (MtDelete _) = True"
| "is_write (MjUpdateStatus _) = True"
| "is_write (MjCreate _) = True"
| "is_write (JobCreate _) = True"
| "is_write (NodePatch _ _) = True"
| "is_write _ = False"

definition writes :: "history \<Rightarrow> effect list" where
  "writes h = filter is_write h"

lemma writes_simps [simp]:
  "writes [] = []" "writes (e # h) = (if is_write e then e # writes h else writes h)"
  by (simp_all add: writes_def)

lemma writes_offer [simp]:
  "writes (wd_Hist (snd (mtTQ_offer_time E n t w))) = writes (wd_Hist w)"
  "writes (wd_Hist (snd (mtTQ_offer_delay E n d w))) = writes (wd_Hist w)"
  "writes (wd_Hist (snd (mjTQ_offer_delay E n d w))) = writes (wd_Hist w)"
  by (simp_all add: mtTQ_offer_time_def mtTQ_offer_delay_def mjTQ_offer_delay_def split: prod.split)

end
