(* ===== verification/EnvMerge.thy ===== *)
theory EnvMerge
  imports KubeTypes
begin

text \<open>
  \<open>mergeEnv\<close> and \<open>mergeEnvFrom\<close> of \<open>pkg/controller/maintenance/maintenencejob.go\<close>: the
  environment of a container, overridden by the node specific one. Both Go functions are the
  same algorithm over different keys, written here once as \<open>merge_by\<close>: \<open>kb\<close> is the key under
  which an entry of \<open>b\<close> is indexed (none for an entry the index skips), \<open>ka\<close> the key under which
  an entry of \<open>a\<close> is looked up. The index \<open>bm\<close> is a Go map; the values left in it are sorted
  before use, so the iteration order of the map does not matter.
\<close>

section \<open>The algorithm\<close>

definition index_add :: "('e \<Rightarrow> string option) \<Rightarrow> nat \<times> 'e \<Rightarrow> (string \<times> nat) list \<Rightarrow> (string \<times> nat) list" where
  "index_add kb p bm = (case kb (snd p) of None \<Rightarrow> bm | Some k \<Rightarrow> AList.update k (fst p) bm)"

definition index_last :: "('e \<Rightarrow> string option) \<Rightarrow> 'e list \<Rightarrow> (string \<times> nat) list" where
  "index_last kb b = fold (index_add kb) (enumerate 0 b) []"

fun merge_front :: "('e \<Rightarrow> string) \<Rightarrow> 'e list \<Rightarrow> (string \<times> nat) list \<Rightarrow> 'e list
    \<Rightarrow> 'e list \<times> (string \<times> nat) list" where
  "merge_front ka b bm [] = ([], bm)"
| "merge_front ka b bm (e # a) =
     (case map_of bm (ka e) of
        None \<Rightarrow> (let (r, bm') = merge_front ka b bm a in (e # r, bm'))
      | Some v \<Rightarrow> (let (r, bm') = merge_front ka b (AList.delete (ka e) bm) a in (b ! v # r, bm')))"

definition merge_by :: "('e \<Rightarrow> string option) \<Rightarrow> ('e \<Rightarrow> string) \<Rightarrow> 'e list \<Rightarrow> 'e list \<Rightarrow> 'e list" where
  "merge_by kb ka a b =
     (let (result, bm) = merge_front ka b (index_last kb b) a;
          remains = sort (map snd bm)
      in result @ map (\<lambda>i. b ! i) remains)"

definition mergeEnv :: "EnvVar list \<Rightarrow> EnvVar list \<Rightarrow> EnvVar list" where
  "mergeEnv a b = merge_by (\<lambda>e. Some (ev_Name e)) ev_Name a b"

text \<open>The key of an environment source: kind, name and prefix, concatenated.\<close>

definition envFromKey :: "EnvFromSource \<Rightarrow> string option" where
  "envFromKey e =
     (case ef_ConfigMapRef e of
        Some r \<Rightarrow> Some (''cm'' @ es_Name r @ ef_Prefix e)
      | None \<Rightarrow>
          (case ef_SecretRef e of
             Some r \<Rightarrow> Some (''sec'' @ es_Name r @ ef_Prefix e)
           | None \<Rightarrow> None))"

definition envFromKeyOrEmpty :: "EnvFromSource \<Rightarrow> string" where
  "envFromKeyOrEmpty e = (case envFromKey e of None \<Rightarrow> '''' | Some k \<Rightarrow> k)"

definition mergeEnvFrom :: "EnvFromSource list \<Rightarrow> EnvFromSource list \<Rightarrow> EnvFromSource list" where
  "mergeEnvFrom a b = merge_by envFromKey envFromKeyOrEmpty a b"

section \<open>Reference definition\<close>

text \<open>
  \<open>lookup_last kb b k\<close> is the last entry of \<open>b\<close> with key \<open>k\<close>. The reference result is \<open>a\<close>
  with the first entry of every such key replaced, followed by the entries of \<open>b\<close> that are
  the last of their key, in the order of \<open>b\<close>, for the keys that do not occur in \<open>a\<close>.
\<close>

definition lookup_last :: "('e \<Rightarrow> string option) \<Rightarrow> 'e list \<Rightarrow> string \<Rightarrow> 'e option" where
  "lookup_last kb b k = List.find (\<lambda>e. kb e = Some k) (rev b)"

fun subst_first :: "('e \<Rightarrow> string) \<Rightarrow> (string \<Rightarrow> 'e option) \<Rightarrow> 'e list \<Rightarrow> 'e list" where
  "subst_first ka l [] = []"
| "subst_first ka l (e # a) =
     (case l (ka e) of
        None \<Rightarrow> e # subst_first ka l a
      | Some e' \<Rightarrow> e' # subst_first ka (l(ka e := None)) a)"

fun lasts :: "('e \<Rightarrow> string option) \<Rightarrow> 'e list \<Rightarrow> 'e list" where
  "lasts kb [] = []"
| "lasts kb (e # b) =
     (if kb e = None \<or> kb e \<in> kb ` set b then lasts kb b else e # lasts kb b)"

definition merge_ref :: "('e \<Rightarrow> string option) \<Rightarrow> ('e \<Rightarrow> string) \<Rightarrow> 'e list \<Rightarrow> 'e list \<Rightarrow> 'e list" where
  "merge_ref kb ka a b =
     subst_first ka (lookup_last kb b) a @
     filter (\<lambda>e. the (kb e) \<notin> ka ` set a) (lasts kb b)"

section \<open>The index\<close>

definition is_last :: "('e \<Rightarrow> string option) \<Rightarrow> 'e list \<Rightarrow> nat \<Rightarrow> string \<Rightarrow> bool" where
  "is_last kb b i k \<longleftrightarrow> i < length b \<and> kb (b ! i) = Some k \<and>
     (\<forall>j < length b. i < j \<longrightarrow> kb (b ! j) \<noteq> Some k)"

lemma index_last_snoc:
  "index_last kb (b @ [e]) = index_add kb (length b, e) (index_last kb b)"
  by (simp add: index_last_def enumerate_append_eq)

lemma index_last_Nil [simp]: "index_last kb [] = []"
  by (simp add: index_last_def)

lemma distinct_index_last: "distinct (map fst (index_last kb b))"
  by (induction b rule: rev_induct)
    (auto simp: index_last_snoc index_add_def distinct_update split: option.splits)

lemma is_last_snoc:
  "is_last kb (b @ [e]) i k \<longleftrightarrow>
     (if kb e = Some k then i = length b else is_last kb b i k)"
  unfolding is_last_def nth_append by (auto simp: less_Suc_eq)

lemma map_of_index_last: "map_of (index_last kb b) k = Some i \<longleftrightarrow> is_last kb b i k"
proof (induction b rule: rev_induct)
  case Nil
  then show ?case by (simp add: is_last_def)
next
  case (snoc e b)
  then show ?case
    by (auto simp: index_last_snoc index_add_def is_last_snoc update_conv' split: option.splits)
qed

lemma lookup_last_snoc:
  "lookup_last kb (b @ [e]) k = (if kb e = Some k then Some e else lookup_last kb b k)"
  by (simp add: lookup_last_def)

lemma lookup_last_index:
  "lookup_last kb b k = map_option (\<lambda>i. b ! i) (map_of (index_last kb b) k)"
proof (induction b rule: rev_induct)
  case Nil
  then show ?case by (simp add: lookup_last_def)
next
  case (snoc e b)
  have eq: "map_option ((!) (b @ [e])) (map_of (index_last kb b) k)
          = map_option ((!) b) (map_of (index_last kb b) k)"
  proof (cases "map_of (index_last kb b) k")
    case (Some i)
    then have "i < length b" by (simp add: map_of_index_last is_last_def)
    with Some show ?thesis by (simp add: nth_append)
  qed simp
  show ?case
    using snoc eq
    by (auto simp: lookup_last_snoc index_last_snoc index_add_def update_conv' split: option.splits)
qed

lemma lookup_last_Some:
  assumes "lookup_last kb b k = Some e"
  shows "kb e = Some k" and "e \<in> set b"
  using assms by (induction b rule: rev_induct) (auto simp: lookup_last_snoc lookup_last_def split: if_splits)

lemma lookup_last_None_iff: "lookup_last kb b k = None \<longleftrightarrow> Some k \<notin> kb ` set b"
  by (force simp: lookup_last_def find_None_iff)

section \<open>The algorithm implements the reference\<close>

lemma merge_front_rest:
  "map_of (snd (merge_front ka b bm a)) = map_of bm |` (- (ka ` set a))"
  by (induction ka b bm a rule: merge_front.induct)
    (auto simp: delete_conv' restrict_map_def fun_eq_iff split: option.splits prod.splits)

lemma merge_front_distinct:
  "distinct (map fst bm) \<Longrightarrow> distinct (map fst (snd (merge_front ka b bm a)))"
  by (induction ka b bm a rule: merge_front.induct)
    (auto simp: distinct_delete split: option.splits prod.splits)

lemma merge_front_subst:
  "fst (merge_front ka b bm a) = subst_first ka (\<lambda>k. map_option (\<lambda>i. b ! i) (map_of bm k)) a"
proof (induction ka b bm a rule: merge_front.induct)
  case (2 ka b bm e a)
  have upd: "(\<lambda>k. map_option ((!) b) (map_of (AList.delete (ka e) bm) k))
      = (\<lambda>k. map_option ((!) b) (map_of bm k))(ka e := None)"
    by (auto simp: delete_conv')
  from 2 show ?case
    by (auto simp: upd split: option.splits prod.splits)
qed simp

text \<open>The indices left over, as one list of indices of \<open>b\<close>.\<close>

definition left_over :: "('e \<Rightarrow> string option) \<Rightarrow> string set \<Rightarrow> 'e list \<Rightarrow> nat list" where
  "left_over kb K b = filter (\<lambda>i. \<exists>k. is_last kb b i k \<and> k \<notin> K) [0..<length b]"

lemma is_last_unique: "is_last kb b i k \<Longrightarrow> is_last kb b i k' \<Longrightarrow> k = k'"
  by (simp add: is_last_def)

lemma sorted_remains:
  assumes d: "distinct (map fst bm)" and m: "map_of bm = map_of (index_last kb b) |` (- K)"
  shows "sort (map snd bm) = left_over kb K b"
proof (rule sorted_distinct_set_unique)
  have mem: "(k, i) \<in> set bm \<longleftrightarrow> is_last kb b i k \<and> k \<notin> K" for k i
  proof -
    have "(k, i) \<in> set bm \<longleftrightarrow> map_of bm k = Some i"
      using d by (auto simp: map_of_eq_Some_iff)
    then show ?thesis
      unfolding m restrict_map_def by (simp add: map_of_index_last)
  qed
  have "inj_on snd (set bm)"
    by (rule inj_onI) (auto simp: mem dest: is_last_unique)
  then show "distinct (sort (map snd bm))"
    using d by (simp add: distinct_map)
  have "set (map snd bm) = {i. \<exists>k. (k, i) \<in> set bm}"
    by force
  then have "set (sort (map snd bm)) = {i. \<exists>k. is_last kb b i k \<and> k \<notin> K}"
    by (simp add: mem)
  moreover have "is_last kb b i k \<Longrightarrow> i < length b" for i k
    by (simp add: is_last_def)
  ultimately show "set (sort (map snd bm)) = set (left_over kb K b)"
    unfolding left_over_def by auto
qed (simp_all add: left_over_def sorted_wrt_filter)

lemma is_last_Cons_0: "is_last kb (e # b) 0 k \<longleftrightarrow> kb e = Some k \<and> Some k \<notin> kb ` set b"
proof -
  have "(\<forall>i < length b. kb (b ! i) \<noteq> Some k) \<longleftrightarrow> (\<forall>x \<in> set b. kb x \<noteq> Some k)"
    by (simp add: all_set_conv_all_nth)
  then show ?thesis
    by (simp add: is_last_def All_less_Suc2) (auto simp: image_iff)
qed

lemma is_last_Cons_Suc: "is_last kb (e # b) (Suc i) k \<longleftrightarrow> is_last kb b i k"
  by (simp add: is_last_def All_less_Suc2)

lemma left_over_lasts:
  "map (\<lambda>i. b ! i) (left_over kb K b) = filter (\<lambda>e. the (kb e) \<notin> K) (lasts kb b)"
proof (induction b)
  case Nil
  then show ?case by (simp add: left_over_def)
next
  case (Cons e b)
  have "left_over kb K (e # b) =
      filter (\<lambda>i. \<exists>k. is_last kb (e # b) i k \<and> k \<notin> K) (0 # map Suc [0..<length b])"
    unfolding left_over_def by (simp only: length_Cons upt_conv_Cons [OF zero_less_Suc] map_Suc_upt)
  also have "\<dots> = (if (\<exists>k. is_last kb (e # b) 0 k \<and> k \<notin> K) then [0] else [])
      @ map Suc (left_over kb K b)"
    by (simp add: left_over_def filter_map o_def is_last_Cons_Suc)
  finally have step: "left_over kb K (e # b) =
      (if (\<exists>k. is_last kb (e # b) 0 k \<and> k \<notin> K) then [0] else []) @ map Suc (left_over kb K b)" .
  have "(\<exists>k. is_last kb (e # b) 0 k \<and> k \<notin> K) \<longleftrightarrow>
      \<not> (kb e = None \<or> kb e \<in> kb ` set b) \<and> the (kb e) \<notin> K"
    by (cases "kb e") (simp_all add: is_last_Cons_0)
  with Cons show ?case
    by (simp add: step o_def)
qed

lemma merge_by_eq_ref: "merge_by kb ka a b = merge_ref kb ka a b"
proof -
  obtain r bm where rbm: "merge_front ka b (index_last kb b) a = (r, bm)" by fastforce
  have r: "r = subst_first ka (lookup_last kb b) a"
    using merge_front_subst [of ka b "index_last kb b" a] rbm
    by (simp add: lookup_last_index [abs_def])
  have "sort (map snd bm) = left_over kb (ka ` set a) b"
    using merge_front_rest [of ka b "index_last kb b" a]
      merge_front_distinct [OF distinct_index_last, of ka b kb b a] rbm
    by (intro sorted_remains) simp_all
  then show ?thesis
    by (simp add: merge_by_def merge_ref_def rbm r left_over_lasts)
qed

section \<open>The environment a container sees\<close>

text \<open>
  Of several variables with one name, Kubernetes uses the last. \<open>effective es n\<close> is the entry
  that decides the value of \<open>n\<close>.
\<close>

definition effective :: "EnvVar list \<Rightarrow> string \<Rightarrow> EnvVar option" where
  "effective es n = lookup_last (\<lambda>e. Some (ev_Name e)) es n"

lemma effective_Nil [simp]: "effective [] n = None"
  by (simp add: effective_def lookup_last_def)

lemma effective_append:
  "effective (xs @ ys) n = (case effective ys n of None \<Rightarrow> effective xs n | Some e \<Rightarrow> Some e)"
  unfolding effective_def
  by (induction ys rule: rev_induct)
    (auto simp: lookup_last_snoc append_assoc [symmetric] lookup_last_def simp del: append_assoc)

lemma effective_single: "effective [x] n = (if ev_Name x = n then Some x else None)"
  by (simp add: effective_def lookup_last_def)

lemma effective_Cons:
  "effective (x # xs) n = (case effective xs n of
     None \<Rightarrow> (if ev_Name x = n then Some x else None) | Some e \<Rightarrow> Some e)"
  using effective_append [of "[x]" xs n] by (simp add: effective_single split: option.split)

lemma effective_name: "effective es n = Some e \<Longrightarrow> ev_Name e = n \<and> e \<in> set es"
  unfolding effective_def using lookup_last_Some by fastforce

lemma effective_None_iff: "effective es n = None \<longleftrightarrow> n \<notin> ev_Name ` set es"
  by (force simp: effective_def lookup_last_None_iff)

lemma effective_subst_first:
  assumes "distinct (map ev_Name a)" and "\<And>k e. l k = Some e \<Longrightarrow> ev_Name e = k"
  shows "effective (subst_first ev_Name l a) n =
    (if n \<in> ev_Name ` set a
     then (case l n of None \<Rightarrow> effective a n | Some e \<Rightarrow> Some e) else None)"
  using assms
proof (induction a arbitrary: l)
  case (Cons x a)
  have IH: "effective (subst_first ev_Name l' a) n = (if n \<in> ev_Name ` set a
     then (case l' n of None \<Rightarrow> effective a n | Some e \<Rightarrow> Some e) else None)"
    if "\<And>k e. l' k = Some e \<Longrightarrow> ev_Name e = k" for l'
    using Cons.IH [of l'] Cons.prems(1) that by simp
  have fresh: "ev_Name x \<notin> ev_Name ` set a" using Cons.prems(1) by simp
  then have a: "effective a (ev_Name x) = None" by (simp only: effective_None_iff not_False_eq_True)
  show ?case
  proof (cases "l (ev_Name x)")
    case None
    have "effective (subst_first ev_Name l a) n = (if n \<in> ev_Name ` set a
       then (case l n of None \<Rightarrow> effective a n | Some e \<Rightarrow> Some e) else None)"
      by (rule IH) (rule Cons.prems(2))
    then show ?thesis using None a fresh
      by (cases "n = ev_Name x") (auto simp: effective_Cons split: option.splits)
  next
    case (Some y)
    then have y: "ev_Name y = ev_Name x" by (rule Cons.prems(2))
    have "effective (subst_first ev_Name (l(ev_Name x := None)) a) n = (if n \<in> ev_Name ` set a
       then (case (l(ev_Name x := None)) n of None \<Rightarrow> effective a n | Some e \<Rightarrow> Some e) else None)"
      by (rule IH) (auto split: if_splits intro: Cons.prems(2))
    then show ?thesis using Some y a fresh
      by (cases "n = ev_Name x") (auto simp: effective_Cons split: option.splits)
  qed
qed simp

lemma effective_lasts:
  "effective (filter (\<lambda>e. ev_Name e \<notin> K) (lasts (\<lambda>e. Some (ev_Name e)) b)) n =
   (if n \<in> K then None else effective b n)"
  by (induction b) (auto simp: effective_Cons effective_None_iff split: option.splits)

lemma effective_mergeEnv:
  assumes "distinct (map ev_Name a)"
  shows "effective (mergeEnv a b) n =
    (case effective b n of Some e \<Rightarrow> Some e | None \<Rightarrow> effective a n)"
proof -
  let ?kb = "\<lambda>e. Some (ev_Name e)"
  have l: "lookup_last ?kb b k = Some e \<Longrightarrow> ev_Name e = k" for k e
    using lookup_last_Some(1) [of ?kb b k e] by simp
  have a: "effective a n = None" if "n \<notin> ev_Name ` set a"
    using that by (simp only: effective_None_iff not_False_eq_True)
  have front: "effective (subst_first ev_Name (lookup_last ?kb b) a) n = (if n \<in> ev_Name ` set a
     then (case effective b n of None \<Rightarrow> effective a n | Some e \<Rightarrow> Some e) else None)"
    unfolding effective_def [of b] by (rule effective_subst_first [OF assms]) (rule l)
  have "mergeEnv a b = subst_first ev_Name (lookup_last ?kb b) a @
      filter (\<lambda>e. ev_Name e \<notin> ev_Name ` set a) (lasts ?kb b)"
    by (simp add: mergeEnv_def merge_by_eq_ref merge_ref_def)
  then show ?thesis
    by (cases "n \<in> ev_Name ` set a")
      (auto simp: effective_append effective_lasts front a split: option.splits)
qed

lemma effective_subst_other:
  assumes "l n = None" and "\<And>k e. l k = Some e \<Longrightarrow> ev_Name e = k"
  shows "effective (subst_first ev_Name l a) n = effective a n"
  using assms
proof (induction a arbitrary: l)
  case (Cons x a)
  have IH: "effective (subst_first ev_Name (l(k := None)) a) n = effective a n" for k
    by (rule Cons.IH) (use Cons.prems in \<open>auto split: if_splits\<close>)
  have "effective (subst_first ev_Name l a) n = effective a n"
    by (rule Cons.IH) (use Cons.prems in auto)
  then show ?case
    using Cons.prems IH by (auto simp: effective_Cons split: option.split)
qed simp

lemma subst_first_append:
  "subst_first ka l (a1 @ a2) =
   subst_first ka l a1 @ subst_first ka (\<lambda>k. if k \<in> ka ` set a1 then None else l k) a2"
proof (induction a1 arbitrary: l)
  case (Cons x a1)
  show ?case
  proof (cases "l (ka x)")
    case None
    then have "(\<lambda>k. if k \<in> ka ` set a1 then None else l k)
        = (\<lambda>k. if k \<in> ka ` set (x # a1) then None else l k)"
      by auto
    with None Cons [of l] show ?thesis by simp
  next
    case (Some y)
    define l' where "l' = l(ka x := None)"
    have "(\<lambda>k. if k \<in> ka ` set a1 then None else l' k)
        = (\<lambda>k. if k \<in> ka ` set (x # a1) then None else l k)"
      by (auto simp: l'_def)
    with Some Cons [of l'] show ?thesis by (simp flip: l'_def)
  qed
qed simp

section \<open>The environment sources a container sees\<close>

text \<open>Two sources that refer to the same object of the same kind.\<close>

definition same_source :: "EnvFromSource \<Rightarrow> EnvFromSource \<Rightarrow> bool" where
  "same_source e f \<longleftrightarrow> e = f \<or>
     (case (ef_ConfigMapRef e, ef_ConfigMapRef f) of
        (Some r, Some s) \<Rightarrow> es_Name r = es_Name s
      | (None, None) \<Rightarrow>
          (case (ef_SecretRef e, ef_SecretRef f) of
             (Some r, Some s) \<Rightarrow> es_Name r = es_Name s | _ \<Rightarrow> False)
      | _ \<Rightarrow> False)"

lemma envFromKey_not_empty: "envFromKey e \<noteq> Some ''''"
  by (auto simp: envFromKey_def split: option.splits)

lemma same_key_same_source:
  assumes "envFromKey f = Some (envFromKeyOrEmpty e)"
    and "ef_Prefix e = ''''" "ef_Prefix f = ''''"
  shows "same_source e f"
proof (cases "envFromKey e")
  case None
  with assms(1) envFromKey_not_empty [of f] show ?thesis by (simp add: envFromKeyOrEmpty_def)
next
  case (Some k)
  with assms show ?thesis
    by (auto simp: envFromKeyOrEmpty_def envFromKey_def same_source_def split: option.splits)
qed

lemma subst_first_keeps:
  "e \<in> set a \<Longrightarrow> e \<notin> set (subst_first ka l a) \<Longrightarrow>
   \<exists>f. l (ka e) = Some f \<and> f \<in> set (subst_first ka l a)"
proof (induction a arbitrary: l)
  case (Cons x a)
  show ?case
  proof (cases "l (ka x)")
    case None
    with Cons.prems have "e \<in> set a" "e \<notin> set (subst_first ka l a)" by auto
    from Cons.IH [OF this] None show ?thesis by auto
  next
    case (Some y)
    show ?thesis
    proof (cases "e = x")
      case True
      with Some show ?thesis by simp
    next
      case False
      define l' where "l' = l(ka x := None)"
      have "e \<in> set a" "e \<notin> set (subst_first ka l' a)"
        using False Cons.prems Some by (auto simp flip: l'_def)
      then obtain f where "l' (ka e) = Some f" "f \<in> set (subst_first ka l' a)"
        using Cons.IH by blast
      with Some show ?thesis by (auto simp: l'_def split: if_splits)
    qed
  qed
qed simp

section \<open>Properties\<close>

text \<open>C37: \<open>mergeEnv\<close> and \<open>mergeEnvFrom\<close> compute the reference result: the entries of \<open>a\<close> in
  their order, the first of every key of \<open>b\<close> replaced by the last entry of \<open>b\<close> with that key,
  then the last entries of \<open>b\<close> whose key does not occur in \<open>a\<close>, in the order of \<open>b\<close>. The
  iteration order of the index map has no influence.\<close>

theorem merge_functions_eq_reference:
  "mergeEnv a b = merge_ref (\<lambda>e. Some (ev_Name e)) ev_Name a b \<and>
   mergeEnvFrom c d = merge_ref envFromKey envFromKeyOrEmpty c d"
  by (simp add: mergeEnv_def mergeEnvFrom_def merge_by_eq_ref)

text \<open>If the names of the container's own variables are distinct, then in the merged
  environment every node specific variable has its node specific value and every other
  variable keeps its own.\<close>

lemma mergeEnv_overrides:
  assumes "distinct (map ev_Name a)"
  shows "effective (mergeEnv a b) n =
    (case effective b n of Some e \<Rightarrow> Some e | None \<Rightarrow> effective a n)"
  by (rule effective_mergeEnv [OF assms])

definition sample_env :: "string \<Rightarrow> string \<Rightarrow> EnvVar" where
  "sample_env n v = \<lparr>ev_Name = n, ev_Value = v, ev_ValueFrom = None\<rparr>"

lemma mergeEnv_overrides_witness:
  "distinct (map ev_Name [sample_env ''A'' ''1'', sample_env ''B'' ''2'']) \<and>
   effective (mergeEnv [sample_env ''A'' ''1'', sample_env ''B'' ''2'']
     [sample_env ''B'' ''3'']) ''B'' = Some (sample_env ''B'' ''3'')"
proof -
  have d: "distinct (map ev_Name [sample_env ''A'' ''1'', sample_env ''B'' ''2''])"
    by (simp add: sample_env_def)
  show ?thesis
    using d mergeEnv_overrides [OF d, of "[sample_env ''B'' ''3'']" "''B''"]
    by (simp add: effective_single sample_env_def)
qed

text \<open>If a container lists a variable twice, a node specific variable of that name does not
  take effect: only the first of the two is replaced, and the value seen is the one the
  container gave last.\<close>

lemma mergeEnv_duplicate_not_overridden:
  assumes "ev_Name x = n" "ev_Name y = n"
  shows "effective (mergeEnv (a1 @ x # a2 @ y # a3) b) n = effective (a1 @ x # a2 @ y # a3) n"
proof -
  let ?kb = "\<lambda>e. Some (ev_Name e)" and ?a = "a1 @ x # a2 @ y # a3"
  define l2 where "l2 = (\<lambda>k. if k \<in> ev_Name ` set (a1 @ [x]) then None else lookup_last ?kb b k)"
  have l2: "l2 n = None" "\<And>k e. l2 k = Some e \<Longrightarrow> ev_Name e = k"
    using assms lookup_last_Some(1) by (fastforce simp: l2_def split: if_splits)+
  have "mergeEnv ?a b = subst_first ev_Name (lookup_last ?kb b) (a1 @ [x]) @
      subst_first ev_Name l2 (a2 @ y # a3) @
      filter (\<lambda>e. ev_Name e \<notin> ev_Name ` set ?a) (lasts ?kb b)"
    using subst_first_append [of ev_Name "lookup_last ?kb b" "a1 @ [x]" "a2 @ y # a3"]
    by (simp add: mergeEnv_def merge_by_eq_ref merge_ref_def l2_def)
  moreover have "effective (filter (\<lambda>e. ev_Name e \<notin> ev_Name ` set ?a) (lasts ?kb b)) n = None"
    using assms(1) by (simp only: effective_lasts) auto
  moreover obtain v where v: "effective (a2 @ y # a3) n = Some v"
    using effective_None_iff [of "a2 @ y # a3" n] assms(2) by auto
  moreover have "effective ((a1 @ [x]) @ (a2 @ y # a3)) n = Some v"
    by (simp only: effective_append [of "a1 @ [x]"] v option.case)
  ultimately show ?thesis
    using effective_subst_other [of l2, OF l2] by (simp add: effective_append [of "subst_first _ _ _"])
qed

lemma mergeEnv_duplicate_not_overridden_witness:
  "effective (mergeEnv [sample_env ''A'' ''1'', sample_env ''A'' ''2''] [sample_env ''A'' ''3''])
     ''A'' = Some (sample_env ''A'' ''2'')"
  using mergeEnv_duplicate_not_overridden [of "sample_env ''A'' ''1''" "''A''"
      "sample_env ''A'' ''2''" "[]" "[]" "[]" "[sample_env ''A'' ''3'']"]
  by (simp add: sample_env_def effective_Cons)

text \<open>When no prefix is used, merging loses no environment source of the container: each one
  is kept or replaced by a node specific source that refers to the same object.\<close>

lemma mergeEnvFrom_keeps_sources:
  assumes "\<And>e. e \<in> set a \<union> set b \<Longrightarrow> ef_Prefix e = ''''" and "e \<in> set a"
  shows "\<exists>f \<in> set (mergeEnvFrom a b). same_source e f"
proof (cases "e \<in> set (mergeEnvFrom a b)")
  case True
  then show ?thesis by (auto simp: same_source_def)
next
  case False
  let ?l = "lookup_last envFromKey b"
  have m: "set (subst_first envFromKeyOrEmpty ?l a) \<subseteq> set (mergeEnvFrom a b)"
    by (auto simp: mergeEnvFrom_def merge_by_eq_ref merge_ref_def)
  with False obtain f where f: "?l (envFromKeyOrEmpty e) = Some f" "f \<in> set (mergeEnvFrom a b)"
    using subst_first_keeps [OF assms(2)] by blast
  with lookup_last_Some [OF f(1)] assms have "same_source e f"
    by (intro same_key_same_source) auto
  with f(2) show ?thesis by blast
qed

definition sample_cm :: "string \<Rightarrow> string \<Rightarrow> EnvFromSource" where
  "sample_cm p n = \<lparr>ef_Prefix = p, ef_ConfigMapRef = Some \<lparr>es_Name = n, es_Optional = None\<rparr>,
     ef_SecretRef = None\<rparr>"

lemma mergeEnvFrom_keeps_sources_witness:
  "\<exists>f \<in> set (mergeEnvFrom [sample_cm '''' ''x''] [sample_cm '''' ''y'']).
     same_source (sample_cm '''' ''x'') f"
  by (rule mergeEnvFrom_keeps_sources) (auto simp: sample_cm_def)

text \<open>With prefixes, merging can lose a source: name and prefix are concatenated without a
  separator, so that config map \<open>ab\<close> without a prefix and config map \<open>a\<close> with prefix \<open>b\<close> have
  the same key, and the node specific source replaces the other one.\<close>

lemma mergeEnvFrom_key_collision:
  "\<not> same_source (sample_cm '''' ''ab'') (sample_cm ''b'' ''a'') \<and>
   mergeEnvFrom [sample_cm '''' ''ab''] [sample_cm ''b'' ''a''] = [sample_cm ''b'' ''a'']"
  by (simp add: mergeEnvFrom_def merge_by_eq_ref merge_ref_def lookup_last_def sample_cm_def
      envFromKey_def envFromKeyOrEmpty_def same_source_def)

end
