(* ===== verification/JobGen.thy ===== *)
theory JobGen
  imports World EnvMerge
begin

text \<open>
  The objects the controller creates: the \<open>MaintenanceJob\<close> of a maintenance for one node
  (\<open>generateMaintenanceJob\<close>, \<open>maintenencejob.go\<close>) and the Kubernetes job of a stage with a pod
  template (\<open>generateJob\<close>, \<open>job.go\<close>).
\<close>

section \<open>\<open>generateMaintenanceJob\<close>\<close>

definition RestartPolicyNever :: string where
  "RestartPolicyNever = ''Never''"

definition merge_container :: "EnvVar list \<Rightarrow> EnvFromSource list \<Rightarrow> Container \<Rightarrow> Container" where
  "merge_container env envFrom c =
     c\<lparr>ct_Env := mergeEnv (ct_Env c) env, ct_EnvFrom := mergeEnvFrom (ct_EnvFrom c) envFrom\<rparr>"

text \<open>The user chose a node himself, by node affinity, node name or node selector.\<close>

definition overrides_node :: "PodTemplateSpec \<Rightarrow> bool" where
  "overrides_node pod \<longleftrightarrow>
     (ps_Affinity pod \<noteq> None \<and> the (ps_Affinity pod) \<noteq> None) \<or> ps_NodeName pod \<noteq> [] \<or>
     ps_NodeSelector pod \<noteq> None"

definition generate_pod ::
  "string \<Rightarrow> Toleration list \<Rightarrow> EnvVar list \<Rightarrow> EnvFromSource list \<Rightarrow> PodTemplateSpec \<Rightarrow> PodTemplateSpec"
where
  "generate_pod nodeName tolerations env envFrom pod =
     (let pod1 = (if overrides_node pod then pod
                  else pod\<lparr>ps_NodeName := nodeName, ps_Tolerations := tolerations\<rparr>)
      in pod1\<lparr>ps_RestartPolicy := RestartPolicyNever,
              ps_InitContainers := map (merge_container env envFrom) (ps_InitContainers pod1),
              ps_Containers := map (merge_container env envFrom) (ps_Containers pod1)\<rparr>)"

definition generate_stage ::
  "string \<Rightarrow> Toleration list \<Rightarrow> EnvVar list \<Rightarrow> EnvFromSource list \<Rightarrow> duration
     \<Rightarrow> MaintenanceStage \<Rightarrow> MaintenanceStage"
where
  "generate_stage nodeName tolerations env envFrom defaultStageTimeout stage =
     (let spec = (if st_Timeout stage = 0 then stage\<lparr>st_Timeout := defaultStageTimeout\<rparr> else stage)
      in spec\<lparr>st_Pod := map_option (generate_pod nodeName tolerations env envFrom) (st_Pod spec)\<rparr>)"

definition generateMaintenanceJob ::
  "string \<Rightarrow> string \<Rightarrow> Maintenance \<Rightarrow> EnvVar list \<Rightarrow> EnvFromSource list \<Rightarrow> MaintenanceSpec
     \<Rightarrow> string \<Rightarrow> duration \<Rightarrow> MaintenanceJob"
where
  "generateMaintenanceJob nodeName machineID mt env envFrom snapshot namespace defaultStageTimeout =
     \<lparr>mj_Meta = zero_ObjectMeta\<lparr>
        om_Name := mt_Name mt @ ''.'' @ nodeName,
        om_Namespace := namespace,
        om_Labels := om_Labels (mt_Meta mt),
        om_OwnerReferences := [NewControllerRef (mt_Meta mt) SchemeGroupVersion ''Maintenance'']\<rparr>,
      mj_Spec = \<lparr>js_NodeName = nodeName, js_MachineID = machineID,
        js_Stages = map (generate_stage nodeName (sp_Tolerations snapshot) env envFrom
                           defaultStageTimeout) (sp_Stages snapshot)\<rparr>,
      mj_Status = \<lparr>jt_SucceededAt = None, jt_FailedAt = None, jt_Stages = []\<rparr>\<rparr>"

section \<open>\<open>generateJob\<close>\<close>

definition LabelMaintenanceStage :: string where
  "LabelMaintenanceStage = ''maintenance.arhat.dev/stage''"

text \<open>
  \<open>int64(d.Seconds())\<close>: \<open>Seconds\<close> is a \<open>float64\<close>, the whole seconds plus the nanoseconds
  divided by 10^9. \<open>round_half_even n d\<close> is the rational \<open>n / d\<close> rounded to the nearest integer,
  ties to even; \<open>float_frac ns\<close> are the 53 significant bits and the (negated) exponent of
  \<open>ns / 10^9\<close>; \<open>float_trunc_sum\<close> rounds the exact sum of seconds and fraction to 53
  significant bits and truncates it.
\<close>

definition round_half_even :: "int \<Rightarrow> int \<Rightarrow> int" where
  "round_half_even n d =
     (let q = n div d; r = n mod d
      in if 2 * r < d then q else if 2 * r > d then q + 1 else if even q then q else q + 1)"

fun bit_length_fuel :: "nat \<Rightarrow> int \<Rightarrow> nat" where
  "bit_length_fuel 0 n = 0"
| "bit_length_fuel (Suc f) n = (if n \<le> 0 then 0 else Suc (bit_length_fuel f (n div 2)))"

text \<open>The numbers here are below \<open>2^160\<close>.\<close>

definition bit_length :: "int \<Rightarrow> nat" where
  "bit_length n = bit_length_fuel 200 n"

fun frac_exponent :: "nat \<Rightarrow> nat \<Rightarrow> int \<Rightarrow> nat" where
  "frac_exponent 0 e ns = e"
| "frac_exponent (Suc f) e ns =
     (if ns * 2 ^ e < 2 ^ 52 * 1000000000 then frac_exponent f (Suc e) ns else e)"

definition float_frac :: "int \<Rightarrow> int \<times> nat" where
  "float_frac ns =
     (if ns = 0 then (0, 0)
      else (let e = frac_exponent 100 0 ns in (round_half_even (ns * 2 ^ e) 1000000000, e)))"

definition float_trunc_sum :: "int \<Rightarrow> int \<Rightarrow> int" where
  "float_trunc_sum sec ns =
     (let (m, e) = float_frac ns;
          n = sec * 2 ^ e + m;
          shift = bit_length n - 53
      in (round_half_even n (2 ^ shift) * 2 ^ shift) div 2 ^ e)"

definition Seconds_int64 :: "duration \<Rightarrow> 64 word" where
  "Seconds_int64 d =
     (let a = \<bar>sint d\<bar>; s = float_trunc_sum (a div 1000000000) (a mod 1000000000)
      in word_of_int (if sint d < 0 then - s else s))"

text \<open>\<open>stage.Pod.DeepCopy()\<close> of a nil pod template is nil, and dereferencing it panics; the
  caller only passes stages with a pod.\<close>

definition generateJob :: "MaintenanceJob \<Rightarrow> MaintenanceStage \<Rightarrow> KJob outcome" where
  "generateJob mtJob stage =
     (case st_Pod stage of
        None \<Rightarrow> Panics NilDereference
      | Some pod \<Rightarrow> Returns
          \<lparr>kj_Meta = zero_ObjectMeta\<lparr>
             om_Name := mj_Name mtJob @ ''.'' @ st_Name stage,
             om_Namespace := om_Namespace (mj_Meta mtJob),
             om_Labels := AList.update LabelMaintenanceStage (st_Name stage) (om_Labels (mj_Meta mtJob)),
             om_OwnerReferences :=
               [NewControllerRef (mj_Meta mtJob) SchemeGroupVersion ''MaintenanceJob'']\<rparr>,
           kj_Parallelism = Some 1, kj_Completions = Some 1,
           kj_ActiveDeadlineSeconds = Some (Seconds_int64 (st_Timeout stage)),
           kj_Template = pod,
           kj_Active = 0, kj_Succeeded = 0, kj_Failed = 0,
           kj_CompletionTime = None, kj_Conditions = []\<rparr>)"

section \<open>Lemmas\<close>

lemma generate_stage_simps [simp]:
  "st_Name (generate_stage n tls env ef dt s) = st_Name s"
  "st_Delay (generate_stage n tls env ef dt s) = st_Delay s"
  "st_Timeout (generate_stage n tls env ef dt s) = (if st_Timeout s = 0 then dt else st_Timeout s)"
  "st_Drain (generate_stage n tls env ef dt s) = st_Drain s"
  "st_Uncordon (generate_stage n tls env ef dt s) = st_Uncordon s"
  "st_Pod (generate_stage n tls env ef dt s) = map_option (generate_pod n tls env ef) (st_Pod s)"
  by (simp_all add: generate_stage_def Let_def)

lemma generateMaintenanceJob_simps [simp]:
  "mj_Name (generateMaintenanceJob n mid mt env ef sp ns dt) = mt_Name mt @ ''.'' @ n"
  "om_Namespace (mj_Meta (generateMaintenanceJob n mid mt env ef sp ns dt)) = ns"
  "om_OwnerReferences (mj_Meta (generateMaintenanceJob n mid mt env ef sp ns dt)) =
     [NewControllerRef (mt_Meta mt) SchemeGroupVersion ''Maintenance'']"
  "js_NodeName (mj_Spec (generateMaintenanceJob n mid mt env ef sp ns dt)) = n"
  "js_MachineID (mj_Spec (generateMaintenanceJob n mid mt env ef sp ns dt)) = mid"
  "spec_stages (generateMaintenanceJob n mid mt env ef sp ns dt) =
     map (generate_stage n (sp_Tolerations sp) env ef dt) (sp_Stages sp)"
  "status_stages (generateMaintenanceJob n mid mt env ef sp ns dt) = []"
  by (simp_all add: generateMaintenanceJob_def)

lemma generate_pod_containers [simp]:
  "ps_Containers (generate_pod n tls env ef pod) = map (merge_container env ef) (ps_Containers pod)"
  "ps_InitContainers (generate_pod n tls env ef pod) = map (merge_container env ef) (ps_InitContainers pod)"
  "ps_RestartPolicy (generate_pod n tls env ef pod) = RestartPolicyNever"
  by (simp_all add: generate_pod_def Let_def)

lemma generate_pod_node:
  "overrides_node pod \<Longrightarrow> ps_NodeName (generate_pod n tls env ef pod) = ps_NodeName pod \<and>
     ps_Tolerations (generate_pod n tls env ef pod) = ps_Tolerations pod"
  "\<not> overrides_node pod \<Longrightarrow> ps_NodeName (generate_pod n tls env ef pod) = n \<and>
     ps_Tolerations (generate_pod n tls env ef pod) = tls"
  by (simp_all add: generate_pod_def Let_def)

lemma merged_container_effective:
  "distinct (map ev_Name (ct_Env c)) \<Longrightarrow>
   effective (ct_Env (merge_container env ef c)) n =
     (case effective env n of Some e \<Rightarrow> Some e | None \<Rightarrow> effective (ct_Env c) n)"
  by (simp add: merge_container_def effective_mergeEnv)

section \<open>Properties\<close>

text \<open>The maintenance job generated for a node is named after the maintenance and the node,
  carries exactly one owner reference, the controller reference to the maintenance, and has
  the stages of the snapshot in order, with name, delay, drain and uncordon unchanged and the
  default timeout where none was given. Its status is empty.\<close>

lemma generated_job_shape:
  "let j = generateMaintenanceJob n mid mt env ef sp ns dt
   in mj_Name j = mt_Name mt @ ''.'' @ n \<and> om_Namespace (mj_Meta j) = ns \<and>
      GetControllerOf (mj_Meta j) = Some (NewControllerRef (mt_Meta mt) SchemeGroupVersion ''Maintenance'') \<and>
      length (om_OwnerReferences (mj_Meta j)) = 1 \<and>
      js_NodeName (mj_Spec j) = n \<and> js_MachineID (mj_Spec j) = mid \<and>
      map st_Name (spec_stages j) = map st_Name (sp_Stages sp) \<and>
      map st_Delay (spec_stages j) = map st_Delay (sp_Stages sp) \<and>
      map st_Drain (spec_stages j) = map st_Drain (sp_Stages sp) \<and>
      map st_Uncordon (spec_stages j) = map st_Uncordon (sp_Stages sp) \<and>
      map st_Timeout (spec_stages j) =
        map (\<lambda>s. if st_Timeout s = 0 then dt else st_Timeout s) (sp_Stages sp) \<and>
      status_stages j = []"
  by (simp add: Let_def o_def cong: map_cong)

text \<open>A generated pod is never restarted, runs on the node of its job with the tolerations of
  the maintenance unless its template selects a node itself, and in every container whose
  variables have distinct names the node specific variables override the container's own.\<close>

lemma generated_pod_runs_on_node:
  assumes "\<forall>c \<in> set (ps_InitContainers pod) \<union> set (ps_Containers pod). distinct (map ev_Name (ct_Env c))"
  shows "let pod' = generate_pod n tls env ef pod;
             over = (\<lambda>c m. case effective env m of Some e \<Rightarrow> Some e | None \<Rightarrow> effective (ct_Env c) m)
    in ps_RestartPolicy pod' = ''Never'' \<and>
       (ps_NodeName pod', ps_Tolerations pod') =
         (if overrides_node pod then (ps_NodeName pod, ps_Tolerations pod) else (n, tls)) \<and>
       map (\<lambda>c. effective (ct_Env c)) (ps_InitContainers pod') = map over (ps_InitContainers pod) \<and>
       map (\<lambda>c. effective (ct_Env c)) (ps_Containers pod') = map over (ps_Containers pod)"
  using assms generate_pod_node [of pod n tls env ef]
  by (auto simp: Let_def RestartPolicyNever_def merged_container_effective fun_eq_iff)

definition sample_pod :: PodTemplateSpec where
  "sample_pod = \<lparr>ps_Meta = zero_ObjectMeta, ps_Affinity = None, ps_NodeName = '''',
     ps_NodeSelector = None, ps_Tolerations = [], ps_RestartPolicy = '''',
     ps_InitContainers = [],
     ps_Containers = [\<lparr>ct_Name = ''c'', ct_Env = [sample_env ''A'' ''1''], ct_EnvFrom = [],
                       ct_rest = ''''\<rparr>],
     ps_rest = ''''\<rparr>"

lemma generated_pod_runs_on_node_witness:
  "ps_NodeName (generate_pod ''n1'' [] [sample_env ''A'' ''2''] [] sample_pod) = ''n1'' \<and>
   map (\<lambda>c. effective (ct_Env c) ''A'')
     (ps_Containers (generate_pod ''n1'' [] [sample_env ''A'' ''2''] [] sample_pod))
   = [Some (sample_env ''A'' ''2'')]"
proof -
  have d: "\<forall>c \<in> set (ps_InitContainers sample_pod) \<union> set (ps_Containers sample_pod).
      distinct (map ev_Name (ct_Env c))"
    by (simp add: sample_pod_def)
  have "\<not> overrides_node sample_pod"
    by (simp add: overrides_node_def sample_pod_def)
  with generated_pod_runs_on_node [OF d, of "''n1''" "[]" "[sample_env ''A'' ''2'']" "[]"]
  show ?thesis
    by (simp add: Let_def sample_pod_def effective_single sample_env_def fun_eq_iff)
qed

end
