(* ===== verification/Samples.thy ===== *)
theory Samples
  imports World
begin

text \<open>Concrete surroundings in which the witnesses evaluate the model: an environment with fixed
  answers that accepts every call, and a world with empty caches and two started queues.\<close>

definition sample_config :: MaintenanceConfig where
  "sample_config = \<lparr>
     mc_Schedule = \<lparr>sc_DefaultDelay = 1000000000, sc_DefaultDuration = 3600000000000,
                    sc_PollInterval = 5000000000\<rparr>,
     mc_Jobs = \<lparr>jc_Namespace = ''ns'', jc_DefaultStageTimeout = 3600000000000,
                jc_PollInterval = 5000000000\<rparr>\<rparr>"

definition sample_env_rec :: env where
  "sample_env_rec = \<lparr>en_Config = sample_config,
     en_ThisPod = \<lparr>rr_Name = ''pod'', rr_Namespace = ''ns'', rr_UID = ''uid''\<rparr>,
     en_Now = (\<lambda>_. 100), en_MtUpdateStatus = (\<lambda>_ m. Inr m), en_MtDelete = (\<lambda>_ _. None),
     en_MjUpdateStatus = (\<lambda>_ j. Inr j), en_MjCreate = (\<lambda>_ _. None),
     en_JobCreate = (\<lambda>_ _. None), en_NodeGet = (\<lambda>_ _. Inr sample_node),
     en_NodeList = (\<lambda>_ _. Inr [sample_node]), en_NodePatch = (\<lambda>_ _ _. None),
     en_MarshalSpec = (\<lambda>_. Inr ''spec''), en_UnmarshalSpec = (\<lambda>_. Inr zero_Spec),
     en_MarshalNode = (\<lambda>n. Inr (om_Name (nd_Meta n))), en_MergePatch = (\<lambda>_ _. Inr ''patch''),
     en_Sha256SumHex = (\<lambda>s. ''h'' @ s), en_FieldPath = (\<lambda>_ _. Inl (ErrorString ''path'')),
     en_Sprintf = (\<lambda>_ s. s), en_LabelSelector = (\<lambda>_. ''sel''), en_RangeOrder = (\<lambda>_ ks. ks)\<rparr>"

definition sample_world :: world where
  "sample_world = \<lparr>wd_Mt = [], wd_Mj = [], wd_MtTQ = tq_Start NewTimeoutQueue,
     wd_MjTQ = tq_Start NewTimeoutQueue, wd_Hist = []\<rparr>"

end
