(* ===== verification/JobNames.thy ===== *)
theory JobNames
  imports JobGen Samples
begin

text \<open>
  Keys and names of maintenance jobs (\<open>maintenance.go\<close>, \<open>scheduleMaintenance\<close>): splitting a
  cache key, the candidate names of a new job, the search for a free one among the cached jobs,
  and the creation loop.
\<close>

section \<open>Keys\<close>

text \<open>\<open>strings.SplitN(key, "/", 2)\<close> with two parts, or none when there is no slash.\<close>

definition SplitKey :: "string \<Rightarrow> (string \<times> string) option" where
  "SplitKey s = (case dropWhile (\<lambda>c. c \<noteq> CHR ''/'') s of
     [] \<Rightarrow> None | _ # rest \<Rightarrow> Some (takeWhile (\<lambda>c. c \<noteq> CHR ''/'') s, rest))"

lemma SplitKey_mj_key: "SplitKey k = Some (ns, n) \<Longrightarrow> k = mj_key ns n"
proof -
  assume "SplitKey k = Some (ns, n)"
  then obtain c where c: "dropWhile (\<lambda>c. c \<noteq> CHR ''/'') k = c # n" "ns = takeWhile (\<lambda>c. c \<noteq> CHR ''/'') k"
    by (auto simp: SplitKey_def split: list.splits)
  then have "c = CHR ''/''" by (auto simp: dropWhile_eq_Cons_conv)
  with c show ?thesis
    using takeWhile_dropWhile_id [of "\<lambda>c. c \<noteq> CHR ''/''" k] by (simp add: mj_key_def)
qed

lemma SplitKey_key [simp]: "CHR ''/'' \<notin> set ns \<Longrightarrow> SplitKey (mj_key ns n) = Some (ns, n)"
  by (auto simp: SplitKey_def mj_key_def takeWhile_append dropWhile_append split: list.splits)

section \<open>Candidate names\<close>

text \<open>\<open>strconv.FormatUint(i, 16)\<close>.\<close>

definition hex_digit :: "int \<Rightarrow> char" where
  "hex_digit d = ''0123456789abcdef'' ! nat d"

function FormatUint16 :: "int \<Rightarrow> string" where
  "FormatUint16 i = (if i < 16 then [hex_digit i] else FormatUint16 (i div 16) @ [hex_digit (i mod 16)])"
  by auto
termination by (relation "measure nat") auto

declare FormatUint16.simps [simp del]

definition MaxUint64 :: int where
  "MaxUint64 = 18446744073709551615"

text \<open>
  The inner loop: \<open>i\<close> and \<open>name\<close> are its variables. \<open>None\<close> is \<open>continue creationLoop\<close> (the
  machine has a job already), \<open>Some name\<close> the value of \<open>name\<close> after the loop.
\<close>

function search_name :: "world \<Rightarrow> MaintenanceJob \<Rightarrow> int \<Rightarrow> string \<Rightarrow> string option" where
  "search_name w newMtJob i name =
     (if \<not> i < MaxUint64 then Some name
      else
        (let name = (if i \<noteq> 1 then mj_Name newMtJob @ ''-'' @ FormatUint16 i else name)
         in case getMaintenanceJobFromCache (om_Namespace (mj_Meta newMtJob)) name w of
              Inr oldMtJob \<Rightarrow>
                if js_MachineID (mj_Spec oldMtJob) = js_MachineID (mj_Spec newMtJob) then None
                else search_name w newMtJob (i + 1) name
            | Inl _ \<Rightarrow> Some name))"
  by auto
termination by (relation "measure (\<lambda>(w, j, i, n). nat (MaxUint64 - i))") auto

declare search_name.simps [simp del]

text \<open>The loop over \<open>newMtJobs\<close>; a failed creation is only logged.\<close>

fun create_jobs :: "env \<Rightarrow> MaintenanceJob list \<Rightarrow> world \<Rightarrow> world" where
  "create_jobs E [] w = w"
| "create_jobs E (newMtJob # js) w =
     (case search_name w newMtJob 1 (mj_Name newMtJob) of
        None \<Rightarrow> create_jobs E js w
      | Some name \<Rightarrow>
          (let newMtJob = newMtJob\<lparr>mj_Meta := (mj_Meta newMtJob)\<lparr>om_Name := name\<rparr>\<rparr>;
               (err, w1) = mj_Create E newMtJob w
           in create_jobs E js w1))"

section \<open>Lemmas\<close>

lemma hex_digit_inj:
  assumes "0 \<le> a" "a < 16" "0 \<le> b" "b < 16" "hex_digit a = hex_digit b"
  shows "a = b"
proof -
  have "nat a \<in> {..<16}" "nat b \<in> {..<16}" using assms by auto
  moreover have "distinct ''0123456789abcdef''" by simp
  ultimately have "nat a = nat b"
    using assms(5) nth_eq_iff_index_eq [of "''0123456789abcdef''" "nat a" "nat b"]
    by (simp add: hex_digit_def)
  then show ?thesis using assms by simp
qed

lemma FormatUint16_not_Nil [simp]: "FormatUint16 i \<noteq> []" "[] \<noteq> FormatUint16 i"
  by (subst FormatUint16.simps, simp)+

lemma FormatUint16_inj: "0 \<le> a \<Longrightarrow> 0 \<le> b \<Longrightarrow> FormatUint16 a = FormatUint16 b \<Longrightarrow> a = b"
proof (induction a arbitrary: b rule: FormatUint16.induct)
  case (1 a)
  show ?case
  proof (cases "a < 16"; cases "b < 16")
    assume "a < 16" "b < 16"
    then show ?thesis using 1(2-4) hex_digit_inj by (simp add: FormatUint16.simps)
  next
    assume "a < 16" "\<not> b < 16"
    then show ?thesis using 1(4) by (simp add: FormatUint16.simps [of a] FormatUint16.simps [of b])
  next
    assume "\<not> a < 16" "b < 16"
    then show ?thesis using 1(4) by (simp add: FormatUint16.simps [of a] FormatUint16.simps [of b])
  next
    assume c: "\<not> a < 16" "\<not> b < 16"
    then have e: "FormatUint16 (a div 16) = FormatUint16 (b div 16)" "hex_digit (a mod 16) = hex_digit (b mod 16)"
      using 1(4) by (simp_all add: FormatUint16.simps [of a] FormatUint16.simps [of b])
    have "a div 16 = b div 16" using 1(1) [OF c(1) _ _ e(1)] 1(2,3) by simp
    moreover have "a mod 16 = b mod 16" using hex_digit_inj [OF _ _ _ _ e(2)] by simp
    ultimately show ?thesis by (metis mult_div_mod_eq)
  qed
qed

text \<open>The \<open>i\<close>-th candidate name of a job and what the cache holds under it.\<close>

definition candidate :: "MaintenanceJob \<Rightarrow> int \<Rightarrow> string" where
  "candidate j i = (if i = 1 then mj_Name j else mj_Name j @ ''-'' @ FormatUint16 i)"

definition cached_as :: "world \<Rightarrow> MaintenanceJob \<Rightarrow> int \<Rightarrow> MaintenanceJob option" where
  "cached_as w j i = map_of (wd_Mj w) (mj_key (om_Namespace (mj_Meta j)) (candidate j i))"

abbreviation same_machine :: "MaintenanceJob \<Rightarrow> MaintenanceJob \<Rightarrow> bool" where
  "same_machine j old \<equiv> js_MachineID (mj_Spec old) = js_MachineID (mj_Spec j)"

definition other_machine :: "world \<Rightarrow> MaintenanceJob \<Rightarrow> int \<Rightarrow> bool" where
  "other_machine w j i \<longleftrightarrow>
     (case cached_as w j i of None \<Rightarrow> False | Some old \<Rightarrow> \<not> same_machine j old)"

lemma other_machine_iff:
  "other_machine w j i \<longleftrightarrow> (\<exists>old. cached_as w j i = Some old \<and> \<not> same_machine j old)"
  by (simp add: other_machine_def split: option.split)

lemma other_machine_cached: "other_machine w j i \<Longrightarrow> cached_as w j i \<noteq> None"
  by (auto simp: other_machine_iff)

lemma candidate_inj: "1 \<le> a \<Longrightarrow> 1 \<le> b \<Longrightarrow> candidate j a = candidate j b \<Longrightarrow> a = b"
  by (auto simp: candidate_def FormatUint16_inj split: if_splits)

lemma search_step:
  assumes "1 \<le> i" and "i = 1 \<Longrightarrow> name = mj_Name j" and "i < MaxUint64"
  shows "search_name w j i name =
    (case cached_as w j i of
       None \<Rightarrow> Some (candidate j i)
     | Some old \<Rightarrow> if same_machine j old then None else search_name w j (i + 1) (candidate j i))"
  using assms
  by (subst search_name.simps)
    (simp add: cached_as_def candidate_def getMaintenanceJobFromCache_def Let_def split: option.split)

lemma search_spec:
  "1 \<le> i \<Longrightarrow> (i = 1 \<Longrightarrow> name = mj_Name j) \<Longrightarrow> i \<le> MaxUint64 \<Longrightarrow>
   \<exists>k. i \<le> k \<and> k \<le> MaxUint64 \<and> (\<forall>i'. i \<le> i' \<and> i' < k \<longrightarrow> other_machine w j i') \<and>
     (k = MaxUint64 \<or> k < MaxUint64 \<and>
       (case search_name w j i name of
          None \<Rightarrow> (\<exists>old. cached_as w j k = Some old \<and> same_machine j old)
        | Some n \<Rightarrow> n = candidate j k \<and> cached_as w j k = None))"
proof (induction "nat (MaxUint64 - i)" arbitrary: i name)
  case 0
  then show ?case by (intro exI [of _ i]) auto
next
  case (Suc m)
  then have less: "i < MaxUint64" by simp
  note step = search_step [OF Suc.prems(1,2) less, of w]
  show ?case
  proof (cases "other_machine w j i")
    case True
    then have s: "search_name w j i name = search_name w j (i + 1) (candidate j i)"
      by (auto simp: step other_machine_iff)
    have "m = nat (MaxUint64 - (i + 1))" using Suc.hyps(2) by simp
    from Suc.hyps(1) [OF this, of "candidate j i"] less Suc.prems(1) obtain k where
      k: "i + 1 \<le> k" "k \<le> MaxUint64" "\<forall>i'. i + 1 \<le> i' \<and> i' < k \<longrightarrow> other_machine w j i'"
        "k = MaxUint64 \<or> k < MaxUint64 \<and>
         (case search_name w j i name of
            None \<Rightarrow> (\<exists>old. cached_as w j k = Some old \<and> same_machine j old)
          | Some n \<Rightarrow> n = candidate j k \<and> cached_as w j k = None)"
      unfolding s by force
    moreover have "\<forall>i'. i \<le> i' \<and> i' < k \<longrightarrow> other_machine w j i'"
    proof (intro allI impI)
      fix i' assume "i \<le> i' \<and> i' < k"
      then show "other_machine w j i'" using k(3) True by (cases "i' = i") auto
    qed
    moreover have "i \<le> k" using k(1) by simp
    ultimately show ?thesis by blast
  next
    case False
    then have "case search_name w j i name of
          None \<Rightarrow> (\<exists>old. cached_as w j i = Some old \<and> same_machine j old)
        | Some n \<Rightarrow> n = candidate j i \<and> cached_as w j i = None"
      by (cases "cached_as w j i") (simp_all add: other_machine_def step)
    moreover have "\<forall>i'. i \<le> i' \<and> i' < i \<longrightarrow> other_machine w j i'" by auto
    ultimately show ?thesis using less by (intro exI [of _ i] conjI) simp_all
  qed
qed

text \<open>The search cannot run out of candidates: that many jobs do not fit in the cache.\<close>

lemma other_machine_bound:
  assumes "1 \<le> k" and "\<forall>i. 1 \<le> i \<and> i < k \<longrightarrow> other_machine w j i"
  shows "k - 1 \<le> int (length (wd_Mj w))"
proof -
  let ?key = "\<lambda>i. mj_key (om_Namespace (mj_Meta j)) (candidate j i)"
  have "inj_on ?key {1..<k}" by (auto simp: inj_on_def mj_key_def intro: candidate_inj)
  then have "card {1..<k} = card (?key ` {1..<k})" by (simp add: card_image)
  moreover have "?key ` {1..<k} \<subseteq> fst ` set (wd_Mj w)"
    using assms(2) unfolding dom_map_of_conv_image_fst [symmetric]
    by (auto simp: other_machine_iff cached_as_def)
  then have "card (?key ` {1..<k}) \<le> card (fst ` set (wd_Mj w))"
    by (intro card_mono) simp_all
  moreover have "card (fst ` set (wd_Mj w)) \<le> length (wd_Mj w)"
    using card_image_le [of "set (wd_Mj w)" fst] card_length [of "wd_Mj w"] by simp
  ultimately show ?thesis by simp
qed

lemma search_result:
  assumes "int (length (wd_Mj w)) < MaxUint64 - 1"
  obtains k where "1 \<le> k" "k < MaxUint64" "\<forall>i. 1 \<le> i \<and> i < k \<longrightarrow> other_machine w j i"
    "case search_name w j 1 (mj_Name j) of
       None \<Rightarrow> (\<exists>old. cached_as w j k = Some old \<and> same_machine j old)
     | Some n \<Rightarrow> n = candidate j k \<and> cached_as w j k = None"
proof -
  from search_spec [of 1 "mj_Name j" j w] obtain k where k: "1 \<le> k"
    "\<forall>i. 1 \<le> i \<and> i < k \<longrightarrow> other_machine w j i"
    "k = MaxUint64 \<or> k < MaxUint64 \<and>
       (case search_name w j 1 (mj_Name j) of
          None \<Rightarrow> (\<exists>old. cached_as w j k = Some old \<and> same_machine j old)
        | Some n \<Rightarrow> n = candidate j k \<and> cached_as w j k = None)"
    by (auto simp: MaxUint64_def)
  from other_machine_bound [OF k(1,2)] assms have "k \<noteq> MaxUint64" by simp
  with k that show ?thesis by blast
qed

lemma search_finds:
  "1 \<le> i \<Longrightarrow> i \<le> k \<Longrightarrow> k < MaxUint64 \<Longrightarrow> (i = 1 \<Longrightarrow> name = mj_Name j) \<Longrightarrow>
   (\<forall>i'. i \<le> i' \<and> i' < k \<longrightarrow> cached_as w j i' \<noteq> None) \<Longrightarrow>
   cached_as w j k = Some old \<Longrightarrow> same_machine j old \<Longrightarrow> search_name w j i name = None"
proof (induction "nat (k - i)" arbitrary: i name)
  case 0
  then show ?case by (simp add: search_step)
next
  case (Suc m)
  then obtain c where "cached_as w j i = Some c" by auto
  moreover have "search_name w j (i + 1) (candidate j i) = None"
    using Suc.hyps(2) Suc.prems by (intro Suc.hyps(1)) auto
  ultimately show ?case using Suc.prems by (simp add: search_step)
qed

text \<open>C21: The name search of the creation loop, with fewer than 2^64 - 2 cached jobs: it stops at
  the first candidate that is not the name of a cached job for another machine. It skips the
  creation exactly when that cached job is for the same machine, and otherwise returns a name that
  is not in the cache; once a job for this machine is cached under that name, the search skips.\<close>

theorem search_name_first_free:
  assumes "int (length (wd_Mj w)) < MaxUint64 - 1"
  shows "\<exists>k. 1 \<le> k \<and> (\<forall>i. 1 \<le> i \<and> i < k \<longrightarrow> other_machine w j i) \<and>
    (case search_name w j 1 (mj_Name j) of
       None \<Rightarrow> (\<exists>old. cached_as w j k = Some old \<and> same_machine j old)
     | Some n \<Rightarrow> n = candidate j k \<and> cached_as w j k = None \<and>
         (\<forall>new. same_machine j new \<longrightarrow>
            search_name (put_mj (mj_key (om_Namespace (mj_Meta j)) n) new w) j 1 (mj_Name j) = None))"
proof -
  from search_result [OF assms, of j] obtain k where k: "1 \<le> k" "k < MaxUint64"
    "\<forall>i. 1 \<le> i \<and> i < k \<longrightarrow> other_machine w j i"
    "case search_name w j 1 (mj_Name j) of
       None \<Rightarrow> (\<exists>old. cached_as w j k = Some old \<and> same_machine j old)
     | Some n \<Rightarrow> n = candidate j k \<and> cached_as w j k = None" .
  have "search_name (put_mj (mj_key (om_Namespace (mj_Meta j)) (candidate j k)) new w) j 1 (mj_Name j) = None"
    if "same_machine j new" for new
    using k that by (intro search_finds [of 1 k _ _ _ new]) (auto simp: cached_as_def other_machine_iff)
  with k show ?thesis by (intro exI [of _ k]) (auto split: option.splits)
qed

definition sample_job :: MaintenanceJob where
  "sample_job = zero_MaintenanceJob\<lparr>
     mj_Meta := zero_ObjectMeta\<lparr>om_Name := ''mt.n'', om_Namespace := ''ns'', om_UID := ''j1''\<rparr>,
     mj_Spec := \<lparr>js_NodeName = ''n'', js_MachineID = ''m1'', js_Stages = []\<rparr>\<rparr>"

theorem search_name_first_free_witness:
  "search_name (put_mj ''ns/mt.n'' (sample_job\<lparr>mj_Spec := (mj_Spec sample_job)\<lparr>js_MachineID := ''m0''\<rparr>\<rparr>)
     sample_world) sample_job 1 ''mt.n'' = Some ''mt.n-2''"
proof -
  let ?w = "put_mj ''ns/mt.n'' (sample_job\<lparr>mj_Spec := (mj_Spec sample_job)\<lparr>js_MachineID := ''m0''\<rparr>\<rparr>) sample_world"
  have c: "cached_as ?w sample_job k \<noteq> None \<longleftrightarrow> k = 1" for k
    by (auto simp: cached_as_def candidate_def sample_job_def zero_ObjectMeta_def mj_key_def sample_world_def)
  have n: "mj_Name sample_job = ''mt.n''" by (simp add: sample_job_def)
  have o: "other_machine ?w sample_job 1" by code_simp
  have e: "candidate sample_job 2 = ''mt.n-2''" by code_simp
  have "int (length (wd_Mj ?w)) < MaxUint64 - 1" by code_simp
  from search_name_first_free [OF this, of sample_job] obtain k where k: "1 \<le> k"
      "\<forall>i. 1 \<le> i \<and> i < k \<longrightarrow> other_machine ?w sample_job i"
      "case search_name ?w sample_job 1 ''mt.n'' of
         None \<Rightarrow> (\<exists>old. cached_as ?w sample_job k = Some old \<and> same_machine sample_job old)
       | Some n \<Rightarrow> n = candidate sample_job k \<and> cached_as ?w sample_job k = None"
    unfolding n by (auto split: option.splits)
  have "k = 2"
  proof -
    have "k \<noteq> 1" using k(3) o c by (auto simp: other_machine_iff split: option.splits)
    moreover have "\<not> 2 < k"
    proof
      assume "2 < k"
      then have "other_machine ?w sample_job 2" using k(2) by simp
      then show False using c [of 2] by (simp add: other_machine_iff)
    qed
    ultimately show ?thesis using k(1) by simp
  qed
  then show ?thesis using k(3) c [of 2] e by (auto split: option.splits)
qed

end
