(* ===== verification/MaintenanceHandlers.thy ===== *)
theory MaintenanceHandlers
  imports Samples
begin

text \<open>
  The reconcile handlers of \<open>Maintenance\<close> objects and their enqueueing for scheduling
  (\<open>maintenance.go\<close>): \<open>onMaintenanceAdded\<close> admits, \<open>onMaintenanceUpdated\<close> validates and
  enqueues, \<open>onMaintenanceDeleting\<close> guards deletion, \<open>enqueueMaintenanceForScheduling\<close> also
  finishes expired objects. Log messages are not modelled.
\<close>

section \<open>Assignments to the status\<close>

definition set_window :: "gotime \<Rightarrow> gotime \<Rightarrow> Maintenance \<Rightarrow> Maintenance" where
  "set_window s u mt = mt\<lparr>mt_Status := (mt_Status mt)\<lparr>ms_Admitted :=
     (admitted_of mt)\<lparr>ad_ScheduleSince := Some s, ad_ScheduleUntil := Some u\<rparr>\<rparr>\<rparr>"

definition set_admitted :: "gotime \<Rightarrow> ResourceReference \<Rightarrow> Maintenance \<Rightarrow> Maintenance" where
  "set_admitted now ref mt = mt\<lparr>mt_Status := (mt_Status mt)\<lparr>ms_Admitted :=
     (admitted_of mt)\<lparr>ad_At := Some now, ad_By := ref\<rparr>\<rparr>\<rparr>"

definition set_finished :: "gotime \<Rightarrow> ResourceReference \<Rightarrow> Maintenance \<Rightarrow> Maintenance" where
  "set_finished now ref mt = mt\<lparr>mt_Status := (mt_Status mt)\<lparr>ms_Finished :=
     \<lparr>fi_At = Some now, fi_By = ref\<rparr>\<rparr>\<rparr>"

section \<open>\<open>onMaintenanceAdded\<close>\<close>

definition schedule_since :: "MaintenanceScheduleConfig \<Rightarrow> Maintenance \<Rightarrow> gotime" where
  "schedule_since cfg mt =
     (let sch = sp_Schedule (mt_Spec mt);
          since = (if sch_Since sch = None \<or> mtime_IsZero (sch_Since sch)
                   then om_CreationTimestamp (mt_Meta mt) else the (sch_Since sch));
          delay = (if sint (sch_Delay sch) < 1 then sc_DefaultDelay cfg else sch_Delay sch)
      in time_Add since delay)"

definition schedule_until :: "MaintenanceScheduleConfig \<Rightarrow> Maintenance \<Rightarrow> gotime" where
  "schedule_until cfg mt =
     (let sch = sp_Schedule (mt_Spec mt)
      in if sch_Until sch = None \<or> mtime_IsZero (sch_Until sch)
         then time_Add (schedule_since cfg mt)
                (if sint (sch_Duration sch) < 1 then sc_DefaultDuration cfg else sch_Duration sch)
         else the (sch_Until sch))"

definition onMaintenanceAdded :: "env \<Rightarrow> Maintenance \<Rightarrow> world \<Rightarrow> Result option \<times> world" where
  "onMaintenanceAdded E mt w =
     (if Admitted mt then (Some (result_next ActionUpdate), w)
      else if \<not> CanBeScheduledIn mt (jobNamespace E) then (None, w)
      else
        (let s = schedule_since (schedule_config E) mt;
             u = schedule_until (schedule_config E) mt;
             mt1 = set_window s u mt
         in if \<not> time_Before s u
            then (None, record_event EventTypeWarning ''InvalidSchedule'' (mt_Name mt1) w)
            else
              (let (now, w1) = time_now E w;
                   mt2 = set_admitted now (en_ThisPod E) mt1;
                   (mt3, err, w2) = mt_UpdateStatus E mt2 w1
               in case err of
                    Some e \<Rightarrow> if IsNotFound e then (None, w2) else (Some (result_err e), w2)
                  | None \<Rightarrow> (Some (result_next ActionUpdate),
                             record_event EventTypeNormal ''Admitted'' (mt_Name mt3) w2))))"

section \<open>\<open>enqueueMaintenanceForScheduling\<close>\<close>

text \<open>The code after the label \<open>doEnqueue\<close>. Reading the start time of an object that has none
  panics.\<close>

definition doEnqueue :: "env \<Rightarrow> Maintenance \<Rightarrow> gotime \<Rightarrow> duration \<Rightarrow> world
    \<Rightarrow> (go_error option) outcome \<times> world" where
  "doEnqueue E mt now delay w =
     (if tq_Find (mt_Name mt) (wd_MtTQ w) \<noteq> None then (Returns None, w)
      else if Started mt now
      then (let (err, w1) = mtTQ_offer_delay E (mt_Name mt) delay w in (Returns err, w1))
      else (case ad_ScheduleSince (admitted_of mt) of
              None \<Rightarrow> (Panics NilDereference, w)
            | Some s \<Rightarrow> (let (err, w1) = mtTQ_offer_time E (mt_Name mt) s w in (Returns err, w1))))"

text \<open>
  The object comes from the cache, so that setting its finished phase changes the cached
  object. The variable is then assigned the result of \<open>UpdateStatus\<close>, also when it failed.
\<close>

definition enqueueMaintenanceForScheduling :: "env \<Rightarrow> string \<Rightarrow> duration \<Rightarrow> world
    \<Rightarrow> (go_error option) outcome \<times> world" where
  "enqueueMaintenanceForScheduling E mtName delay w =
     (case getMaintenanceFromCache mtName w of
        Inl err \<Rightarrow> (Returns (Some err), w)
      | Inr mt \<Rightarrow>
          (let (now, w1) = time_now E w
           in if Canceled mt then (Returns None, w1)
              else if Finished mt then (Returns None, w1)
              else if Expired mt now
              then (let (t, w2) = time_now E w1;
                        mt1 = set_finished t (en_ThisPod E) mt;
                        w3 = put_mt mtName mt1 w2;
                        (mt2, err, w4) = mt_UpdateStatus E mt1 w3
                    in case err of
                         Some e \<Rightarrow> doEnqueue E mt2 now delay w4
                       | None \<Rightarrow> (Returns None,
                           record_event EventTypeNormal ''ScheduleFailed'' (mt_Name mt2) w4))
              else doEnqueue E mt now delay w1))"

section \<open>\<open>onMaintenanceUpdated\<close>\<close>

fun first_error :: "('a \<Rightarrow> go_error option) \<Rightarrow> 'a list \<Rightarrow> go_error option" where
  "first_error f [] = None"
| "first_error f (x # xs) = (case f x of Some e \<Rightarrow> Some e | None \<Rightarrow> first_error f xs)"

definition snapshot_ok :: "env \<Rightarrow> Maintenance \<Rightarrow> bool" where
  "snapshot_ok E mt \<longleftrightarrow>
     en_Sha256SumHex E (sc_SpecSnapshot (scheduled_of mt)) = sc_Sha256Hex (scheduled_of mt)"

definition onMaintenanceUpdated :: "env \<Rightarrow> Maintenance \<Rightarrow> world \<Rightarrow> (Result option) outcome \<times> world" where
  "onMaintenanceUpdated E newMt w =
     (let (now, w0) = time_now E w;
          event = (\<lambda>reason w'. record_event EventTypeNormal reason (mt_Name newMt) w')
      in if Finished newMt then (Returns None, w0)
         else if \<not> CanBeScheduledIn newMt (jobNamespace E) then (Returns None, w0)
         else if \<not> Admitted newMt
         then (Returns (Some (result_next ActionAdd)), event ''NotAdmitted'' w0)
         else if Expired newMt now then (Returns None, w0)
         else if Scheduled newMt \<and> \<not> snapshot_ok E newMt
         then (Returns None, event ''InvalidSnapshot'' w0)
         else if sp_NodeSelector (mt_Spec newMt) = [] then (Returns None, event ''InvalidSpec'' w0)
         else if sp_Stages (mt_Spec newMt) = [] then (Returns None, event ''InvalidSpec'' w0)
         else if first_error ValidateEnvVar (sp_Env (mt_Spec newMt)) \<noteq> None
         then (Returns None, event ''InvalidSpec'' w0)
         else if first_error ValidateEnvFrom (sp_EnvFrom (mt_Spec newMt)) \<noteq> None
         then (Returns None, event ''InvalidSpec'' w0)
         else
           (case enqueueMaintenanceForScheduling E (mt_Name newMt)
                   (sc_PollInterval (schedule_config E)) w0 of
              (Panics p, w1) \<Rightarrow> (Panics p, w1)
            | (Returns (Some err), w1) \<Rightarrow>
                (Returns (Some (result_err err)), event ''EnqueueFailed'' w1)
            | (Returns None, w1) \<Rightarrow> (Returns None, event ''Enqueued'' w1)))"

section \<open>\<open>onMaintenanceDeleting\<close> and \<open>onMaintenanceDeleted\<close>\<close>

definition onMaintenanceDeleting :: "env \<Rightarrow> Maintenance \<Rightarrow> world \<Rightarrow> Result option \<times> world" where
  "onMaintenanceDeleting E mt w =
     (if \<not> CanBeScheduledIn mt (jobNamespace E) then (None, w)
      else if Scheduled mt \<and> \<not> Finished mt
      then (None, record_event EventTypeWarning ''DeletionNotAllowed'' (mt_Name mt) w)
      else
        (let w1 = (if Admitted mt \<and> \<not> Scheduled mt
                   then w\<lparr>wd_MtTQ := snd (tq_Remove (mt_Name mt) (wd_MtTQ w))\<rparr> else w);
             (err, w2) = mt_Delete E (mt_Name mt) w1
         in case err of Some e \<Rightarrow> (Some (result_err e), w2) | None \<Rightarrow> (None, w2)))"

definition onMaintenanceDeleted :: "env \<Rightarrow> Maintenance \<Rightarrow> world \<Rightarrow> Result option \<times> world" where
  "onMaintenanceDeleted E mt w = (None, w)"

section \<open>Lemmas\<close>

lemma set_window_simps [simp]:
  "mt_Meta (set_window s u mt) = mt_Meta mt" "mt_Spec (set_window s u mt) = mt_Spec mt"
  "scheduled_of (set_window s u mt) = scheduled_of mt"
  "finished_of (set_window s u mt) = finished_of mt"
  "ad_At (admitted_of (set_window s u mt)) = ad_At (admitted_of mt)"
  "ad_By (admitted_of (set_window s u mt)) = ad_By (admitted_of mt)"
  "ad_ScheduleSince (admitted_of (set_window s u mt)) = Some s"
  "ad_ScheduleUntil (admitted_of (set_window s u mt)) = Some u"
  by (simp_all add: set_window_def)

lemma set_admitted_simps [simp]:
  "mt_Meta (set_admitted t r mt) = mt_Meta mt" "mt_Spec (set_admitted t r mt) = mt_Spec mt"
  "scheduled_of (set_admitted t r mt) = scheduled_of mt"
  "finished_of (set_admitted t r mt) = finished_of mt"
  "ad_At (admitted_of (set_admitted t r mt)) = Some t"
  "ad_By (admitted_of (set_admitted t r mt)) = r"
  "ad_ScheduleSince (admitted_of (set_admitted t r mt)) = ad_ScheduleSince (admitted_of mt)"
  "ad_ScheduleUntil (admitted_of (set_admitted t r mt)) = ad_ScheduleUntil (admitted_of mt)"
  by (simp_all add: set_admitted_def)

lemma set_finished_simps [simp]:
  "mt_Meta (set_finished t r mt) = mt_Meta mt" "mt_Spec (set_finished t r mt) = mt_Spec mt"
  "scheduled_of (set_finished t r mt) = scheduled_of mt"
  "admitted_of (set_finished t r mt) = admitted_of mt"
  "fi_At (finished_of (set_finished t r mt)) = Some t"
  by (simp_all add: set_finished_def)

lemma first_error_None_iff: "first_error f xs = None \<longleftrightarrow> (\<forall>x \<in> set xs. f x = None)"
  by (induction xs) (auto split: option.splits)

lemma tq_offer_time_queue:
  "mtTQ_offer_time E n t w = (let r = OfferWithTime n () t (en_Now E (wd_Hist w)) (wd_MtTQ w)
     in (fst r, (log_effect (Clock (en_Now E (wd_Hist w))) w)\<lparr>wd_MtTQ := snd r\<rparr>))"
  by (simp add: mtTQ_offer_time_def Let_def split_def)

lemma guarded_offer_absent:
  "tq_Find k q = None \<Longrightarrow> tq.guarded_offer k at now q = snd (OfferWithTime k () at now q)"
  by (simp add: tq.guarded_offer_def del: not_None_eq)

lemma queue_ok_offer:
  "tq.queue_ok q \<Longrightarrow> tq_Find k q = None \<Longrightarrow> tq.queue_ok (snd (OfferWithTime k () at now q))"
  by (metis tq.guarded_offer_ok guarded_offer_absent)

lemma queue_ok_offer_time:
  "tq.queue_ok (wd_MtTQ w) \<Longrightarrow> tq_Find n (wd_MtTQ w) = None \<Longrightarrow>
   tq.queue_ok (wd_MtTQ (snd (mtTQ_offer_time E n t w)))"
  by (simp add: tq_offer_time_queue Let_def queue_ok_offer)

lemma queue_ok_offer_delay:
  "tq.queue_ok (wd_MtTQ w) \<Longrightarrow> tq_Find n (wd_MtTQ w) = None \<Longrightarrow>
   tq.queue_ok (wd_MtTQ (snd (mtTQ_offer_delay E n d w)))"
  by (simp add: mtTQ_offer_delay_def OfferWithDelay_def Let_def split_def queue_ok_offer)

lemma queue_ok_doEnqueue:
  "tq.queue_ok (wd_MtTQ w) \<Longrightarrow> tq.queue_ok (wd_MtTQ (snd (doEnqueue E mt now d w)))"
  by (simp add: doEnqueue_def Let_def split_def queue_ok_offer_time queue_ok_offer_delay split: option.split)

lemma doEnqueue_frame [frame_simps, simp]:
  "wd_Mt (snd (doEnqueue E mt now d w)) = wd_Mt w"
  "wd_Mj (snd (doEnqueue E mt now d w)) = wd_Mj w"
  "wd_MjTQ (snd (doEnqueue E mt now d w)) = wd_MjTQ w"
  "writes (wd_Hist (snd (doEnqueue E mt now d w))) = writes (wd_Hist w)"
  by (simp_all add: doEnqueue_def Let_def split_def split: option.split)

lemma queue_ok_enqueue:
  "tq.queue_ok (wd_MtTQ w) \<Longrightarrow>
   tq.queue_ok (wd_MtTQ (snd (enqueueMaintenanceForScheduling E n d w)))"
  by (simp add: enqueueMaintenanceForScheduling_def Let_def split_def mt_UpdateStatus_def
      queue_ok_doEnqueue split: sum.split option.split)

lemma queue_ok_updated:
  "tq.queue_ok (wd_MtTQ w) \<Longrightarrow> tq.queue_ok (wd_MtTQ (snd (onMaintenanceUpdated E mt w)))"
  using queue_ok_enqueue [of "log_effect (Clock (en_Now E (wd_Hist w))) w" E "mt_Name mt"
      "sc_PollInterval (schedule_config E)"]
  by (auto simp: onMaintenanceUpdated_def Let_def split: outcome.splits option.splits prod.splits)

lemma queue_ok_deleting:
  "tq.queue_ok (wd_MtTQ w) \<Longrightarrow> tq.queue_ok (wd_MtTQ (snd (onMaintenanceDeleting E mt w)))"
  using tq.remove_ok [of "wd_MtTQ w"]
  by (auto simp: onMaintenanceDeleting_def Let_def mt_Delete_def split: option.splits)

section \<open>Admission\<close>

text \<open>What an admission may write: a new window that is not empty, the time and the admitting pod;
  everything else is the object's own.\<close>

definition admission_of :: "env \<Rightarrow> gotime \<Rightarrow> Maintenance \<Rightarrow> Maintenance \<Rightarrow> bool" where
  "admission_of E now mt m \<longleftrightarrow>
     mt_Meta m = mt_Meta mt \<and> mt_Spec m = mt_Spec mt \<and> scheduled_of m = scheduled_of mt \<and>
     finished_of m = finished_of mt \<and> ad_At (admitted_of m) = Some now \<and>
     ad_By (admitted_of m) = en_ThisPod E \<and>
     (\<exists>s u. ad_ScheduleSince (admitted_of m) = Some s \<and>
            ad_ScheduleUntil (admitted_of m) = Some u \<and> s < u)"

definition admissible :: "env \<Rightarrow> Maintenance \<Rightarrow> bool" where
  "admissible E mt \<longleftrightarrow> \<not> Admitted mt \<and> CanBeScheduledIn mt (jobNamespace E) \<and>
     schedule_since (schedule_config E) mt < schedule_until (schedule_config E) mt"

definition admitted_now :: "env \<Rightarrow> gotime \<Rightarrow> Maintenance \<Rightarrow> Maintenance" where
  "admitted_now E now mt = set_admitted now (en_ThisPod E)
     (set_window (schedule_since (schedule_config E) mt) (schedule_until (schedule_config E) mt) mt)"

lemma admission_of_admitted_now: "admissible E mt \<Longrightarrow> admission_of E now mt (admitted_now E now mt)"
  by (auto simp: admission_of_def admitted_now_def admissible_def)

lemma onMaintenanceAdded_writes:
  "writes (wd_Hist (snd (onMaintenanceAdded E mt w))) =
     (if admissible E mt
      then MtUpdateStatus (admitted_now E (en_Now E (wd_Hist w)) mt) # writes (wd_Hist w)
      else writes (wd_Hist w))"
  by (auto simp: onMaintenanceAdded_def admissible_def admitted_now_def Let_def mt_UpdateStatus_def
      time_Before_def split: sum.splits option.splits)

lemma onMaintenanceAdded_frame [frame_simps, simp]:
  "wd_Mt (snd (onMaintenanceAdded E mt w)) = wd_Mt w"
  "wd_Mj (snd (onMaintenanceAdded E mt w)) = wd_Mj w"
  "wd_MtTQ (snd (onMaintenanceAdded E mt w)) = wd_MtTQ w"
  "wd_MjTQ (snd (onMaintenanceAdded E mt w)) = wd_MjTQ w"
  by (auto simp: onMaintenanceAdded_def Let_def mt_UpdateStatus_def split: sum.splits option.splits)

text \<open>C19: Admission writes to the cluster only when the object is not admitted yet and meant for
  this namespace, and then makes a single status update, which sets a schedule window with
  \<open>since < until\<close>, the time and the pod, and leaves metadata, spec and the other phases alone.\<close>

theorem admission_writes_valid_window:
  assumes "writes (wd_Hist (snd (onMaintenanceAdded E mt w))) \<noteq> writes (wd_Hist w)"
  shows "\<not> Admitted mt \<and> CanBeScheduledIn mt (jobNamespace E) \<and>
    (\<exists>m. writes (wd_Hist (snd (onMaintenanceAdded E mt w))) = MtUpdateStatus m # writes (wd_Hist w) \<and>
         admission_of E (en_Now E (wd_Hist w)) mt m)"
proof -
  have a: "admissible E mt" using assms by (simp add: onMaintenanceAdded_writes split: if_splits)
  then have "\<not> Admitted mt \<and> CanBeScheduledIn mt (jobNamespace E)" by (simp add: admissible_def)
  moreover have "writes (wd_Hist (snd (onMaintenanceAdded E mt w))) =
      MtUpdateStatus (admitted_now E (en_Now E (wd_Hist w)) mt) # writes (wd_Hist w)"
    using a by (simp add: onMaintenanceAdded_writes)
  ultimately show ?thesis using admission_of_admitted_now [OF a] by blast
qed

definition sample_maintenance :: Maintenance where
  "sample_maintenance = zero_Maintenance\<lparr>
     mt_Meta := zero_ObjectMeta\<lparr>om_Name := ''mt'', om_UID := ''u1''\<rparr>,
     mt_Spec := zero_Spec\<lparr>sp_NodeSelector := [(''role'', ''db'')],
       sp_Stages := [\<lparr>st_Name = ''s'', st_Delay = 0, st_Timeout = 0, st_Drain = None,
                      st_Uncordon = None, st_Pod = None\<rparr>]\<rparr>\<rparr>"

lemmas sample_defs = sample_maintenance_def sample_world_def sample_env_rec_def sample_config_def
  zero_Maintenance_def zero_Status_def zero_Spec_def zero_Schedule_def zero_ObjectMeta_def
  zero_ref_def

theorem admission_writes_valid_window_witness:
  "\<exists>m. writes (wd_Hist (snd (onMaintenanceAdded sample_env_rec sample_maintenance sample_world))) =
         [MtUpdateStatus m] \<and> admission_of sample_env_rec 100 sample_maintenance m"
proof -
  have "admissible sample_env_rec sample_maintenance"
    by (simp add: admissible_def sample_defs phase_defs CanBeScheduledIn_def schedule_since_def
        schedule_until_def time_Add_def Let_def)
  then have "writes (wd_Hist (snd (onMaintenanceAdded sample_env_rec sample_maintenance sample_world))) \<noteq>
      writes (wd_Hist sample_world)"
    by (simp add: onMaintenanceAdded_writes)
  from admission_writes_valid_window [OF this] show ?thesis
    by (auto simp: sample_world_def sample_env_rec_def)
qed

text \<open>A duration the code takes as given: at least one nanosecond.\<close>

abbreviation positive :: "duration \<Rightarrow> bool" where
  "positive d \<equiv> 1 \<le> sint d"

lemma default_window_admissible:
  assumes "\<not> Admitted mt" and "CanBeScheduledIn mt (jobNamespace E)"
    and "\<not> time_set (sch_Until (sp_Schedule (mt_Spec mt)))"
    and "positive (sch_Duration (sp_Schedule (mt_Spec mt))) \<or> positive (sc_DefaultDuration (schedule_config E))"
  shows "admissible E mt"
  using assms
  by (auto simp: admissible_def schedule_until_def Let_def time_Add_def not_time_set_iff)

lemma admitted_now_Admitted: "now \<noteq> 0 \<Longrightarrow> Admitted (admitted_now E now mt)"
  by (simp add: Admitted_def admitted_now_def time_IsZero_def)

text \<open>A maintenance that sets no end and has a positive duration of its own or by default is
  always admitted when the API server accepts the update: the handler asks for \<open>ActionUpdate\<close>, and
  run again on the object it has written it asks for \<open>ActionUpdate\<close> without doing anything.\<close>

lemma default_window_admitted_once:
  assumes "\<not> Admitted mt" and "CanBeScheduledIn mt (jobNamespace E)"
    and "\<not> time_set (sch_Until (sp_Schedule (mt_Spec mt)))"
    and "positive (sch_Duration (sp_Schedule (mt_Spec mt))) \<or> positive (sc_DefaultDuration (schedule_config E))"
    and "\<And>m. en_MtUpdateStatus E (Clock (en_Now E (wd_Hist w)) # wd_Hist w) m = Inr m"
    and "en_Now E (wd_Hist w) \<noteq> 0"
  shows "fst (onMaintenanceAdded E mt w) = Some (result_next ActionUpdate) \<and>
    (\<exists>m. writes (wd_Hist (snd (onMaintenanceAdded E mt w))) = MtUpdateStatus m # writes (wd_Hist w) \<and>
         (\<forall>w'. onMaintenanceAdded E m w' = (Some (result_next ActionUpdate), w')))"
proof -
  let ?m = "admitted_now E (en_Now E (wd_Hist w)) mt"
  have a: "admissible E mt" by (rule default_window_admissible [OF assms(1-4)])
  have "fst (onMaintenanceAdded E mt w) = Some (result_next ActionUpdate)"
    using a assms(5) by (simp add: onMaintenanceAdded_def Let_def mt_UpdateStatus_def admissible_def
        time_Before_def)
  moreover have "onMaintenanceAdded E ?m w' = (Some (result_next ActionUpdate), w')" for w'
    by (simp add: onMaintenanceAdded_def admitted_now_Admitted assms(6))
  ultimately show ?thesis using a by (auto simp: onMaintenanceAdded_writes)
qed

lemma default_window_admitted_once_witness:
  "fst (onMaintenanceAdded sample_env_rec sample_maintenance sample_world) =
     Some (result_next ActionUpdate)"
  by (rule default_window_admitted_once [THEN conjunct1])
    (simp_all add: sample_defs phase_defs CanBeScheduledIn_def)

section \<open>Enqueueing\<close>

text \<open>What \<open>onMaintenanceUpdated\<close> requires of an object before it enqueues it.\<close>

definition valid_spec :: "MaintenanceSpec \<Rightarrow> bool" where
  "valid_spec s \<longleftrightarrow> sp_NodeSelector s \<noteq> [] \<and> sp_Stages s \<noteq> [] \<and>
     (\<forall>e \<in> set (sp_Env s). ValidateEnvVar e = None) \<and>
     (\<forall>e \<in> set (sp_EnvFrom s). ValidateEnvFrom e = None)"

definition schedulable :: "env \<Rightarrow> gotime \<Rightarrow> Maintenance \<Rightarrow> bool" where
  "schedulable E now mt \<longleftrightarrow> \<not> Finished mt \<and> CanBeScheduledIn mt (jobNamespace E) \<and> Admitted mt \<and>
     \<not> Expired mt now \<and> (Scheduled mt \<longrightarrow> snapshot_ok E mt) \<and> valid_spec (mt_Spec mt)"

abbreviation mt_pending :: "string \<Rightarrow> world \<Rightarrow> bool" where
  "mt_pending k w \<equiv> tq_Find k (wd_MtTQ w) \<noteq> None"

lemma onMaintenanceUpdated_schedulable:
  assumes "schedulable E (en_Now E (wd_Hist w)) mt"
  shows "onMaintenanceUpdated E mt w =
    (case enqueueMaintenanceForScheduling E (mt_Name mt) (sc_PollInterval (schedule_config E))
            (log_effect (Clock (en_Now E (wd_Hist w))) w) of
       (Panics p, w1) \<Rightarrow> (Panics p, w1)
     | (Returns (Some err), w1) \<Rightarrow> (Returns (Some (result_err err)),
         record_event EventTypeNormal ''EnqueueFailed'' (mt_Name mt) w1)
     | (Returns None, w1) \<Rightarrow> (Returns None,
         record_event EventTypeNormal ''Enqueued'' (mt_Name mt) w1))"
  using assms unfolding onMaintenanceUpdated_def schedulable_def valid_spec_def Let_def
  by (cases "Scheduled mt") (simp_all add: first_error_None_iff del: record_event_eq)

lemma onMaintenanceUpdated_rejected:
  assumes "\<not> schedulable E (en_Now E (wd_Hist w)) mt"
  shows "wd_MtTQ (snd (onMaintenanceUpdated E mt w)) = wd_MtTQ w"
    and "writes (wd_Hist (snd (onMaintenanceUpdated E mt w))) = writes (wd_Hist w)"
    and "wd_Mt (snd (onMaintenanceUpdated E mt w)) = wd_Mt w"
  using assms
  by (auto simp: onMaintenanceUpdated_def schedulable_def valid_spec_def Let_def
      first_error_None_iff)

lemma enqueue_not_cached:
  "map_of (wd_Mt w) n = None \<Longrightarrow> snd (enqueueMaintenanceForScheduling E n d w) = w"
  by (simp add: enqueueMaintenanceForScheduling_def getMaintenanceFromCache_def)

lemma enqueue_inactive:
  "map_of (wd_Mt w) n = Some c \<Longrightarrow> Canceled c \<or> Finished c \<Longrightarrow>
   wd_MtTQ (snd (enqueueMaintenanceForScheduling E n d w)) = wd_MtTQ w \<and>
   writes (wd_Hist (snd (enqueueMaintenanceForScheduling E n d w))) = writes (wd_Hist w)"
  by (auto simp: enqueueMaintenanceForScheduling_def getMaintenanceFromCache_def Let_def)

text \<open>C14: \<open>onMaintenanceUpdated\<close> makes a maintenance pending only if it passes every check (admitted,
  for this namespace, not finished, not expired, an intact snapshot if it was scheduled before, a
  node selector, stages and valid environment references) and the cached object is neither
  canceled nor finished.\<close>

theorem updated_enqueues_only_schedulable:
  assumes "wd_MtTQ (snd (onMaintenanceUpdated E mt w)) \<noteq> wd_MtTQ w"
  shows "schedulable E (en_Now E (wd_Hist w)) mt \<and>
    (\<exists>c. map_of (wd_Mt w) (mt_Name mt) = Some c \<and> \<not> Canceled c \<and> \<not> Finished c)"
proof (rule ccontr)
  assume neg: "\<not> ?thesis"
  let ?w0 = "log_effect (Clock (en_Now E (wd_Hist w))) w"
  let ?enq = "enqueueMaintenanceForScheduling E (mt_Name mt) (sc_PollInterval (schedule_config E)) ?w0"
  have s: "schedulable E (en_Now E (wd_Hist w)) mt"
    using assms onMaintenanceUpdated_rejected(1) by blast
  have "wd_MtTQ (snd ?enq) = wd_MtTQ w"
  proof (cases "map_of (wd_Mt w) (mt_Name mt)")
    case None
    then show ?thesis using enqueue_not_cached [of ?w0] by simp
  next
    case (Some c)
    then show ?thesis using neg s enqueue_inactive [of ?w0 "mt_Name mt" c] by auto
  qed
  moreover have "wd_MtTQ (snd (onMaintenanceUpdated E mt w)) = wd_MtTQ (snd ?enq)"
    by (auto simp: onMaintenanceUpdated_schedulable [OF s] split: prod.split outcome.split option.split)
  ultimately show False using assms by simp
qed

definition sample_admitted :: Maintenance where
  "sample_admitted = set_admitted 50 zero_ref (set_window 60 1000 sample_maintenance)"

definition sample_world_mt :: world where
  "sample_world_mt = sample_world\<lparr>wd_Mt := [(''mt'', sample_admitted)]\<rparr>"

theorem updated_enqueues_only_schedulable_witness:
  "schedulable sample_env_rec 100 sample_admitted \<and>
   mt_pending ''mt'' (snd (onMaintenanceUpdated sample_env_rec sample_admitted sample_world_mt))"
proof -
  have p: "mt_pending ''mt'' (snd (onMaintenanceUpdated sample_env_rec sample_admitted sample_world_mt))"
    by code_simp
  moreover have "\<not> mt_pending ''mt'' sample_world_mt" by code_simp
  ultimately have "wd_MtTQ (snd (onMaintenanceUpdated sample_env_rec sample_admitted sample_world_mt)) \<noteq>
      wd_MtTQ sample_world_mt"
    by metis
  from updated_enqueues_only_schedulable [OF this] p show ?thesis
    by (simp add: sample_env_rec_def)
qed

text \<open>A queue that accepts the key: running and not blacklisted.\<close>

definition accepts :: "'k \<Rightarrow> ('k, 'd) TimeoutQueue \<Rightarrow> bool" where
  "accepts k q \<longleftrightarrow> tq_started q \<and> \<not> tq_stopped q \<and> k \<notin> set (tq_blackList q)"

lemma accepts_offer: "accepts k q \<Longrightarrow> fst (OfferWithTime k v at now q) = None"
  by (simp add: offer_result accepts_def)

lemma doEnqueue_pending:
  assumes "tq.queue_ok (wd_MtTQ w)" and "accepts (mt_Name mt) (wd_MtTQ w)"
    and "ad_ScheduleSince (admitted_of mt) \<noteq> None"
  shows "fst (doEnqueue E mt now d w) = Returns None \<and>
    mt_pending (mt_Name mt) (snd (doEnqueue E mt now d w))"
proof -
  have "tq_inv (wd_MtTQ w)" using assms(1) by (simp add: tq.queue_ok_def)
  then have found: "tq_Find (mt_Name mt) (snd (OfferWithTime (mt_Name mt) () at t (wd_MtTQ w))) \<noteq> None" for at t
    by (rule tq.offer_found [OF _ accepts_offer [OF assms(2)]])
  show ?thesis
    using assms(3) found accepts_offer [OF assms(2), where v = "()"]
    by (auto simp: doEnqueue_def tq_offer_time_queue mtTQ_offer_delay_def OfferWithDelay_def Let_def
        split_def)
qed

lemma enqueue_active:
  assumes "map_of (wd_Mt w) n = Some c" and "\<not> Canceled c" and "\<not> Finished c"
    and "\<not> Expired c (en_Now E (wd_Hist w))"
  shows "enqueueMaintenanceForScheduling E n d w =
    doEnqueue E c (en_Now E (wd_Hist w)) d (log_effect (Clock (en_Now E (wd_Hist w))) w)"
  using assms by (simp add: enqueueMaintenanceForScheduling_def getMaintenanceFromCache_def Let_def)

text \<open>An object that passes every check of \<open>onMaintenanceUpdated\<close> becomes pending.\<close>

lemma updated_enqueues_schedulable:
  assumes "schedulable E (en_Now E (wd_Hist w)) mt"
    and "map_of (wd_Mt w) (mt_Name mt) = Some c" and "mt_Name c = mt_Name mt"
    and "\<not> Canceled c" and "\<not> Finished c" and "ad_ScheduleSince (admitted_of c) \<noteq> None"
    and "\<not> Expired c (en_Now E (Clock (en_Now E (wd_Hist w)) # wd_Hist w))"
    and "tq.queue_ok (wd_MtTQ w)" and "accepts (mt_Name mt) (wd_MtTQ w)"
  shows "fst (onMaintenanceUpdated E mt w) = Returns None \<and>
    count (mset (tq_keys (wd_MtTQ (snd (onMaintenanceUpdated E mt w))))) (mt_Name mt) = 1"
proof -
  let ?w0 = "log_effect (Clock (en_Now E (wd_Hist w))) w"
  let ?enq = "enqueueMaintenanceForScheduling E (mt_Name mt) (sc_PollInterval (schedule_config E)) ?w0"
  have enq: "fst ?enq = Returns None \<and> mt_pending (mt_Name mt) (snd ?enq)"
    using doEnqueue_pending [of _ c] assms(2-) by (simp add: enqueue_active del: not_None_eq)
  then have res: "onMaintenanceUpdated E mt w =
      (Returns None, record_event EventTypeNormal ''Enqueued'' (mt_Name mt) (snd ?enq))"
    by (cases ?enq) (simp add: onMaintenanceUpdated_schedulable [OF assms(1)])
  have ok: "tq.queue_ok (wd_MtTQ (snd ?enq))" using assms(8) by (simp add: queue_ok_enqueue)
  then have inv: "tq_inv (wd_MtTQ (snd ?enq))" and dist: "distinct (tq_keys (wd_MtTQ (snd ?enq)))"
    by (simp_all add: tq.queue_ok_def)
  from tq_Find_iff [OF inv] enq have "mt_Name mt \<in> set (tq_keys (wd_MtTQ (snd ?enq)))"
    by (simp del: not_None_eq)
  then have "count (mset (tq_keys (wd_MtTQ (snd ?enq)))) (mt_Name mt) = 1"
    using dist distinct_count_atmost_1 by metis
  then show ?thesis unfolding res by simp
qed

section \<open>Expired objects\<close>

text \<open>When a cached maintenance is found expired but not finished and the API server refuses the
  status update, the enqueueing goes on with the zero object the client returned and panics on its
  missing start time; the cached copy has been marked finished although the server was never
  updated.\<close>

lemma expired_update_failure_panics:
  assumes "map_of (wd_Mt w) n = Some c" and "\<not> Canceled c" and "\<not> Finished c"
    and "Expired c (en_Now E (wd_Hist w))"
    and "\<And>h m. en_MtUpdateStatus E h m = Inl err"
    and "\<not> mt_pending '''' w"
  shows "fst (enqueueMaintenanceForScheduling E n d w) = Panics NilDereference \<and>
    (\<exists>t. map_of (wd_Mt (snd (enqueueMaintenanceForScheduling E n d w))) n =
          Some (set_finished t (en_ThisPod E) c))"
  using assms
  by (simp add: enqueueMaintenanceForScheduling_def getMaintenanceFromCache_def Let_def
      mt_UpdateStatus_def doEnqueue_def, simp add: zero_Maintenance_def zero_Status_def, blast)

definition sample_expired :: Maintenance where
  "sample_expired = set_admitted 50 zero_ref (set_window 60 70 sample_maintenance)"

lemma expired_update_failure_panics_witness:
  "fst (enqueueMaintenanceForScheduling
          (sample_env_rec\<lparr>en_MtUpdateStatus := \<lambda>_ _. Inl (ErrorString ''timeout'')\<rparr>) ''mt'' 5
          (sample_world\<lparr>wd_Mt := [(''mt'', sample_expired)]\<rparr>)) = Panics NilDereference"
  by (rule expired_update_failure_panics
        [where c = sample_expired and err = "ErrorString ''timeout''", THEN conjunct1])
    (simp_all add: sample_expired_def sample_defs set_admitted_def set_window_def phase_defs
      time_Before_def NewTimeoutQueue_def tq_Start_def tq_Find_def)

text \<open>When the API server accepts the update, an expired object is finished with exactly one
  status update, is not enqueued, and is not updated again: a second call on the same cache makes
  no write.\<close>

lemma expired_finished_once:
  assumes "map_of (wd_Mt w) n = Some c" and "\<not> Canceled c" and "\<not> Finished c"
    and "Expired c (en_Now E (wd_Hist w))"
    and "\<And>h m. en_MtUpdateStatus E h m = Inr m" and "\<And>h. en_Now E h \<noteq> 0"
  shows "let (r, w1) = enqueueMaintenanceForScheduling E n d w in
    r = Returns None \<and> wd_MtTQ w1 = wd_MtTQ w \<and>
    (\<exists>m. writes (wd_Hist w1) = MtUpdateStatus m # writes (wd_Hist w) \<and> Finished m \<and>
         mt_Meta m = mt_Meta c \<and> mt_Spec m = mt_Spec c \<and> admitted_of m = admitted_of c) \<and>
    writes (wd_Hist (snd (enqueueMaintenanceForScheduling E n d w1))) = writes (wd_Hist w1)"
proof -
  let ?m = "set_finished (en_Now E (Clock (en_Now E (wd_Hist w)) # wd_Hist w)) (en_ThisPod E) c"
  obtain w1 where w1: "enqueueMaintenanceForScheduling E n d w = (Returns None, w1)"
      "wd_MtTQ w1 = wd_MtTQ w" "writes (wd_Hist w1) = MtUpdateStatus ?m # writes (wd_Hist w)"
      "map_of (wd_Mt w1) n = Some ?m"
    using assms(1-5)
    by (simp add: enqueueMaintenanceForScheduling_def getMaintenanceFromCache_def Let_def
        mt_UpdateStatus_def)
  have fin: "Finished ?m" by (simp add: Finished_def time_IsZero_def assms(6))
  show ?thesis
    unfolding w1(1) Let_def prod.case
    using w1(2-3) fin enqueue_inactive [OF w1(4), of E d] by (metis set_finished_simps)
qed

lemma expired_finished_once_witness:
  "fst (enqueueMaintenanceForScheduling sample_env_rec ''mt'' 5
     (sample_world\<lparr>wd_Mt := [(''mt'', sample_expired)]\<rparr>)) = Returns None"
  using expired_finished_once [of "sample_world\<lparr>wd_Mt := [(''mt'', sample_expired)]\<rparr>" "''mt''"
      sample_expired sample_env_rec 5]
  by (simp add: sample_expired_def sample_defs set_admitted_def set_window_def phase_defs
      time_Before_def split: prod.splits)

section \<open>Deletion\<close>

text \<open>A maintenance of this namespace that was scheduled and is not finished is never deleted;
  any other one is deleted with a single call. Deleting one that was admitted but not scheduled
  also takes exactly its entry out of the schedule queue; no other entry is touched.\<close>

lemma deletion_guard:
  assumes "tq.queue_ok (wd_MtTQ w)"
  shows "let deleted = CanBeScheduledIn mt (jobNamespace E) \<and> (Scheduled mt \<longrightarrow> Finished mt);
             w1 = snd (onMaintenanceDeleting E mt w)
    in writes (wd_Hist w1) = (if deleted then [MtDelete (mt_Name mt)] else []) @ writes (wd_Hist w) \<and>
       (\<forall>k. mt_pending k w1 \<longleftrightarrow>
          mt_pending k w \<and> \<not> (deleted \<and> Admitted mt \<and> \<not> Scheduled mt \<and> k = mt_Name mt))"
  using tq.remove_found [OF assms]
  by (auto simp: onMaintenanceDeleting_def Let_def mt_Delete_def split: option.splits)

lemma deletion_guard_witness:
  "writes (wd_Hist (snd (onMaintenanceDeleting sample_env_rec sample_admitted sample_world))) =
     [MtDelete ''mt'']"
proof -
  have "tq.queue_ok (wd_MtTQ sample_world)"
    by (simp add: tq.queue_ok_def sample_world_def NewTimeoutQueue_def tq_Start_def tq_inv_def
        index_ok_def)
  moreover have "CanBeScheduledIn sample_admitted (jobNamespace sample_env_rec)" "\<not> Scheduled sample_admitted"
    "mt_Name sample_admitted = ''mt''" "writes (wd_Hist sample_world) = []"
    by (simp_all add: sample_admitted_def sample_defs CanBeScheduledIn_def Scheduled_def)
  ultimately show ?thesis
    using deletion_guard [of sample_world sample_admitted sample_env_rec] by (simp add: Let_def)
qed

end
