(* ===== verification/Dependencies.thy ===== *)
theory Dependencies
  imports JobNames MaintenanceHandlers "HOL-Library.Sublist"
begin

text \<open>
  The dependency check of \<open>scheduleMaintenance\<close> (\<open>maintenance.go\<close>): a maintenance may depend on
  others, which have to be finished (or, in individual mode, finished node by node) in a given
  condition. The check returns early, or collects the nodes that are not available.
\<close>

section \<open>Definitions\<close>

text \<open>The five conditions on an owner reference of a job of the dependency.\<close>

definition is_dep_owner :: "MaintenanceDependency \<Rightarrow> Maintenance \<Rightarrow> OwnerReference \<Rightarrow> bool" where
  "is_dep_owner dep depMt ref \<longleftrightarrow> or_Name ref = dep_Name dep \<and> or_Kind ref = ''Maintenance'' \<and>
     or_UID ref = om_UID (mt_Meta depMt) \<and> or_BlockOwnerDeletion ref = Some True \<and>
     or_Controller ref = Some True"

text \<open>\<open>depMtJob.Finished() && p\<close>.\<close>

definition finished_and :: "MaintenanceJob \<Rightarrow> bool outcome \<Rightarrow> bool outcome" where
  "finished_and j p = (case JobFinished j of
     Panics e \<Rightarrow> Panics e | Returns False \<Rightarrow> Returns False | Returns True \<Rightarrow> p)"

text \<open>The cases of \<open>switch dep.Condition\<close>; \<open>None\<close> is the default case.\<close>

definition condition_met :: "string \<Rightarrow> MaintenanceJob \<Rightarrow> bool outcome option" where
  "condition_met c j =
     (if c = '''' \<or> c = MaintenanceConditionSucceeded then Some (finished_and j (JobSucceeded j))
      else if c = MaintenanceConditionFailed then Some (finished_and j (JobFailed j))
      else None)"

text \<open>The function returns (nil or an error), or goes on with the unavailable nodes so far.\<close>

datatype dep_result = DepsReturn "go_error option" | DepsMet "string list"

definition check_dep_job :: "world \<Rightarrow> MaintenanceDependency \<Rightarrow> Maintenance \<Rightarrow> string
    \<Rightarrow> string list \<Rightarrow> dep_result outcome" where
  "check_dep_job w dep depMt namespacedName unavailableNodes =
     (case SplitKey namespacedName of
        None \<Rightarrow> Returns (DepsMet unavailableNodes)
      | Some (namespace, depMtJobName) \<Rightarrow>
          if \<not> prefix (dep_Name dep @ ''.'') depMtJobName then Returns (DepsMet unavailableNodes)
          else
            (case getMaintenanceJobFromCache namespace depMtJobName w of
               Inl err \<Rightarrow> Returns (DepsReturn
                 (Some (Wrapf ''failed to check maintenance job in cache: '' err)))
             | Inr depMtJob \<Rightarrow>
                 if \<not> list_ex (is_dep_owner dep depMt) (om_OwnerReferences (mj_Meta depMtJob))
                 then Returns (DepsMet unavailableNodes)
                 else
                   (case (if \<not> dep_Individual dep then condition_met (dep_Condition dep) depMtJob
                          else Some (Returns True)) of
                      None \<Rightarrow> Returns (DepsReturn None)
                    | Some (Panics p) \<Rightarrow> Panics p
                    | Some (Returns False) \<Rightarrow> Returns (DepsReturn None)
                    | Some (Returns True) \<Rightarrow>
                        (case condition_met (dep_Condition dep) depMtJob of
                           None \<Rightarrow> Returns (DepsReturn None)
                         | Some (Panics p) \<Rightarrow> Panics p
                         | Some (Returns True) \<Rightarrow> Returns (DepsMet unavailableNodes)
                         | Some (Returns False) \<Rightarrow>
                             Returns (DepsMet (List.insert (js_NodeName (mj_Spec depMtJob))
                                         unavailableNodes))))))"

fun check_dep_jobs :: "world \<Rightarrow> MaintenanceDependency \<Rightarrow> Maintenance \<Rightarrow> string list
    \<Rightarrow> string list \<Rightarrow> dep_result outcome" where
  "check_dep_jobs w dep depMt [] unavailableNodes = Returns (DepsMet unavailableNodes)"
| "check_dep_jobs w dep depMt (key # keys) unavailableNodes =
     (case check_dep_job w dep depMt key unavailableNodes of
        Returns (DepsMet u) \<Rightarrow> check_dep_jobs w dep depMt keys u
      | r \<Rightarrow> r)"

text \<open>\<open>ListKeys\<close> ranges over the map of cached objects.\<close>

fun check_deps :: "env \<Rightarrow> world \<Rightarrow> MaintenanceDependency list \<Rightarrow> string list \<Rightarrow> dep_result outcome" where
  "check_deps E w [] unavailableNodes = Returns (DepsMet unavailableNodes)"
| "check_deps E w (dep # deps) unavailableNodes =
     (case getMaintenanceFromCache (dep_Name dep) w of
        Inl err \<Rightarrow> Returns (DepsReturn None)
      | Inr depMt \<Rightarrow>
          if \<not> dep_Individual dep \<and> \<not> Finished depMt then Returns (DepsReturn None)
          else
            (case check_dep_jobs w dep depMt (en_RangeOrder E (wd_Hist w) (map fst (wd_Mj w)))
                    unavailableNodes of
               Returns (DepsMet u) \<Rightarrow> check_deps E w deps u
             | r \<Rightarrow> r))"

section \<open>What the check promises\<close>

text \<open>The cached job \<open>j\<close> belongs to the dependency: by its name, and by an owner reference to this very
  object (not only one of its name) that controls it and blocks its deletion.\<close>

definition belongs_to :: "MaintenanceDependency \<Rightarrow> Maintenance \<Rightarrow> string \<Rightarrow> MaintenanceJob \<Rightarrow> bool" where
  "belongs_to dep depMt key j \<longleftrightarrow>
     (\<exists>ns n. SplitKey key = Some (ns, n) \<and> prefix (dep_Name dep @ ''.'') n) \<and>
     (\<exists>ref \<in> set (om_OwnerReferences (mj_Meta j)).
        or_Kind ref = ''Maintenance'' \<and> or_Name ref = dep_Name dep \<and> or_UID ref = om_UID (mt_Meta depMt) \<and>
        or_Controller ref = Some True \<and> or_BlockOwnerDeletion ref = Some True)"

text \<open>A job is acceptable when its condition can be evaluated and, outside individual mode, holds.\<close>

definition job_acceptable :: "MaintenanceDependency \<Rightarrow> MaintenanceJob \<Rightarrow> bool" where
  "job_acceptable dep j \<longleftrightarrow>
     (\<exists>b. condition_met (dep_Condition dep) j = Some (Returns b) \<and> (dep_Individual dep \<or> b))"

definition dep_satisfied :: "world \<Rightarrow> MaintenanceDependency \<Rightarrow> bool" where
  "dep_satisfied w dep \<longleftrightarrow> (\<exists>depMt. map_of (wd_Mt w) (dep_Name dep) = Some depMt \<and>
     (dep_Individual dep \<or> Finished depMt) \<and>
     (\<forall>key j. map_of (wd_Mj w) key = Some j \<and> belongs_to dep depMt key j \<longrightarrow> job_acceptable dep j))"

definition blocked_nodes :: "world \<Rightarrow> MaintenanceDependency \<Rightarrow> string set" where
  "blocked_nodes w dep = {js_NodeName (mj_Spec j) | j depMt key.
     map_of (wd_Mt w) (dep_Name dep) = Some depMt \<and> map_of (wd_Mj w) key = Some j \<and>
     belongs_to dep depMt key j \<and> condition_met (dep_Condition dep) j = Some (Returns False)}"

section \<open>Lemmas\<close>

lemma belongs_to_owner: "belongs_to dep depMt key j \<longleftrightarrow>
    (\<exists>ns n. SplitKey key = Some (ns, n) \<and> prefix (dep_Name dep @ ''.'') n) \<and>
    list_ex (is_dep_owner dep depMt) (om_OwnerReferences (mj_Meta j))"
  by (auto simp: belongs_to_def is_dep_owner_def list_ex_iff)

text \<open>One key of the cache.\<close>

lemma check_dep_job_cases:
  assumes "map_of (wd_Mj w) key = Some j"
  shows "check_dep_job w dep depMt key u =
    (if \<not> belongs_to dep depMt key j then Returns (DepsMet u)
     else case condition_met (dep_Condition dep) j of
       None \<Rightarrow> Returns (DepsReturn None)
     | Some (Panics p) \<Rightarrow> Panics p
     | Some (Returns True) \<Rightarrow> Returns (DepsMet u)
     | Some (Returns False) \<Rightarrow>
         if dep_Individual dep then Returns (DepsMet (List.insert (js_NodeName (mj_Spec j)) u))
         else Returns (DepsReturn None))"
proof (cases "SplitKey key")
  case None
  then show ?thesis by (simp add: check_dep_job_def belongs_to_owner)
next
  case (Some p)
  obtain ns n where p: "p = (ns, n)" by (cases p)
  with Some have "mj_key ns n = key" using SplitKey_mj_key by metis
  then have "getMaintenanceJobFromCache ns n w = Inr j"
    using assms by (simp add: getMaintenanceJobFromCache_def)
  then show ?thesis using Some p
    by (simp add: check_dep_job_def belongs_to_owner split: option.split outcome.split bool.split)
qed

lemma check_dep_job_met:
  assumes "map_of (wd_Mj w) key = Some j"
  shows "(\<exists>u'. check_dep_job w dep depMt key u = Returns (DepsMet u')) \<longleftrightarrow>
      (belongs_to dep depMt key j \<longrightarrow> job_acceptable dep j)"
    and "check_dep_job w dep depMt key u = Returns (DepsMet u') \<Longrightarrow>
      set u' = set u \<union> {js_NodeName (mj_Spec j') | j'. j' = j \<and> belongs_to dep depMt key j \<and>
        condition_met (dep_Condition dep) j = Some (Returns False)}"
  unfolding check_dep_job_cases [OF assms] job_acceptable_def
  by (auto split: if_splits option.splits outcome.splits bool.splits)

lemma check_dep_jobs_met:
  assumes "set keys \<subseteq> dom (map_of (wd_Mj w))"
  shows "(\<exists>u'. check_dep_jobs w dep depMt keys u = Returns (DepsMet u')) \<longleftrightarrow>
      (\<forall>key \<in> set keys. \<forall>j. map_of (wd_Mj w) key = Some j \<and> belongs_to dep depMt key j \<longrightarrow>
         job_acceptable dep j)"
  using assms
proof (induction keys arbitrary: u)
  case (Cons key keys)
  then obtain j where j: "map_of (wd_Mj w) key = Some j" by auto
  show ?case
    using Cons check_dep_job_met(1) [OF j, of dep depMt u] j
    by (auto split: outcome.splits dep_result.splits)
qed simp

lemma check_dep_jobs_nodes:
  assumes "set keys \<subseteq> dom (map_of (wd_Mj w))"
    and "check_dep_jobs w dep depMt keys u = Returns (DepsMet u')"
  shows "set u' = set u \<union> {js_NodeName (mj_Spec j) | j key. key \<in> set keys \<and>
    map_of (wd_Mj w) key = Some j \<and> belongs_to dep depMt key j \<and>
    condition_met (dep_Condition dep) j = Some (Returns False)}"
  using assms
proof (induction keys arbitrary: u)
  case (Cons key keys)
  then obtain j where j: "map_of (wd_Mj w) key = Some j" by auto
  from Cons.prems(2) obtain u1 where u1: "check_dep_job w dep depMt key u = Returns (DepsMet u1)"
      "check_dep_jobs w dep depMt keys u1 = Returns (DepsMet u')"
    by (auto split: outcome.splits dep_result.splits)
  show ?case
    using check_dep_job_met(2) [OF j u1(1)] Cons.IH [OF _ u1(2)] Cons.prems(1) j by auto
qed simp

text \<open>\<open>ListKeys\<close> returns the keys of the cache, in any order.\<close>

definition ranges_keys :: "env \<Rightarrow> world \<Rightarrow> bool" where
  "ranges_keys E w \<longleftrightarrow>
     set (en_RangeOrder E (wd_Hist w) (map fst (wd_Mj w))) = dom (map_of (wd_Mj w))"

lemma check_deps_met:
  assumes "ranges_keys E w"
  shows "(\<exists>u'. check_deps E w deps u = Returns (DepsMet u')) \<longleftrightarrow> (\<forall>dep \<in> set deps. dep_satisfied w dep)"
proof (induction deps arbitrary: u)
  case (Cons dep deps)
  let ?keys = "en_RangeOrder E (wd_Hist w) (map fst (wd_Mj w))"
  have keys: "set ?keys = dom (map_of (wd_Mj w))" using assms by (simp add: ranges_keys_def)
  show ?case
  proof (cases "map_of (wd_Mt w) (dep_Name dep)")
    case None
    then show ?thesis by (simp add: getMaintenanceFromCache_def dep_satisfied_def)
  next
    case (Some depMt)
    have "(\<exists>u'. check_dep_jobs w dep depMt ?keys u = Returns (DepsMet u')) \<longleftrightarrow>
        (\<forall>key j. map_of (wd_Mj w) key = Some j \<and> belongs_to dep depMt key j \<longrightarrow> job_acceptable dep j)"
      using check_dep_jobs_met [of ?keys w dep depMt u] keys by (auto simp: dom_def)
    then have "dep_satisfied w dep \<longleftrightarrow> (dep_Individual dep \<or> Finished depMt) \<and>
        (\<exists>u'. check_dep_jobs w dep depMt ?keys u = Returns (DepsMet u'))"
      using Some by (simp add: dep_satisfied_def)
    then show ?thesis using Some Cons.IH
      by (auto simp: getMaintenanceFromCache_def split: outcome.splits dep_result.splits)
  qed
qed simp

lemma check_deps_nodes:
  assumes "ranges_keys E w" and "check_deps E w deps u = Returns (DepsMet u')"
  shows "set u' = set u \<union> (\<Union>dep \<in> set deps. blocked_nodes w dep)"
  using assms(2)
proof (induction deps arbitrary: u)
  case (Cons dep deps)
  let ?keys = "en_RangeOrder E (wd_Hist w) (map fst (wd_Mj w))"
  have keys: "set ?keys = dom (map_of (wd_Mj w))" using assms(1) by (simp add: ranges_keys_def)
  from Cons.prems obtain depMt u1 where mt: "map_of (wd_Mt w) (dep_Name dep) = Some depMt"
      and u1: "check_dep_jobs w dep depMt ?keys u = Returns (DepsMet u1)"
      and rest: "check_deps E w deps u1 = Returns (DepsMet u')"
    by (auto simp: getMaintenanceFromCache_def split: option.splits if_splits outcome.splits
        dep_result.splits)
  have "set u1 = set u \<union> blocked_nodes w dep"
    using check_dep_jobs_nodes [OF _ u1] keys mt by (auto simp: blocked_nodes_def dom_def)
  then show ?case using Cons.IH [OF rest] by auto
qed simp

text \<open>C10: The dependency check goes on exactly when every dependency is satisfied: it is cached
  and, outside individual mode, finished, and each cached job that belongs to it (by key prefix and
  controlling owner reference) can be evaluated and, outside individual mode, ended in the wanted
  condition. The nodes it then reports unavailable are exactly those with a job of a dependency
  that has not ended in the wanted condition. Neither depends on the order of the cache keys.\<close>

theorem dependency_check_exact:
  assumes "ranges_keys E w"
  shows "((\<exists>u. check_deps E w deps [] = Returns (DepsMet u)) \<longleftrightarrow> (\<forall>dep \<in> set deps. dep_satisfied w dep)) \<and>
    (\<forall>u. check_deps E w deps [] = Returns (DepsMet u) \<longrightarrow>
       set u = (\<Union>dep \<in> set deps. blocked_nodes w dep))"
  using check_deps_met [OF assms, of deps "[]"] check_deps_nodes [OF assms, of deps "[]"] by simp

definition sample_dep :: MaintenanceDependency where
  "sample_dep = \<lparr>dep_Name = ''mt'', dep_Individual = True, dep_Condition = ''''\<rparr>"

text \<open>A cached maintenance with one running job on node \<open>n\<close>.\<close>

definition sample_dep_job :: MaintenanceJob where
  "sample_dep_job = sample_job\<lparr>
     mj_Meta := (mj_Meta sample_job)\<lparr>om_OwnerReferences :=
       [NewControllerRef (mt_Meta sample_admitted) SchemeGroupVersion ''Maintenance'']\<rparr>,
     mj_Spec := (mj_Spec sample_job)\<lparr>js_Stages := sp_Stages (mt_Spec sample_admitted)\<rparr>\<rparr>"

definition sample_world_dep :: world where
  "sample_world_dep = sample_world_mt\<lparr>wd_Mj := [(''ns/mt.n'', sample_dep_job)]\<rparr>"

theorem dependency_check_exact_witness:
  "check_deps sample_env_rec sample_world_dep [sample_dep] [] = Returns (DepsMet [''n'']) \<and>
   blocked_nodes sample_world_dep sample_dep = {''n''}"
proof -
  have r: "ranges_keys sample_env_rec sample_world_dep"
    by (simp add: ranges_keys_def sample_env_rec_def sample_world_dep_def dom_def)
  have c: "check_deps sample_env_rec sample_world_dep [sample_dep] [] = Returns (DepsMet [''n''])"
    by code_simp
  from dependency_check_exact [OF r, of "[sample_dep]"] c show ?thesis by simp
qed

end
