(* ===== verification/MaintenanceSchedule.thy ===== *)
theory MaintenanceSchedule
  imports Dependencies
begin

text \<open>
  \<open>scheduleMaintenance\<close> (\<open>maintenance.go\<close>): run for a maintenance whose entry in the schedule
  queue expired. It takes the snapshot of the spec at the first run, checks the snapshot and the
  dependencies, and creates a maintenance job for each node selected.
\<close>

section \<open>The snapshot of the spec\<close>

definition set_scheduled :: "gotime \<Rightarrow> ResourceReference \<Rightarrow> string \<Rightarrow> string \<Rightarrow> Maintenance \<Rightarrow> Maintenance" where
  "set_scheduled now ref json hash mt = mt\<lparr>mt_Status := (mt_Status mt)\<lparr>ms_Scheduled :=
     \<lparr>sc_At = Some now, sc_By = ref, sc_SpecSnapshot = json, sc_Sha256Hex = hash\<rparr>\<rparr>\<rparr>"

text \<open>The verb \<open>q\<close> of \<open>fmt\<close> on a resource name, which has no character to escape.\<close>

definition quoted :: "string \<Rightarrow> string" where
  "quoted s = [CHR 0x22] @ s @ [CHR 0x22]"

text \<open>
  The block \<open>if !mt.Scheduled()\<close>. The fields are assigned in the cached object before the update.
  \<open>Inl r\<close>: the function returns \<open>r\<close>; \<open>Inr mt\<close>: it goes on with \<open>mt\<close>.
\<close>

definition mark_scheduled :: "env \<Rightarrow> string \<Rightarrow> Maintenance \<Rightarrow> world
    \<Rightarrow> (go_error option + Maintenance) \<times> world" where
  "mark_scheduled E mtName mt w =
     (if Scheduled mt then (Inr mt, w)
      else
        (case en_MarshalSpec E (mt_Spec mt) of
           Inl err2 \<Rightarrow> (Inl (Some (Wrapf (''failed to encode spec of maintenance ''
             @ quoted (mt_Name mt) @ '' to json: '') err2)), w)
         | Inr specJSON \<Rightarrow>
             (let (now, w1) = time_now E w;
                  mt1 = set_scheduled now (en_ThisPod E) specJSON (en_Sha256SumHex E specJSON) mt;
                  w2 = put_mt mtName mt1 w1;
                  (mt2, err2, w3) = mt_UpdateStatus E mt1 w2
              in case err2 of
                   Some e \<Rightarrow> if IsNotFound e then (Inl None, w3) else (Inl (Some e), w3)
                 | None \<Rightarrow> (Inr mt2, w3))))"

text \<open>The checks of the snapshot and its decoding.\<close>

definition snapshot_spec :: "env \<Rightarrow> Maintenance \<Rightarrow> world \<Rightarrow> (go_error + MaintenanceSpec) \<times> world" where
  "snapshot_spec E mt w =
     (if sc_SpecSnapshot (scheduled_of mt) = '''' \<or> sc_Sha256Hex (scheduled_of mt) = ''''
      then (Inl (ErrorString ''invalid object at scheduled stage''),
            record_event EventTypeNormal ''InvalidObject'' (mt_Name mt) w)
      else if en_Sha256SumHex E (sc_SpecSnapshot (scheduled_of mt)) \<noteq> sc_Sha256Hex (scheduled_of mt)
      then (Inl (ErrorString ''failed to validate spec snapshot''),
            record_event EventTypeNormal ''InvalidObject'' (mt_Name mt) w)
      else
        (case en_UnmarshalSpec E (sc_SpecSnapshot (scheduled_of mt)) of
           Inl err \<Rightarrow> (Inl (Wrapf ''failed to decode spec from json: '' err), w)
         | Inr spec \<Rightarrow> (Inr spec, w)))"

section \<open>Jobs for the selected nodes\<close>

text \<open>A loop that converts each element and returns at the first error.\<close>

fun collect :: "('a \<Rightarrow> (go_error + 'b) outcome) \<Rightarrow> 'a list \<Rightarrow> (go_error + 'b list) outcome" where
  "collect f [] = Returns (Inr [])"
| "collect f (x # xs) =
     (case f x of
        Panics p \<Rightarrow> Panics p
      | Returns (Inl err) \<Rightarrow> Returns (Inl err)
      | Returns (Inr y) \<Rightarrow>
          (case collect f xs of
             Panics p \<Rightarrow> Panics p
           | Returns (Inl err) \<Rightarrow> Returns (Inl err)
           | Returns (Inr ys) \<Rightarrow> Returns (Inr (y # ys))))"

text \<open>The \<open>continue\<close> conditions of the loop over the nodes.\<close>

definition skip_node :: "MaintenanceSpec \<Rightarrow> string list \<Rightarrow> Node \<Rightarrow> bool" where
  "skip_node spec unavailableNodes node =
     (let name = om_Name (nd_Meta node)
      in if sp_Nodes spec \<noteq> [] \<and> name \<notin> set (sp_Nodes spec) then True
         else if name \<in> set unavailableNodes then True
         else if FindMatchingUntoleratedTaint (nd_Taints node) (sp_Tolerations spec) \<noteq> None then True
         else nd_MachineID node = '''')"

definition node_job :: "env \<Rightarrow> Maintenance \<Rightarrow> MaintenanceSpec \<Rightarrow> Node \<Rightarrow> (go_error + MaintenanceJob) outcome" where
  "node_job E mt spec node =
     (case collect (CreatePodEnvVarFromNodeSpecificEnv (en_FieldPath E) (en_Sprintf E) node) (sp_Env spec) of
        Panics p \<Rightarrow> Panics p
      | Returns (Inl err) \<Rightarrow> Returns (Inl err)
      | Returns (Inr env) \<Rightarrow>
          (case collect (CreatePodEnvSourceFromNodeSpecificEnvFrom (en_FieldPath E) (en_Sprintf E) node)
                  (sp_EnvFrom spec) of
             Panics p \<Rightarrow> Panics p
           | Returns (Inl err) \<Rightarrow> Returns (Inl err)
           | Returns (Inr envFrom) \<Rightarrow>
               Returns (Inr (generateMaintenanceJob (om_Name (nd_Meta node)) (nd_MachineID node) mt
                 env envFrom spec (jobNamespace E) (jc_DefaultStageTimeout (jobs_config E))))))"

definition node_jobs :: "env \<Rightarrow> Maintenance \<Rightarrow> MaintenanceSpec \<Rightarrow> string list \<Rightarrow> Node list
    \<Rightarrow> (go_error + MaintenanceJob list) outcome" where
  "node_jobs E mt spec unavailableNodes nodes =
     collect (node_job E mt spec) (filter (\<lambda>n. \<not> skip_node spec unavailableNodes n) nodes)"

text \<open>From the decoded spec on.\<close>

definition schedule_jobs :: "env \<Rightarrow> Maintenance \<Rightarrow> MaintenanceSpec \<Rightarrow> world
    \<Rightarrow> (go_error option) outcome \<times> world" where
  "schedule_jobs E mt spec w =
     (case check_deps E w (sch_Depends (sp_Schedule spec)) [] of
        Panics p \<Rightarrow> (Panics p, w)
      | Returns (DepsReturn r) \<Rightarrow> (Returns r, w)
      | Returns (DepsMet unavailableNodes) \<Rightarrow>
          (let labelSelector = (if sp_NodeSelector spec \<noteq> []
                                then en_LabelSelector E (sp_NodeSelector spec) else '''')
           in case node_List E labelSelector w of
                (Inl err, w1) \<Rightarrow> (Returns (Some err), w1)
              | (Inr nodes, w1) \<Rightarrow>
                  (case node_jobs E mt spec unavailableNodes nodes of
                     Panics p \<Rightarrow> (Panics p, w1)
                   | Returns (Inl err) \<Rightarrow> (Returns (Some err), w1)
                   | Returns (Inr newMtJobs) \<Rightarrow> (Returns None, create_jobs E newMtJobs w1))))"

section \<open>\<open>scheduleMaintenance\<close>\<close>

definition scheduleMaintenance :: "env \<Rightarrow> string \<Rightarrow> world \<Rightarrow> (go_error option) outcome \<times> world" where
  "scheduleMaintenance E mtName w =
     (case getMaintenanceFromCache mtName w of
        Inl err \<Rightarrow> (Returns (Some err), w)
      | Inr mt \<Rightarrow>
          if Canceled mt then (Returns None, w)
          else
            (let (now, w1) = time_now E w
             in if Expired mt now
                then (Returns None, record_event EventTypeNormal ''Expired'' (mt_Name mt) w1)
                else if \<not> Started mt now then (Returns None, w1)
                else
                  (case mark_scheduled E mtName mt w1 of
                     (Inl r, w2) \<Rightarrow> (Returns r, w2)
                   | (Inr mt2, w2) \<Rightarrow>
                       (case snapshot_spec E mt2 w2 of
                          (Inl err, w3) \<Rightarrow> (Returns (Some err), w3)
                        | (Inr spec, w3) \<Rightarrow> schedule_jobs E mt2 spec w3))))"

section \<open>Lemmas\<close>

lemma set_scheduled_simps [simp]:
  "mt_Meta (set_scheduled t r js h mt) = mt_Meta mt" "mt_Spec (set_scheduled t r js h mt) = mt_Spec mt"
  "admitted_of (set_scheduled t r js h mt) = admitted_of mt"
  "finished_of (set_scheduled t r js h mt) = finished_of mt"
  "sc_At (scheduled_of (set_scheduled t r js h mt)) = Some t"
  "sc_SpecSnapshot (scheduled_of (set_scheduled t r js h mt)) = js"
  "sc_Sha256Hex (scheduled_of (set_scheduled t r js h mt)) = h"
  by (simp_all add: set_scheduled_def)

lemma collect_result:
  "collect f xs = Returns (Inr ys) \<longleftrightarrow> list_all2 (\<lambda>x y. f x = Returns (Inr y)) xs ys"
proof (induction xs arbitrary: ys)
  case (Cons x xs)
  have "collect f (x # xs) = Returns (Inr ys) \<longleftrightarrow>
      (\<exists>y zs. ys = y # zs \<and> f x = Returns (Inr y) \<and> collect f xs = Returns (Inr zs))"
    by (auto split: outcome.splits sum.splits)
  then show ?case by (simp add: Cons.IH list_all2_Cons1)
qed auto

lemma collect_returns: "(\<And>x. x \<in> set xs \<Longrightarrow> \<not> panics (f x)) \<Longrightarrow> \<not> panics (collect f xs)"
  by (induction xs) (fastforce simp: not_panics_iff split: outcome.splits sum.splits)+

text \<open>The search only looks at the cached jobs.\<close>

lemma search_name_cache:
  "wd_Mj w' = wd_Mj w \<Longrightarrow> search_name w' j i name = search_name w j i name"
proof (induction w j i name rule: search_name.induct)
  case (1 w j i name)
  then show ?case
    by (subst (1 2) search_name.simps)
      (auto simp: Let_def getMaintenanceJobFromCache_def split: option.split)
qed

definition renamed :: "string \<Rightarrow> MaintenanceJob \<Rightarrow> MaintenanceJob" where
  "renamed n j = j\<lparr>mj_Meta := (mj_Meta j)\<lparr>om_Name := n\<rparr>\<rparr>"

fun created_jobs :: "world \<Rightarrow> MaintenanceJob list \<Rightarrow> MaintenanceJob list" where
  "created_jobs w [] = []"
| "created_jobs w (j # js) =
     (case search_name w j 1 (mj_Name j) of None \<Rightarrow> [] | Some n \<Rightarrow> [renamed n j]) @ created_jobs w js"

lemma created_jobs_cache: "wd_Mj w' = wd_Mj w \<Longrightarrow> created_jobs w' js = created_jobs w js"
  by (induction js) (simp_all add: search_name_cache [of w' w])

lemma create_jobs_frame [frame_simps, simp]:
  "wd_Mt (create_jobs E js w) = wd_Mt w" "wd_Mj (create_jobs E js w) = wd_Mj w"
  "wd_MtTQ (create_jobs E js w) = wd_MtTQ w" "wd_MjTQ (create_jobs E js w) = wd_MjTQ w"
  by (induction js arbitrary: w) (simp_all add: mj_Create_def split: option.split)

lemma create_jobs_history:
  "wd_Hist (create_jobs E js w) = rev (map MjCreate (created_jobs w js)) @ wd_Hist w"
proof (induction js arbitrary: w)
  case (Cons j js)
  show ?case
  proof (cases "search_name w j 1 (mj_Name j)")
    case (Some n)
    let ?w1 = "log_effect (MjCreate (renamed n j)) w"
    have "create_jobs E (j # js) w = create_jobs E js ?w1"
      using Some by (simp add: mj_Create_def renamed_def)
    moreover have "created_jobs ?w1 js = created_jobs w js" by (rule created_jobs_cache) simp
    ultimately show ?thesis using Some Cons.IH [of ?w1] by simp
  qed (simp add: Cons.IH)
qed simp

lemma writes_append [simp]: "writes (g @ h) = writes g @ writes h" "writes (map MjCreate js) = map MjCreate js"
  by (simp_all add: writes_def filter_id_conv)

lemma create_jobs_writes:
  "writes (wd_Hist (create_jobs E js w)) = rev (map MjCreate (created_jobs w js)) @ writes (wd_Hist w)"
  by (simp add: create_jobs_history rev_map)

lemma created_jobs_elem:
  "c \<in> set (created_jobs w js) \<longleftrightarrow>
   (\<exists>j \<in> set js. \<exists>n. search_name w j 1 (mj_Name j) = Some n \<and> c = renamed n j)"
  by (induction js) (auto split: option.splits, metis option.distinct(1) option.inject)

lemma mark_scheduled_frame [frame_simps, simp]:
  "wd_Mj (snd (mark_scheduled E n mt w)) = wd_Mj w"
  "wd_MtTQ (snd (mark_scheduled E n mt w)) = wd_MtTQ w"
  "wd_MjTQ (snd (mark_scheduled E n mt w)) = wd_MjTQ w"
  by (auto simp: mark_scheduled_def mt_UpdateStatus_def Let_def split: sum.splits option.splits)

lemma snapshot_spec_frame [frame_simps, simp]:
  "wd_Mt (snd (snapshot_spec E mt w)) = wd_Mt w" "wd_Mj (snd (snapshot_spec E mt w)) = wd_Mj w"
  "wd_MtTQ (snd (snapshot_spec E mt w)) = wd_MtTQ w" "wd_MjTQ (snd (snapshot_spec E mt w)) = wd_MjTQ w"
  "writes (wd_Hist (snd (snapshot_spec E mt w))) = writes (wd_Hist w)"
  by (auto simp: snapshot_spec_def split: sum.split)

lemma snapshot_spec_ok:
  "fst (snapshot_spec E mt w) = Inr spec \<longleftrightarrow>
   sc_SpecSnapshot (scheduled_of mt) \<noteq> '''' \<and> sc_Sha256Hex (scheduled_of mt) \<noteq> '''' \<and>
   snapshot_ok E mt \<and> en_UnmarshalSpec E (sc_SpecSnapshot (scheduled_of mt)) = Inr spec"
  by (auto simp: snapshot_spec_def snapshot_ok_def split: sum.split)

lemma schedule_jobs_frame [frame_simps, simp]:
  "wd_Mt (snd (schedule_jobs E mt spec w)) = wd_Mt w" "wd_Mj (snd (schedule_jobs E mt spec w)) = wd_Mj w"
  "wd_MtTQ (snd (schedule_jobs E mt spec w)) = wd_MtTQ w"
  "wd_MjTQ (snd (schedule_jobs E mt spec w)) = wd_MjTQ w"
  by (auto simp: schedule_jobs_def node_List_def Let_def split: outcome.split dep_result.split sum.split)

lemma scheduleMaintenance_frame [frame_simps, simp]:
  "wd_Mj (snd (scheduleMaintenance E n w)) = wd_Mj w"
  "wd_MtTQ (snd (scheduleMaintenance E n w)) = wd_MtTQ w"
  "wd_MjTQ (snd (scheduleMaintenance E n w)) = wd_MjTQ w"
  by (simp_all add: scheduleMaintenance_def Let_def split_beta split: sum.split)

section \<open>Created jobs\<close>

text \<open>A node for which the snapshot \<open>spec\<close> asks for a job, given the caches of \<open>w\<close>.\<close>

definition eligible_node :: "world \<Rightarrow> MaintenanceSpec \<Rightarrow> Node \<Rightarrow> bool" where
  "eligible_node w spec node \<longleftrightarrow>
     (sp_Nodes spec = [] \<or> om_Name (nd_Meta node) \<in> set (sp_Nodes spec)) \<and>
     (\<forall>dep \<in> set (sch_Depends (sp_Schedule spec)). om_Name (nd_Meta node) \<notin> blocked_nodes w dep) \<and>
     (\<forall>t \<in> set (nd_Taints node). \<exists>l \<in> set (sp_Tolerations spec). ToleratesTaint l t) \<and>
     nd_MachineID node \<noteq> ''''"

text \<open>The selector with which the nodes of a spec are listed; none lists all.\<close>

definition spec_selector :: "env \<Rightarrow> MaintenanceSpec \<Rightarrow> string" where
  "spec_selector E spec = (if sp_NodeSelector spec = [] then [] else en_LabelSelector E (sp_NodeSelector spec))"

text \<open>The job generated for a node, with every environment variable and source of the spec resolved for it.\<close>

definition generated_for :: "env \<Rightarrow> Maintenance \<Rightarrow> MaintenanceSpec \<Rightarrow> Node \<Rightarrow> MaintenanceJob \<Rightarrow> bool" where
  "generated_for E m spec node g \<longleftrightarrow> (\<exists>env envFrom.
     list_all2 (\<lambda>e v. CreatePodEnvVarFromNodeSpecificEnv (en_FieldPath E) (en_Sprintf E) node e = Returns (Inr v))
       (sp_Env spec) env \<and>
     list_all2 (\<lambda>e v. CreatePodEnvSourceFromNodeSpecificEnvFrom (en_FieldPath E) (en_Sprintf E) node e = Returns (Inr v))
       (sp_EnvFrom spec) envFrom \<and>
     g = generateMaintenanceJob (om_Name (nd_Meta node)) (nd_MachineID node) m env envFrom spec
           (jobNamespace E) (jc_DefaultStageTimeout (jobs_config E)))"

text \<open>The jobs the snapshot asks for: all dependencies are satisfied, and the last calls are the listing of the
  nodes with the selector of the snapshot and the creation of the jobs, each for a node that
  the listing returned and that is eligible, under a name that starts with its own and is not taken by a cached job.\<close>

definition jobs_asked_for :: "env \<Rightarrow> Maintenance \<Rightarrow> MaintenanceSpec \<Rightarrow> world \<Rightarrow> MaintenanceJob list \<Rightarrow> bool" where
  "jobs_asked_for E m spec w jobs \<longleftrightarrow>
     (\<forall>dep \<in> set (sch_Depends (sp_Schedule spec)). dep_satisfied w dep) \<and>
     (\<exists>h nodes. wd_Hist w = map MjCreate jobs @ NodeList (spec_selector E spec) # h \<and>
        en_NodeList E h (spec_selector E spec) = Inr nodes \<and>
        (\<forall>j \<in> set jobs. \<exists>node \<in> set nodes. \<exists>g name. eligible_node w spec node \<and> generated_for E m spec node g \<and>
           j = renamed name g \<and> prefix (mj_Name g) name \<and> map_of (wd_Mj w) (mj_key (jobNamespace E) name) = None))"

definition ranges_all :: "env \<Rightarrow> bool" where
  "ranges_all E \<longleftrightarrow> (\<forall>h ks. set (en_RangeOrder E h ks) = set ks)"

lemma ranges_all_keys: "ranges_all E \<Longrightarrow> ranges_keys E w"
  by (simp add: ranges_all_def ranges_keys_def dom_map_of_conv_image_fst)

lemma skip_node_iff:
  assumes "set u = (\<Union>dep \<in> set (sch_Depends (sp_Schedule spec)). blocked_nodes w dep)"
  shows "\<not> skip_node spec u node \<longleftrightarrow> eligible_node w spec node"
  using assms by (auto simp: skip_node_def eligible_node_def Let_def FindMatchingUntoleratedTaint_None_iff
      simp del: not_None_eq)

lemma list_all2_elem: "list_all2 P xs ys \<Longrightarrow> y \<in> set ys \<Longrightarrow> \<exists>x \<in> set xs. P x y"
  by (induction rule: list_all2_induct) auto

lemma node_job_result: "node_job E m spec node = Returns (Inr g) \<longleftrightarrow> generated_for E m spec node g"
  unfolding generated_for_def collect_result [symmetric] by (auto simp: node_job_def split: outcome.splits sum.splits)

lemma generated_for_simps:
  assumes "generated_for E m spec node g"
  shows "mj_Name g = mt_Name m @ ''.'' @ om_Name (nd_Meta node)" and "om_Namespace (mj_Meta g) = jobNamespace E"
    and "js_NodeName (mj_Spec g) = om_Name (nd_Meta node)" and "js_MachineID (mj_Spec g) = nd_MachineID node"
    and "status_stages g = []"
    and "om_OwnerReferences (mj_Meta g) = [NewControllerRef (mt_Meta m) SchemeGroupVersion ''Maintenance'']"
  using assms by (auto simp: generated_for_def)

lemma node_jobs_elem:
  assumes "node_jobs E mt spec u nodes = Returns (Inr js)" and "j \<in> set js"
  shows "\<exists>node. node \<in> set nodes \<and> \<not> skip_node spec u node \<and> generated_for E mt spec node j"
proof -
  have "list_all2 (\<lambda>n j. node_job E mt spec n = Returns (Inr j)) (filter (\<lambda>n. \<not> skip_node spec u n) nodes) js"
    using assms(1) by (simp add: node_jobs_def collect_result)
  from list_all2_elem [OF this assms(2)] show ?thesis by (auto simp: node_job_result)
qed

lemma search_name_free:
  assumes "int (length (wd_Mj w)) < MaxUint64 - 1" and "search_name w j 1 (mj_Name j) = Some n"
  shows "map_of (wd_Mj w) (mj_key (om_Namespace (mj_Meta j)) n) = None" and "prefix (mj_Name j) n"
proof -
  from search_result [OF assms(1), of j] obtain k where
    "n = candidate j k \<and> cached_as w j k = None" unfolding assms(2) by auto
  then show "map_of (wd_Mj w) (mj_key (om_Namespace (mj_Meta j)) n) = None" "prefix (mj_Name j) n"
    by (simp_all add: cached_as_def candidate_def)
qed

lemma schedule_jobs_run:
  "snd (schedule_jobs E m spec w) =
     (case check_deps E w (sch_Depends (sp_Schedule spec)) [] of
        Returns (DepsMet u) \<Rightarrow>
          (let w1 = log_effect (NodeList (spec_selector E spec)) w
           in case en_NodeList E (wd_Hist w) (spec_selector E spec) of
                Inl err \<Rightarrow> w1
              | Inr nodes \<Rightarrow> (case node_jobs E m spec u nodes of
                                Returns (Inr js) \<Rightarrow> create_jobs E js w1 | _ \<Rightarrow> w1))
      | _ \<Rightarrow> w)"
  unfolding schedule_jobs_def node_List_def Let_def spec_selector_def
  by (simp split: outcome.split dep_result.split sum.split)

lemma schedule_jobs_created:
  assumes "writes (wd_Hist (snd (schedule_jobs E m spec w))) \<noteq> writes (wd_Hist w)"
  obtains u nodes js where
    "check_deps E w (sch_Depends (sp_Schedule spec)) [] = Returns (DepsMet u)"
    "en_NodeList E (wd_Hist w) (spec_selector E spec) = Inr nodes"
    "node_jobs E m spec u nodes = Returns (Inr js)"
    "snd (schedule_jobs E m spec w) = create_jobs E js (log_effect (NodeList (spec_selector E spec)) w)"
  using assms unfolding schedule_jobs_run Let_def
  by (simp split: outcome.split_asm dep_result.split_asm sum.split_asm)

lemma dep_world_cong:
  assumes "wd_Mt w' = wd_Mt w" and "wd_Mj w' = wd_Mj w"
  shows "dep_satisfied w' = dep_satisfied w" and "eligible_node w' = eligible_node w"
  using assms by (simp_all add: fun_eq_iff dep_satisfied_def eligible_node_def blocked_nodes_def)

lemma schedule_jobs_writes:
  fixes E m spec
  assumes "ranges_all E" and "int (length (wd_Mj w)) < MaxUint64 - 1"
  defines "w' \<equiv> snd (schedule_jobs E m spec w)"
  shows "\<exists>jobs. writes (wd_Hist w') = map MjCreate jobs @ writes (wd_Hist w) \<and>
    (jobs \<noteq> [] \<longrightarrow> jobs_asked_for E m spec w' jobs)"
proof (cases "writes (wd_Hist w') = writes (wd_Hist w)")
  case False
  let ?sel = "spec_selector E spec"
  from False obtain u nodes js where
    u: "check_deps E w (sch_Depends (sp_Schedule spec)) [] = Returns (DepsMet u)" and
    nodes: "en_NodeList E (wd_Hist w) ?sel = Inr nodes" and
    js: "node_jobs E m spec u nodes = Returns (Inr js)" and
    res: "w' = create_jobs E js (log_effect (NodeList ?sel) w)"
    unfolding w'_def by (rule schedule_jobs_created)
  let ?deps = "sch_Depends (sp_Schedule spec)"
  have same: "dep_satisfied w' = dep_satisfied w" "eligible_node w' = eligible_node w" "wd_Mj w' = wd_Mj w"
    using dep_world_cong [of w' w] by (simp_all add: w'_def)
  have sat: "\<forall>dep \<in> set ?deps. dep_satisfied w dep"
    using check_deps_met [OF ranges_all_keys [OF assms(1)]] u by blast
  have blocked: "set u = (\<Union>dep \<in> set ?deps. blocked_nodes w dep)"
    using check_deps_nodes [OF ranges_all_keys [OF assms(1)] u] by simp
  have asked: "\<exists>node \<in> set nodes. \<exists>g name. eligible_node w spec node \<and> generated_for E m spec node g \<and>
      c = renamed name g \<and> prefix (mj_Name g) name \<and> map_of (wd_Mj w) (mj_key (jobNamespace E) name) = None"
    if "c \<in> set (created_jobs w js)" for c
  proof -
    from that obtain j n where j: "j \<in> set js" "search_name w j 1 (mj_Name j) = Some n" "c = renamed n j"
      by (auto simp: created_jobs_elem)
    from node_jobs_elem [OF js j(1)] obtain node where g: "node \<in> set nodes"
        "\<not> skip_node spec u node" "generated_for E m spec node j" by blast
    then show ?thesis
      using j(3) search_name_free [OF assms(2) j(2)] skip_node_iff [OF blocked] generated_for_simps(2) by metis
  qed
  have "created_jobs (log_effect (NodeList ?sel) w) js = created_jobs w js"
    by (rule created_jobs_cache) simp
  then have h: "wd_Hist w' = map MjCreate (rev (created_jobs w js)) @ NodeList ?sel # wd_Hist w"
    by (simp add: res create_jobs_history rev_map)
  then show ?thesis using nodes asked sat
    by (intro exI [of _ "rev (created_jobs w js)"]) (auto simp: jobs_asked_for_def same)
qed (auto intro: exI [of _ "[]"])

section \<open>Runs of \<open>scheduleMaintenance\<close>\<close>

definition snapshot_taken :: "env \<Rightarrow> gotime \<Rightarrow> Maintenance \<Rightarrow> Maintenance \<Rightarrow> bool" where
  "snapshot_taken E now c m \<longleftrightarrow> (\<exists>json. en_MarshalSpec E (mt_Spec c) = Inr json \<and>
     m = set_scheduled now (en_ThisPod E) json (en_Sha256SumHex E json) c)"

text \<open>The time to schedule the cached object has come.\<close>

definition due_now :: "env \<Rightarrow> world \<Rightarrow> Maintenance \<Rightarrow> bool" where
  "due_now E w c \<longleftrightarrow> \<not> Canceled c \<and> \<not> Expired c (en_Now E (wd_Hist w)) \<and>
     Started c (en_Now E (wd_Hist w))"

lemma schedule_not_due:
  assumes "\<And>c. map_of (wd_Mt w) n = Some c \<Longrightarrow> \<not> due_now E w c"
  shows "writes (wd_Hist (snd (scheduleMaintenance E n w))) = writes (wd_Hist w)"
    and "wd_Mt (snd (scheduleMaintenance E n w)) = wd_Mt w"
  using assms
  by (auto simp: scheduleMaintenance_def due_now_def getMaintenanceFromCache_def Let_def
      split: option.split)

lemma schedule_due:
  assumes "map_of (wd_Mt w) n = Some c" and "due_now E w c"
  shows "scheduleMaintenance E n w =
    (let (r, w2) = mark_scheduled E n c (log_effect (Clock (en_Now E (wd_Hist w))) w)
     in case r of Inl e \<Rightarrow> (Returns e, w2)
        | Inr m \<Rightarrow> (let (s, w3) = snapshot_spec E m w2
                     in case s of Inl e \<Rightarrow> (Returns (Some e), w3)
                        | Inr spec \<Rightarrow> schedule_jobs E m spec w3))"
  using assms
  by (simp add: scheduleMaintenance_def due_now_def getMaintenanceFromCache_def Let_def split_beta
      split: sum.split)

lemma mark_scheduled_run:
  shows "writes (wd_Hist (snd (mark_scheduled E n c w))) =
      (if Scheduled c then [] else case en_MarshalSpec E (mt_Spec c) of
         Inl _ \<Rightarrow> [] | Inr json \<Rightarrow> [MtUpdateStatus
           (set_scheduled (en_Now E (wd_Hist w)) (en_ThisPod E) json (en_Sha256SumHex E json) c)])
      @ writes (wd_Hist w)"
    and "Scheduled c \<Longrightarrow> mark_scheduled E n c w = (Inr c, w)"
  by (auto simp: mark_scheduled_def mt_UpdateStatus_def Let_def split: sum.split option.split)

text \<open>The jobs come from an intact snapshot: that of the object when it was scheduled before, else the one the API
  server answers to the update \<open>snap\<close>.\<close>

definition jobs_justified :: "env \<Rightarrow> Maintenance \<Rightarrow> effect list \<Rightarrow> world \<Rightarrow> MaintenanceJob list \<Rightarrow> bool" where
  "jobs_justified E c snap w jobs \<longleftrightarrow> (\<exists>m spec.
     (if Scheduled c then m = c
      else \<exists>m0 h2 h. snap = [MtUpdateStatus m0] \<and> wd_Hist w = h2 @ MtUpdateStatus m0 # h \<and> en_MtUpdateStatus E h m0 = Inr m) \<and>
     snapshot_ok E m \<and> en_UnmarshalSpec E (sc_SpecSnapshot (scheduled_of m)) = Inr spec \<and>
     jobs_asked_for E m spec w jobs)"

lemma history_grows:
  "\<exists>g. wd_Hist (snd (snapshot_spec E m w)) = g @ wd_Hist w" "\<exists>g. wd_Hist (snd (schedule_jobs E m spec w)) = g @ wd_Hist w"
  "\<exists>g. wd_Hist (snd (mark_scheduled E n c w)) = g @ wd_Hist w"
proof -
  show "\<exists>g. wd_Hist (snd (snapshot_spec E m w)) = g @ wd_Hist w"
    by (simp add: snapshot_spec_def split: sum.split)
  have "\<exists>g. wd_Hist (create_jobs E js (log_effect e w)) = g @ wd_Hist w" for js e
    by (intro exI [of _ "rev (map MjCreate (created_jobs (log_effect e w) js)) @ [e]"]) (simp add: create_jobs_history)
  then show "\<exists>g. wd_Hist (snd (schedule_jobs E m spec w)) = g @ wd_Hist w"
    by (simp add: schedule_jobs_run Let_def split: outcome.split dep_result.split sum.split)
  show "\<exists>g. wd_Hist (snd (mark_scheduled E n c w)) = g @ wd_Hist w"
    by (simp add: mark_scheduled_def mt_UpdateStatus_def Let_def split_beta split: sum.split option.split)
qed

text \<open>What comes after the marking.\<close>

lemma schedule_after_mark:
  assumes "map_of (wd_Mt w) n = Some c" and "due_now E w c"
  defines "w2 \<equiv> snd (mark_scheduled E n c (log_effect (Clock (en_Now E (wd_Hist w))) w))"
  shows "\<exists>g. wd_Hist (snd (scheduleMaintenance E n w)) = g @ wd_Hist w2"
proof -
  have "\<exists>g. wd_Hist (snd (schedule_jobs E m spec (snd (snapshot_spec E m w2)))) = g @ wd_Hist w2" for m spec
    using history_grows(1) [of E m w2] history_grows(2) [of E m spec "snd (snapshot_spec E m w2)"] by force
  moreover have "\<exists>g. wd_Hist (snd (snapshot_spec E m w2)) = g @ wd_Hist w2" for m by (rule history_grows(1))
  ultimately show ?thesis
    unfolding schedule_due [OF assms(1,2)] Let_def split_beta w2_def by (simp split: sum.split)
qed

lemma schedule_history: "\<exists>g. wd_Hist (snd (scheduleMaintenance E n w)) = g @ wd_Hist w"
proof (cases "\<exists>c. map_of (wd_Mt w) n = Some c \<and> due_now E w c")
  case True
  then obtain c where c: "map_of (wd_Mt w) n = Some c" "due_now E w c" by blast
  from schedule_after_mark [OF c] history_grows(3) [of E n c "log_effect (Clock (en_Now E (wd_Hist w))) w"]
  show ?thesis by force
next
  case False
  then show ?thesis
    by (auto simp: scheduleMaintenance_def due_now_def getMaintenanceFromCache_def Let_def split: option.split)
qed

text \<open>The update a run of an unscheduled object makes, at the second reading of the clock.\<close>

definition snapshot_writes :: "env \<Rightarrow> world \<Rightarrow> Maintenance \<Rightarrow> effect list" where
  "snapshot_writes E w c = (if Scheduled c then [] else case en_MarshalSpec E (mt_Spec c) of
     Inl _ \<Rightarrow> []
   | Inr json \<Rightarrow> [MtUpdateStatus (set_scheduled (en_Now E (Clock (en_Now E (wd_Hist w)) # wd_Hist w)) (en_ThisPod E)
                    json (en_Sha256SumHex E json) c)])"

lemma snapshot_written:
  assumes "MtUpdateStatus m \<in> set (snapshot_writes E w c)"
  obtains t where "snapshot_taken E t c m" and "\<not> Scheduled c"
    and "wd_Hist (snd (mark_scheduled E n c (log_effect (Clock (en_Now E (wd_Hist w))) w))) =
      MtUpdateStatus m # Clock t # Clock (en_Now E (wd_Hist w)) # wd_Hist w"
proof -
  from assms obtain json where "\<not> Scheduled c" "en_MarshalSpec E (mt_Spec c) = Inr json"
    "m = set_scheduled (en_Now E (Clock (en_Now E (wd_Hist w)) # wd_Hist w)) (en_ThisPod E) json (en_Sha256SumHex E json) c"
    by (cases "en_MarshalSpec E (mt_Spec c)") (auto simp: snapshot_writes_def split: if_splits)
  with that [of "en_Now E (Clock (en_Now E (wd_Hist w)) # wd_Hist w)"] show ?thesis
    by (auto simp: mark_scheduled_def mt_UpdateStatus_def snapshot_taken_def Let_def split: sum.split)
qed

lemma mark_scheduled_first:
  assumes "fst (mark_scheduled E n c (log_effect (Clock (en_Now E (wd_Hist w))) w)) = Inr m" and "\<not> Scheduled c"
  obtains m0 h where "snapshot_writes E w c = [MtUpdateStatus m0]" and "en_MtUpdateStatus E h m0 = Inr m"
    and "wd_Hist (snd (mark_scheduled E n c (log_effect (Clock (en_Now E (wd_Hist w))) w))) = MtUpdateStatus m0 # h"
proof -
  let ?w1 = "log_effect (Clock (en_Now E (wd_Hist w))) w"
  obtain json where j: "en_MarshalSpec E (mt_Spec c) = Inr json"
    using assms by (auto simp: mark_scheduled_def split: sum.splits)
  let ?m0 = "set_scheduled (en_Now E (wd_Hist ?w1)) (en_ThisPod E) json (en_Sha256SumHex E json) c"
  have "en_MtUpdateStatus E (Clock (en_Now E (wd_Hist ?w1)) # wd_Hist ?w1) ?m0 = Inr m"
    "wd_Hist (snd (mark_scheduled E n c ?w1)) = MtUpdateStatus ?m0 # Clock (en_Now E (wd_Hist ?w1)) # wd_Hist ?w1"
    using assms j by (auto simp: mark_scheduled_def mt_UpdateStatus_def Let_def split: sum.splits if_splits)
  with that [of ?m0] assms(2) j show ?thesis by (simp add: snapshot_writes_def)
qed

lemma schedule_writes:
  assumes "ranges_all E" and "int (length (wd_Mj w)) < MaxUint64 - 1"
    and "map_of (wd_Mt w) n = Some c" and "due_now E w c"
  defines "w' \<equiv> snd (scheduleMaintenance E n w)"
  shows "\<exists>jobs. writes (wd_Hist w') = map MjCreate jobs @ snapshot_writes E w c @ writes (wd_Hist w) \<and>
    (jobs \<noteq> [] \<longrightarrow> jobs_justified E c (snapshot_writes E w c) w' jobs)"
proof -
  let ?w1 = "log_effect (Clock (en_Now E (wd_Hist w))) w"
  let ?w2 = "snd (mark_scheduled E n c ?w1)"
  let ?snap = "snapshot_writes E w c"
  have w2: "writes (wd_Hist ?w2) = ?snap @ writes (wd_Hist w)"
    using mark_scheduled_run(1) [of E n c ?w1]
    by (cases "en_MarshalSpec E (mt_Spec c)") (simp_all add: snapshot_writes_def)
  note run = schedule_due [OF assms(3,4)]
  show ?thesis
  proof (cases "\<exists>m spec. fst (mark_scheduled E n c ?w1) = Inr m \<and> fst (snapshot_spec E m ?w2) = Inr spec")
    case False
    then have "writes (wd_Hist w') = ?snap @ writes (wd_Hist w)"
      unfolding w'_def run Let_def split_beta by (auto simp: w2 split: sum.split)
    then show ?thesis by (intro exI [of _ "[]"]) simp
  next
    case True
    then obtain m spec where m: "fst (mark_scheduled E n c ?w1) = Inr m" "fst (snapshot_spec E m ?w2) = Inr spec"
      by blast
    let ?w3 = "snd (snapshot_spec E m ?w2)"
    have w': "w' = snd (schedule_jobs E m spec ?w3)"
      unfolding w'_def run Let_def split_beta by (simp add: m)
    have "int (length (wd_Mj ?w3)) < MaxUint64 - 1" using assms(2) by simp
    from schedule_jobs_writes [OF assms(1) this, of m spec] obtain jobs where
      jobs: "writes (wd_Hist w') = map MjCreate jobs @ ?snap @ writes (wd_Hist w)"
        "jobs \<noteq> [] \<longrightarrow> jobs_asked_for E m spec w' jobs" by (auto simp: w' w2)
    obtain g where g: "wd_Hist w' = g @ wd_Hist ?w2"
      using history_grows(1) [of E m ?w2] history_grows(2) [of E m spec ?w3] unfolding w' by force
    have "if Scheduled c then m = c
      else \<exists>m0 h2 h. ?snap = [MtUpdateStatus m0] \<and> wd_Hist w' = h2 @ MtUpdateStatus m0 # h \<and> en_MtUpdateStatus E h m0 = Inr m"
    proof (cases "Scheduled c")
      case False
      from mark_scheduled_first [OF m(1) False] show ?thesis using False g by (metis (no_types, lifting))
    qed (use m(1) in \<open>auto simp: mark_scheduled_run(2)\<close>)
    then have "jobs \<noteq> [] \<longrightarrow> jobs_justified E c ?snap w' jobs"
      using jobs(2) m(2) unfolding jobs_justified_def snapshot_spec_ok by blast
    with jobs(1) show ?thesis by blast
  qed
qed

text \<open>C3: A run writes only for an object that is not canceled, not expired and has started. Its
  writes are first at most one status update and then creations of jobs. The update is made only if the object was not
  scheduled before, and changes nothing but the scheduled phase, which gets the JSON of the spec together with its
  SHA-256 digest. The jobs created are justified: the snapshot they come from is that of the object, or the one the API
  server answered to the update, and matches its digest; all dependencies of the snapshot are satisfied; the nodes were
  listed, just before, with the label selector of the snapshot (all nodes when it has none); and each job is the one
  generated from the snapshot for a node of that list that the snapshot names (if it names any), that is not blocked by a
  dependency, whose taints are all tolerated and whose machine is known, with each variable and source of the
  snapshot resolved for the node, under a name no cached job has.\<close>

theorem schedule_writes_justified:
  assumes "ranges_all E" and "int (length (wd_Mj w)) < MaxUint64 - 1"
    and "map_of (wd_Mt w) n = Some c"
  shows "\<exists>jobs snap. writes (wd_Hist (snd (scheduleMaintenance E n w))) =
      map MjCreate jobs @ snap @ writes (wd_Hist w) \<and> length snap \<le> 1 \<and>
    (jobs \<noteq> [] \<or> snap \<noteq> [] \<longrightarrow> due_now E w c) \<and>
    (\<forall>e \<in> set snap. \<exists>m. e = MtUpdateStatus m \<and> \<not> Scheduled c \<and>
       snapshot_taken E (en_Now E (Clock (en_Now E (wd_Hist w)) # wd_Hist w)) c m) \<and>
    (jobs \<noteq> [] \<longrightarrow> jobs_justified E c snap (snd (scheduleMaintenance E n w)) jobs)"
proof (cases "due_now E w c")
  case True
  have "length (snapshot_writes E w c) \<le> 1" "\<forall>e \<in> set (snapshot_writes E w c). \<exists>m. e = MtUpdateStatus m \<and> \<not> Scheduled c \<and>
       snapshot_taken E (en_Now E (Clock (en_Now E (wd_Hist w)) # wd_Hist w)) c m"
    by (cases "en_MarshalSpec E (mt_Spec c)"; auto simp: snapshot_writes_def snapshot_taken_def)+
  with True show ?thesis using schedule_writes [OF assms True] by blast
next
  case False
  then have "writes (wd_Hist (snd (scheduleMaintenance E n w))) = writes (wd_Hist w)"
    using assms(3) by (intro schedule_not_due) simp
  then show ?thesis by (intro exI [of _ "[]"]) simp
qed

definition sample_env_sched :: env where
  "sample_env_sched = sample_env_rec\<lparr>en_UnmarshalSpec := \<lambda>_. Inr (mt_Spec sample_maintenance)\<rparr>"

lemma sample_run_writes:
  "length (writes (wd_Hist (snd (scheduleMaintenance sample_env_sched ''mt'' sample_world_mt)))) = 2"
  by code_simp

theorem schedule_writes_justified_witness:
  "\<exists>jobs snap. jobs \<noteq> [] \<and> jobs_justified sample_env_sched sample_admitted snap
     (snd (scheduleMaintenance sample_env_sched ''mt'' sample_world_mt)) jobs"
proof -
  have "ranges_all sample_env_sched" by (simp add: ranges_all_def sample_env_sched_def sample_env_rec_def)
  moreover have "int (length (wd_Mj sample_world_mt)) < MaxUint64 - 1"
    by (simp add: sample_world_mt_def sample_world_def MaxUint64_def)
  moreover have "map_of (wd_Mt sample_world_mt) ''mt'' = Some sample_admitted"
    by (simp add: sample_world_mt_def)
  ultimately obtain jobs snap where
    r: "writes (wd_Hist (snd (scheduleMaintenance sample_env_sched ''mt'' sample_world_mt))) =
      map MjCreate jobs @ snap @ writes (wd_Hist sample_world_mt)" "length snap \<le> 1"
    "jobs \<noteq> [] \<longrightarrow> jobs_justified sample_env_sched sample_admitted snap
       (snd (scheduleMaintenance sample_env_sched ''mt'' sample_world_mt)) jobs"
    using schedule_writes_justified [of sample_env_sched sample_world_mt "''mt''"] by blast
  have "writes (wd_Hist sample_world_mt) = []" by (simp add: sample_world_mt_def sample_world_def)
  then have "jobs \<noteq> []" using sample_run_writes r(1,2) by auto
  with r(3) show ?thesis by blast
qed

text \<open>C33: When the API server refuses the status update of a first run with anything but
  \<open>NotFound\<close>, the run fails, but the cached object is left marked as scheduled with a snapshot the
  server never stored: the next run takes it for scheduled, makes no status update and goes on
  from that snapshot.\<close>

theorem refused_snapshot_stays_in_cache:
  assumes "map_of (wd_Mt w) n = Some c" and "due_now E w c" and "\<not> Scheduled c"
    and "en_MarshalSpec E (mt_Spec c) = Inr json" and "\<And>h. en_Now E h \<noteq> 0"
    and "\<And>h m. en_MtUpdateStatus E h m = Inl err" and "\<not> IsNotFound err"
  shows "let (r, w1) = scheduleMaintenance E n w in
    r = Returns (Some err) \<and>
    (\<exists>m t. map_of (wd_Mt w1) n = Some m \<and> snapshot_taken E t c m \<and> Scheduled m \<and> snapshot_ok E m \<and>
       (\<forall>w2. mark_scheduled E n m w2 = (Inr m, w2)))"
proof -
  let ?w0 = "log_effect (Clock (en_Now E (wd_Hist w))) w"
  let ?m = "set_scheduled (en_Now E (wd_Hist ?w0)) (en_ThisPod E) json (en_Sha256SumHex E json) c"
  have s: "Scheduled ?m" by (simp add: Scheduled_def time_IsZero_def assms(5))
  have "mark_scheduled E n c ?w0 = (Inl (Some err), log_effect (MtUpdateStatus ?m)
      (put_mt n ?m (log_effect (Clock (en_Now E (wd_Hist ?w0))) ?w0)))"
    using assms(3,4,6,7) by (simp add: mark_scheduled_def mt_UpdateStatus_def Let_def)
  then have run: "scheduleMaintenance E n w = (Returns (Some err), log_effect (MtUpdateStatus ?m)
      (put_mt n ?m (log_effect (Clock (en_Now E (wd_Hist ?w0))) ?w0)))"
    by (simp add: schedule_due [OF assms(1,2)])
  have "snapshot_ok E ?m" by (simp add: snapshot_ok_def)
  moreover have "snapshot_taken E (en_Now E (wd_Hist ?w0)) c ?m"
    using assms(4) unfolding snapshot_taken_def by blast
  ultimately show ?thesis
    unfolding run using s mark_scheduled_run(2) [OF s] by (auto simp del: set_scheduled_simps)
qed

theorem refused_snapshot_stays_in_cache_witness:
  "fst (scheduleMaintenance (sample_env_rec\<lparr>en_MtUpdateStatus := \<lambda>_ _. Inl (ErrorString ''timeout'')\<rparr>)
      ''mt'' sample_world_mt) = Returns (Some (ErrorString ''timeout''))"
proof -
  let ?E = "sample_env_rec\<lparr>en_MtUpdateStatus := \<lambda>_ _. Inl (ErrorString ''timeout'')\<rparr>"
  have "due_now ?E sample_world_mt sample_admitted"
    by (simp add: due_now_def phase_defs sample_admitted_def sample_defs sample_world_mt_def
        set_admitted_def set_window_def time_defs)
  then show ?thesis
    using refused_snapshot_stays_in_cache [of sample_world_mt "''mt''" sample_admitted ?E "''spec''"
        "ErrorString ''timeout''"]
    by (simp add: sample_world_mt_def Scheduled_def sample_admitted_def sample_defs IsNotFound_def
        split: prod.splits)
qed

section \<open>Panics\<close>

text \<open>A snapshot whose environment can be resolved, and a cache in which every job has a stage.\<close>

definition resolvable_spec :: "MaintenanceSpec \<Rightarrow> bool" where
  "resolvable_spec spec \<longleftrightarrow>
     (\<forall>e \<in> set (sp_Env spec). ValidateEnvVar e = None \<and> ne_Value e = '''') \<and>
     (\<forall>e \<in> set (sp_EnvFrom spec). ValidateEnvFrom e = None)"

definition jobs_have_stages :: "world \<Rightarrow> bool" where
  "jobs_have_stages w \<longleftrightarrow> (\<forall>p \<in> set (wd_Mj w). spec_stages (snd p) \<noteq> [])"

lemma condition_met_returns:
  "spec_stages j \<noteq> [] \<Longrightarrow> condition_met c j \<noteq> Some (Panics p)"
  by (auto simp: condition_met_def finished_and_def JobFinished_def JobSucceeded_def JobFailed_def
      last_stage_test_ok split: if_splits bool.splits)

lemma check_dep_job_returns:
  assumes "jobs_have_stages w"
  shows "\<not> panics (check_dep_job w dep depMt key u)"
proof -
  have "spec_stages j \<noteq> []" if "map_of (wd_Mj w) k = Some j" for k j
    using assms map_of_SomeD [OF that] unfolding jobs_have_stages_def by force
  then show ?thesis
    by (auto simp: check_dep_job_def getMaintenanceJobFromCache_def condition_met_returns
        split: option.split outcome.split bool.split)
qed

lemma check_dep_jobs_returns:
  "jobs_have_stages w \<Longrightarrow> \<not> panics (check_dep_jobs w dep depMt keys u)"
proof (induction keys arbitrary: u)
  case (Cons key keys)
  then show ?case using check_dep_job_returns [of w dep depMt key u]
    by (auto split: outcome.split dep_result.split)
qed simp

lemma check_deps_returns: "jobs_have_stages w \<Longrightarrow> \<not> panics (check_deps E w deps u)"
proof (induction deps arbitrary: u)
  case (Cons dep deps)
  have "check_dep_jobs w dep m ks u \<noteq> Panics p" for m ks p
    using check_dep_jobs_returns [OF Cons.prems, of dep m ks u] by auto
  then show ?case using Cons
    by (simp split: sum.split outcome.split dep_result.split)
qed simp

lemma node_job_returns:
  assumes "resolvable_spec spec"
  shows "\<not> panics (node_job E mt spec node)"
proof -
  have "\<not> panics (CreatePodEnvVarFromNodeSpecificEnv (en_FieldPath E) (en_Sprintf E) node e)"
    if "e \<in> set (sp_Env spec)" for e
  proof -
    have "ValidateValueFrom (ne_ValueFrom e) = None"
      using assms that by (auto simp: resolvable_spec_def ValidateEnvVar_def split: if_splits)
    then show ?thesis using valid_value_from_resolvable env_var_returns by (metis not_panics_iff)
  qed
  then have "\<not> panics (collect (CreatePodEnvVarFromNodeSpecificEnv (en_FieldPath E) (en_Sprintf E) node)
      (sp_Env spec))" by (rule collect_returns)
  moreover have "\<not> panics (CreatePodEnvSourceFromNodeSpecificEnvFrom (en_FieldPath E) (en_Sprintf E) node e)"
    if "e \<in> set (sp_EnvFrom spec)" for e
    using assms that valid_env_from_resolvable env_from_returns unfolding resolvable_spec_def
    by (metis not_panics_iff)
  then have "\<not> panics (collect (CreatePodEnvSourceFromNodeSpecificEnvFrom (en_FieldPath E) (en_Sprintf E) node)
      (sp_EnvFrom spec))" by (rule collect_returns)
  ultimately show ?thesis by (auto simp: node_job_def split: outcome.split sum.split)
qed

lemma schedule_jobs_returns:
  assumes "resolvable_spec spec" and "jobs_have_stages w"
  shows "\<not> panics (fst (schedule_jobs E m spec w))"
proof -
  have "\<not> panics (check_deps E w (sch_Depends (sp_Schedule spec)) [])"
    using assms(2) by (rule check_deps_returns)
  moreover have "\<not> panics (node_jobs E m spec u nodes)" for u nodes
    unfolding node_jobs_def by (rule collect_returns) (rule node_job_returns [OF assms(1)])
  ultimately show ?thesis
    by (auto simp: schedule_jobs_def node_List_def Let_def split: outcome.split dep_result.split sum.split)
      (metis panics.simps(2))+
qed

text \<open>The JSON that a run decodes: the snapshot of the object, or the JSON of its spec when it has none yet, if the API
  server stores the scheduled phase it is sent.\<close>

definition snapshot_json :: "env \<Rightarrow> Maintenance \<Rightarrow> go_error + string" where
  "snapshot_json E c = (if Scheduled c then Inr (sc_SpecSnapshot (scheduled_of c)) else en_MarshalSpec E (mt_Spec c))"

definition stores_snapshots :: "env \<Rightarrow> bool" where
  "stores_snapshots E \<longleftrightarrow> (\<forall>h m m'. en_MtUpdateStatus E h m = Inr m' \<longrightarrow> scheduled_of m' = scheduled_of m)"

definition snapshot_resolvable :: "env \<Rightarrow> Maintenance \<Rightarrow> bool" where
  "snapshot_resolvable E c \<longleftrightarrow>
     (\<forall>json spec. snapshot_json E c = Inr json \<longrightarrow> en_UnmarshalSpec E json = Inr spec \<longrightarrow> resolvable_spec spec)"

lemma marked_snapshot:
  assumes "stores_snapshots E" and "fst (mark_scheduled E n c w) = Inr m"
  shows "snapshot_json E c = Inr (sc_SpecSnapshot (scheduled_of m))"
proof (cases "Scheduled c")
  case False
  with assms show ?thesis
    by (auto simp: snapshot_json_def mark_scheduled_def mt_UpdateStatus_def stores_snapshots_def Let_def
        split: sum.splits if_splits)
qed (use assms(2) in \<open>simp add: snapshot_json_def mark_scheduled_run(2)\<close>)

lemma schedule_returns:
  assumes "stores_snapshots E" and "\<And>c. map_of (wd_Mt w) n = Some c \<Longrightarrow> snapshot_resolvable E c"
    and "jobs_have_stages w"
  shows "\<not> panics (fst (scheduleMaintenance E n w))"
proof (cases "\<exists>c. map_of (wd_Mt w) n = Some c \<and> due_now E w c")
  case True
  then obtain c where c: "map_of (wd_Mt w) n = Some c" "due_now E w c" by blast
  let ?r = "mark_scheduled E n c (log_effect (Clock (en_Now E (wd_Hist w))) w)"
  have "\<not> panics (fst (schedule_jobs E m spec (snd (snapshot_spec E m (snd ?r)))))"
    if m: "fst ?r = Inr m" and spec: "fst (snapshot_spec E m (snd ?r)) = Inr spec" for m spec
  proof (rule schedule_jobs_returns)
    show "resolvable_spec spec"
      using assms(2) [OF c(1)] marked_snapshot [OF assms(1) m] spec by (auto simp: snapshot_resolvable_def snapshot_spec_ok)
    show "jobs_have_stages (snd (snapshot_spec E m (snd ?r)))" using assms(3) by (simp add: jobs_have_stages_def)
  qed
  then show ?thesis by (simp add: schedule_due [OF c] Let_def split_beta split: sum.split)
next
  case False
  then show ?thesis
    by (auto simp: scheduleMaintenance_def due_now_def getMaintenanceFromCache_def Let_def split: option.split)
qed

text \<open>C26: Scheduling never panics if the spec that it decodes from the snapshot of the cached maintenance (from the
  JSON of its spec when it has no snapshot yet) has environment references that pass validation and no literal values,
  every cached maintenance job has at least one stage, and the API server stores the snapshot it is sent. Nothing is
  asked of what else can be decoded.\<close>

theorem schedule_no_panic:
  assumes "stores_snapshots E" and "\<And>c. map_of (wd_Mt w) n = Some c \<Longrightarrow> snapshot_resolvable E c"
    and "jobs_have_stages w"
  shows "\<not> panics (fst (scheduleMaintenance E n w))"
  using assms by (rule schedule_returns)

text \<open>A decoder that also accepts a text with a literal value, which scheduling could not resolve.\<close>

definition sample_env_decoder :: env where
  "sample_env_decoder = sample_env_rec\<lparr>en_UnmarshalSpec := \<lambda>s.
     if s = ''spec'' then Inr (mt_Spec sample_maintenance)
     else Inr ((mt_Spec sample_maintenance)\<lparr>sp_Env := [sample_literal_env]\<rparr>)\<rparr>"

theorem schedule_no_panic_witness:
  "\<not> panics (fst (scheduleMaintenance sample_env_decoder ''mt'' sample_world_dep))"
proof (rule schedule_no_panic)
  show "stores_snapshots sample_env_decoder"
    by (simp add: stores_snapshots_def sample_env_decoder_def sample_env_rec_def)
  show "snapshot_resolvable sample_env_decoder c" if "map_of (wd_Mt sample_world_dep) ''mt'' = Some c" for c
    using that by (auto simp: sample_world_dep_def sample_world_mt_def snapshot_resolvable_def snapshot_json_def
        sample_env_decoder_def sample_env_rec_def resolvable_spec_def sample_admitted_def sample_defs Scheduled_def)
  show "jobs_have_stages sample_world_dep"
    by (simp add: jobs_have_stages_def sample_world_dep_def sample_dep_job_def sample_admitted_def
        sample_maintenance_def)
qed

end
