(* ===== verification/NodeOps.thy ===== *)
theory NodeOps
  imports Samples
begin

text \<open>
  The node operations of \<open>maintenencejob.go\<close>: selecting nodes by labels that may refer to
  fields of the job's node, cordoning them (\<open>drainNodes\<close>), removing the unschedulable taint
  (\<open>uncordonNodes\<close>) and patching a node; with \<open>createSelectorFromMap\<close> of \<open>maintenance.go\<close>.
\<close>

section \<open>Selectors\<close>

text \<open>\<open>fields.EscapeValue\<close> and the string forms of equality and conjunction selectors.\<close>

definition escape_char :: "char \<Rightarrow> string" where
  "escape_char c = (if c \<in> {CHR 0x5C, CHR '','', CHR ''=''} then [CHR 0x5C, c] else [c])"

definition EscapeValue :: "string \<Rightarrow> string" where
  "EscapeValue s = concat (map escape_char s)"

definition OneTermEqualSelector :: "string \<Rightarrow> string \<Rightarrow> string" where
  "OneTermEqualSelector k v = k @ ''='' @ EscapeValue v"

fun join_comma :: "string list \<Rightarrow> string" where
  "join_comma [] = ''''"
| "join_comma [x] = x"
| "join_comma (x # y # xs) = x @ '','' @ join_comma (y # xs)"

text \<open>\<open>ord\<close> is the order in which the range over the map visits its keys.\<close>

definition createSelectorFromMap :: "(string list \<Rightarrow> string list) \<Rightarrow> (string \<times> string) list \<Rightarrow> string" where
  "createSelectorFromMap ord m =
     join_comma (map (\<lambda>k. OneTermEqualSelector k (the (map_of m k))) (ord (map fst m)))"

section \<open>Selecting nodes\<close>

fun selector_labels :: "fieldpath \<Rightarrow> Node \<Rightarrow> MaintenanceNodeSelector list \<Rightarrow> (string \<times> string) list
    \<Rightarrow> go_error + (string \<times> string) list" where
  "selector_labels fp node [] m = Inr m"
| "selector_labels fp node (s # ss) m =
     (if vf_FieldPath (ns_ValueFrom s) \<noteq> []
      then (case ExtractNodeFieldPathAsString fp node (vf_FieldPath (ns_ValueFrom s)) of
              Inl err \<Rightarrow> Inl err
            | Inr val \<Rightarrow> selector_labels fp node ss (AList.update (ns_Key s) val m))
      else selector_labels fp node ss (AList.update (ns_Key s) (ns_Value s) m))"

definition getNodesByMaintenanceNodeSelectors ::
  "env \<Rightarrow> string \<Rightarrow> MaintenanceNodeSelector list \<Rightarrow> world \<Rightarrow> (go_error + Node list) \<times> world"
where
  "getNodesByMaintenanceNodeSelectors E nodeName selectors w =
     (case node_Get E nodeName w of
        (Inl err, w1) \<Rightarrow> (Inl err, w1)
      | (Inr node, w1) \<Rightarrow>
          (case selector_labels (en_FieldPath E) node selectors [] of
             Inl err \<Rightarrow> (Inl err, w1)
           | Inr labels \<Rightarrow>
               node_List E (createSelectorFromMap (en_RangeOrder E (wd_Hist w1)) labels) w1))"

section \<open>Patching a node\<close>

definition patchUpdateNode :: "env \<Rightarrow> Node \<Rightarrow> Node \<Rightarrow> world \<Rightarrow> go_error option \<times> world" where
  "patchUpdateNode E oldObj newObj w =
     (case en_MarshalNode E oldObj of
        Inl err \<Rightarrow> (Some (Wrapf ''failed to marshal old object: '' err), w)
      | Inr oldData \<Rightarrow>
          (case en_MarshalNode E newObj of
             Inl err \<Rightarrow> (Some (Wrapf ''failed to marshal new object: '' err), w)
           | Inr newData \<Rightarrow>
               (case en_MergePatch E oldData newData of
                  Inl err \<Rightarrow> (Some (Wrapf ''failed to generate patch data: '' err), w)
                | Inr patchData \<Rightarrow> node_Patch E (om_Name (nd_Meta newObj)) patchData w)))"

section \<open>\<open>drainNodes\<close>\<close>

definition is_cordon_taint :: "Taint \<Rightarrow> bool" where
  "is_cordon_taint t \<longleftrightarrow> tt_Effect t = TaintEffectNoSchedule \<and> tt_Key t = TaintNodeUnschedulable \<and>
     tt_TimeAdded t \<noteq> None \<and> tt_Value t = ''''"

definition hasExpectedTaints :: "Node \<Rightarrow> bool" where
  "hasExpectedTaints node \<longleftrightarrow> list_ex is_cordon_taint (nd_Taints node)"

definition cordon :: "gotime \<Rightarrow> Node \<Rightarrow> Node" where
  "cordon now node = node\<lparr>nd_Taints := nd_Taints node @
     [\<lparr>tt_Key = TaintNodeUnschedulable, tt_Value = '''', tt_Effect = TaintEffectNoSchedule,
       tt_TimeAdded = Some now\<rparr>]\<rparr>"

fun drain_loop :: "env \<Rightarrow> Node list \<Rightarrow> world \<Rightarrow> go_error option \<times> world" where
  "drain_loop E [] w = (None, w)"
| "drain_loop E (node # ns) w =
     (if \<not> hasExpectedTaints node
      then (let (now, w1) = time_now E w
            in case patchUpdateNode E node (cordon now node) w1 of
                 (Some err, w2) \<Rightarrow> (Some err, w2)
               | (None, w2) \<Rightarrow> drain_loop E ns w2)
      else drain_loop E ns w)"

definition drainNodes :: "env \<Rightarrow> MaintenanceJob \<Rightarrow> MaintenanceStage \<Rightarrow> world
    \<Rightarrow> (go_error option) outcome \<times> world" where
  "drainNodes E mtJob stageSpec w =
     (case st_Drain stageSpec of
        None \<Rightarrow> (Panics NilDereference, w)
      | Some d \<Rightarrow>
          (case getNodesByMaintenanceNodeSelectors E (js_NodeName (mj_Spec mtJob)) (dr_NodeSelector d) w of
             (Inl err, w1) \<Rightarrow> (Returns (Some err), w1)
           | (Inr nodes, w1) \<Rightarrow> (let (err, w2) = drain_loop E nodes w1 in (Returns err, w2))))"

section \<open>\<open>uncordonNodes\<close>\<close>

definition uncordon :: "Node \<Rightarrow> Node" where
  "uncordon node = node\<lparr>nd_Taints := filter (\<lambda>t. tt_Key t \<noteq> TaintNodeUnschedulable) (nd_Taints node)\<rparr>"

text \<open>The loop returns at the first node that has no unschedulable taint.\<close>

fun uncordon_loop :: "env \<Rightarrow> Node list \<Rightarrow> world \<Rightarrow> go_error option \<times> world" where
  "uncordon_loop E [] w = (None, w)"
| "uncordon_loop E (node # ns) w =
     (if length (nd_Taints (uncordon node)) = length (nd_Taints node) then (None, w)
      else (case patchUpdateNode E node (uncordon node) w of
              (Some err, w1) \<Rightarrow> (Some err, w1)
            | (None, w1) \<Rightarrow> uncordon_loop E ns w1))"

text \<open>The node selector is read from \<open>stageSpec.Drain\<close>, as in the code.\<close>

definition uncordonNodes :: "env \<Rightarrow> MaintenanceJob \<Rightarrow> MaintenanceStage \<Rightarrow> world
    \<Rightarrow> (go_error option) outcome \<times> world" where
  "uncordonNodes E mtJob stageSpec w =
     (case st_Drain stageSpec of
        None \<Rightarrow> (Panics NilDereference, w)
      | Some d \<Rightarrow>
          (case getNodesByMaintenanceNodeSelectors E (js_NodeName (mj_Spec mtJob)) (dr_NodeSelector d) w of
             (Inl err, w1) \<Rightarrow> (Returns (Some err), w1)
           | (Inr nodes, w1) \<Rightarrow> (let (err, w2) = uncordon_loop E nodes w1 in (Returns err, w2))))"

section \<open>Lemmas\<close>

lemma cordon_taints [simp]:
  "nd_Taints (cordon now node) = nd_Taints node @ [\<lparr>tt_Key = TaintNodeUnschedulable,
     tt_Value = '''', tt_Effect = TaintEffectNoSchedule, tt_TimeAdded = Some now\<rparr>]"
  "nd_Meta (cordon now node) = nd_Meta node"
  by (simp_all add: cordon_def)

lemma hasExpectedTaints_cordon [simp]: "hasExpectedTaints (cordon now node)"
  by (simp add: hasExpectedTaints_def is_cordon_taint_def)

lemma uncordon_not_expected [simp]: "\<not> hasExpectedTaints (uncordon node)"
  by (auto simp: hasExpectedTaints_def uncordon_def list_ex_iff is_cordon_taint_def)

text \<open>Only the history of a world changes.\<close>

definition same_state :: "world \<Rightarrow> world \<Rightarrow> bool" where
  "same_state w w' \<longleftrightarrow> wd_Mt w' = wd_Mt w \<and> wd_Mj w' = wd_Mj w \<and>
     wd_MtTQ w' = wd_MtTQ w \<and> wd_MjTQ w' = wd_MjTQ w"

lemma same_state_refl [simp]: "same_state w w"
  by (simp add: same_state_def)

lemma same_state_log [simp]: "same_state w (log_effect e w') = same_state w w'"
  by (simp add: same_state_def)

lemma same_state_trans: "same_state a b \<Longrightarrow> same_state b c \<Longrightarrow> same_state a c"
  by (simp add: same_state_def)

lemma patch_same_state: "same_state w (snd (patchUpdateNode E old new w))"
  by (simp add: patchUpdateNode_def node_Patch_def split: sum.split)

lemma getNodes_same_state: "same_state w (snd (getNodesByMaintenanceNodeSelectors E n s w))"
  by (simp add: getNodesByMaintenanceNodeSelectors_def node_Get_def node_List_def Let_def
      split: sum.split)

lemma patch_resultD:
  "patchUpdateNode E old new w = (e, w') \<Longrightarrow> same_state w w'"
  using patch_same_state [of w E old new] by simp

lemma drain_loop_same_state: "same_state w (snd (drain_loop E ns w))"
proof (induction ns arbitrary: w)
  case (Cons node ns)
  show ?case
    using Cons by (auto split: prod.split option.split dest!: patch_resultD
        intro: same_state_trans simp: same_state_def)
qed simp

lemma uncordon_loop_same_state: "same_state w (snd (uncordon_loop E ns w))"
proof (induction ns arbitrary: w)
  case (Cons node ns)
  show ?case
    using Cons by (auto split: prod.split option.split dest!: patch_resultD
        intro: same_state_trans simp: same_state_def)
qed simp

lemma getNodes_resultD:
  "getNodesByMaintenanceNodeSelectors E n sel w = (r, w') \<Longrightarrow> same_state w w'"
  using getNodes_same_state [of w E n sel] by simp

lemma drain_loop_resultD: "drain_loop E ns w = (r, w') \<Longrightarrow> same_state w w'"
  using drain_loop_same_state [of w E ns] by simp

lemma uncordon_loop_resultD: "uncordon_loop E ns w = (r, w') \<Longrightarrow> same_state w w'"
  using uncordon_loop_same_state [of w E ns] by simp

lemma drainNodes_same_state: "same_state w (snd (drainNodes E j s w))"
  by (auto simp: drainNodes_def split: option.split prod.split sum.split
      intro: same_state_trans dest!: getNodes_resultD drain_loop_resultD)

lemma uncordonNodes_same_state: "same_state w (snd (uncordonNodes E j s w))"
  by (auto simp: uncordonNodes_def split: option.split prod.split sum.split
      intro: same_state_trans dest!: getNodes_resultD uncordon_loop_resultD)

lemma getNodes_writes:
  "getNodesByMaintenanceNodeSelectors E n sel w = (r, w') \<Longrightarrow> writes (wd_Hist w') = writes (wd_Hist w)"
  by (auto simp: getNodesByMaintenanceNodeSelectors_def node_Get_def node_List_def
      split: sum.splits)

text \<open>The taints and patches a drain makes, given the clock readings.\<close>

definition patch_of :: "env \<Rightarrow> Node \<Rightarrow> Node \<Rightarrow> effect \<Rightarrow> bool" where
  "patch_of E old new e \<longleftrightarrow> (\<exists>d d' p. en_MarshalNode E old = Inr d \<and> en_MarshalNode E new = Inr d' \<and>
     en_MergePatch E d d' = Inr p \<and> e = NodePatch (om_Name (nd_Meta new)) p)"

lemma patch_success:
  "patchUpdateNode E old new w = (None, w') \<Longrightarrow>
   \<exists>e. patch_of E old new e \<and> wd_Hist w' = e # wd_Hist w"
  by (auto simp: patchUpdateNode_def node_Patch_def patch_of_def split: sum.splits)

lemma patch_writes:
  "patchUpdateNode E old new w = (r, w') \<Longrightarrow>
   \<exists>es. writes (wd_Hist w') = es @ writes (wd_Hist w) \<and> (\<forall>e \<in> set es. \<exists>n p. e = NodePatch n p)"
  by (auto simp: patchUpdateNode_def node_Patch_def split: sum.splits)

text \<open>The patches of a drain: one for each node without a complete cordon taint, in the order of the list.\<close>

definition cordons :: "env \<Rightarrow> Node list \<Rightarrow> history \<Rightarrow> bool" where
  "cordons E nodes g \<longleftrightarrow>
     list_all2 (\<lambda>n e. \<exists>t. Clock t \<in> set g \<and> patch_of E n (cordon t n) e) (filter (\<lambda>n. \<not> hasExpectedTaints n) nodes) (rev (writes g))"

lemma drain_loop_success:
  assumes "drain_loop E ns w = (None, w')"
  shows "\<exists>g. wd_Hist w' = g @ wd_Hist w \<and> cordons E ns g"
  using assms
proof (induction ns arbitrary: w)
  case (Cons node ns)
  show ?case
  proof (cases "hasExpectedTaints node")
    case True
    then show ?thesis using Cons by (simp add: cordons_def)
  next
    case False
    define t where "t = en_Now E (wd_Hist w)"
    from False Cons.prems obtain w2 where
      p: "patchUpdateNode E node (cordon t node) (log_effect (Clock t) w) = (None, w2)" and
      l: "drain_loop E ns w2 = (None, w')"
      by (auto simp: t_def split: prod.splits option.splits)
    from patch_success [OF p] obtain e where
      e: "patch_of E node (cordon t node) e" "wd_Hist w2 = e # Clock t # wd_Hist w" by auto
    from Cons.IH [OF l] obtain g where g: "wd_Hist w' = g @ wd_Hist w2" "cordons E ns g" by blast
    have "is_write e" using e(1) by (auto simp: patch_of_def)
    then have "writes (g @ [e, Clock t]) = writes g @ [e]" by (simp add: writes_def)
    moreover have "list_all2 (\<lambda>n e'. \<exists>t'. Clock t' \<in> set (g @ [e, Clock t]) \<and> patch_of E n (cordon t' n) e')
        (filter (\<lambda>n. \<not> hasExpectedTaints n) ns) (rev (writes g))"
      using g(2) unfolding cordons_def by (rule list_all2_mono) auto
    ultimately have "cordons E (node # ns) (g @ [e, Clock t])"
      using False e(1) by (auto simp: cordons_def)
    with g(1) e(2) show ?thesis by (intro exI [of _ "g @ [e, Clock t]"]) simp
  qed
qed (auto simp: cordons_def)

lemma drain_loop_noop:
  "\<forall>n \<in> set ns. hasExpectedTaints n \<Longrightarrow> drain_loop E ns w = (None, w)"
  by (induction ns) auto

section \<open>Properties\<close>

text \<open>The nodes of a stage of the job \<open>j\<close> drained between two worlds: the node of the job is read, the labels of the
  selector are resolved against it and the nodes with these labels are listed; the calls after that cordon them.\<close>

definition drain_done :: "env \<Rightarrow> MaintenanceJob \<Rightarrow> MaintenanceStage \<Rightarrow> world \<Rightarrow> world \<Rightarrow> bool" where
  "drain_done E j s w w' \<longleftrightarrow> (\<exists>d node labels nodes g.
     let name = js_NodeName (mj_Spec j);
         h1 = NodeGet name # wd_Hist w;
         sel = createSelectorFromMap (en_RangeOrder E h1) labels
     in st_Drain s = Some d \<and> en_NodeGet E (wd_Hist w) name = Inr node \<and>
        selector_labels (en_FieldPath E) node (dr_NodeSelector d) [] = Inr labels \<and>
        en_NodeList E h1 sel = Inr nodes \<and> wd_Hist w' = g @ NodeList sel # h1 \<and> cordons E nodes g)"

lemma drainNodes_done:
  assumes "drainNodes E j s w = (Returns None, w')"
  shows "drain_done E j s w w'"
proof -
  from assms obtain d nodes w1 where
    d: "st_Drain s = Some d"
      "getNodesByMaintenanceNodeSelectors E (js_NodeName (mj_Spec j)) (dr_NodeSelector d) w = (Inr nodes, w1)"
    and l: "drain_loop E nodes w1 = (None, w')"
    by (auto simp: drainNodes_def split: option.splits prod.splits sum.splits)
  let ?name = "js_NodeName (mj_Spec j)"
  from d(2) obtain node labels where n: "en_NodeGet E (wd_Hist w) ?name = Inr node"
    "selector_labels (en_FieldPath E) node (dr_NodeSelector d) [] = Inr labels"
    "en_NodeList E (NodeGet ?name # wd_Hist w) (createSelectorFromMap (en_RangeOrder E (NodeGet ?name # wd_Hist w)) labels) = Inr nodes"
    "wd_Hist w1 = NodeList (createSelectorFromMap (en_RangeOrder E (NodeGet ?name # wd_Hist w)) labels) # NodeGet ?name # wd_Hist w"
    by (auto simp: getNodesByMaintenanceNodeSelectors_def node_Get_def node_List_def split: sum.splits)
  from drain_loop_success [OF l] obtain g where "wd_Hist w' = g @ wd_Hist w1" "cordons E nodes g" by blast
  with d(1) n show ?thesis unfolding drain_done_def Let_def by auto
qed

text \<open>C12: A drain that succeeds reads the node of the job, lists the nodes that have the labels of the stage's selector
  (fields of the job's node filled in), and then makes one write for each of them without a complete cordon taint, in
  the order of the list, and no other: the patch that appends the unschedulable taint with the effect NoSchedule, stamped
  with a time just read, to the taints of the node. It changes neither the caches nor the queues, and evicts no pod.\<close>

theorem drain_cordons_selected_nodes:
  assumes "drainNodes E j s w = (Returns None, w')"
  shows "drain_done E j s w w' \<and> same_state w w'"
  using drainNodes_done [OF assms] drainNodes_same_state [of w E j s] assms by simp

definition sample_drain_stage :: MaintenanceStage where
  "sample_drain_stage = \<lparr>st_Name = ''drain'', st_Delay = 0, st_Timeout = 3600000000000,
     st_Drain = Some \<lparr>dr_NodeSelector = [], dr_GracePeriod = 0, dr_PodSelector = [],
       dr_DeleteLocalData = False, dr_IgnoreDaemonsets = False\<rparr>,
     st_Uncordon = None, st_Pod = None\<rparr>"

theorem drain_cordons_selected_nodes_witness:
  "\<exists>w' g. drainNodes sample_env_rec zero_MaintenanceJob sample_drain_stage sample_world = (Returns None, w') \<and>
     wd_Hist w' = g @ [NodeList [], NodeGet []] \<and> cordons sample_env_rec [sample_node] g"
proof -
  obtain w' where w': "drainNodes sample_env_rec zero_MaintenanceJob sample_drain_stage sample_world
      = (Returns None, w')"
    by (simp add: drainNodes_def getNodesByMaintenanceNodeSelectors_def api_defs sample_env_rec_def
        sample_drain_stage_def sample_node_def hasExpectedTaints_def patchUpdateNode_def Let_def)
  from drain_cordons_selected_nodes [OF w'] w' show ?thesis
    by (auto simp: drain_done_def Let_def sample_env_rec_def sample_drain_stage_def zero_MaintenanceJob_def sample_world_def
        createSelectorFromMap_def)
qed

definition sample_uncordon_stage :: MaintenanceStage where
  "sample_uncordon_stage = sample_drain_stage\<lparr>st_Name := ''uncordon'', st_Drain := None,
     st_Uncordon := Some \<lparr>un_NodeSelector = []\<rparr>\<rparr>"

end
