(* ===== verification/MaintenanceJobs.thy ===== *)
theory MaintenanceJobs
  imports MaintenanceSchedule NodeOps
begin

text \<open>
  Maintenance jobs (\<open>maintenencejob.go\<close>): \<open>onMaintenanceJobAdded\<close> pads the status,
  \<open>enqueueMaintenanceJobForScheduling\<close> enqueues, and \<open>scheduleMaintenanceJob\<close> walks over the
  stages. The walk ranges over the stages of the cached object, while its variable \<open>mtJob\<close> may
  be replaced by the answer of the API server; as long as it has not been replaced
  (\<open>cached\<close>), assignments to its fields change the cached object.
\<close>

section \<open>Enqueueing\<close>

text \<open>The loop over the stage statuses: \<open>None\<close> when the function returns in it.\<close>

fun finished_count :: "MaintenanceJobStageStatus list \<Rightarrow> nat \<Rightarrow> nat option" where
  "finished_count [] finishedCount = Some finishedCount"
| "finished_count (s # ss) finishedCount =
     (if ss_Failed s then None
      else if ss_Running s then Some finishedCount
      else finished_count ss (if ss_Succeeded s then finishedCount + 1 else finishedCount))"

definition enqueueMaintenanceJobForScheduling :: "env \<Rightarrow> string \<Rightarrow> string \<Rightarrow> duration \<Rightarrow> world
    \<Rightarrow> go_error option \<times> world" where
  "enqueueMaintenanceJobForScheduling E namespace mtJobName delay w =
     (case getMaintenanceJobFromCache namespace mtJobName w of
        Inl err \<Rightarrow> (Some err, w)
      | Inr mtJob \<Rightarrow>
          (case finished_count (status_stages mtJob) 0 of
             None \<Rightarrow> (None, w)
           | Some finishedCount \<Rightarrow>
               if finishedCount = length (spec_stages mtJob) then (None, w)
               else mjTQ_offer_delay E mtJobName delay w))"

section \<open>\<open>onMaintenanceJobAdded\<close>\<close>

definition new_stage_status :: "string \<Rightarrow> MaintenanceJobStageStatus" where
  "new_stage_status n = \<lparr>ss_Name = n, ss_ScheduledAt = None, ss_FinishedAt = None, ss_Message = '''',
     ss_Reason = '''', ss_Running = False, ss_Succeeded = False, ss_Failed = False\<rparr>"

definition set_stages :: "MaintenanceJobStageStatus list \<Rightarrow> MaintenanceJob \<Rightarrow> MaintenanceJob" where
  "set_stages ss j = j\<lparr>mj_Status := (mj_Status j)\<lparr>jt_Stages := ss\<rparr>\<rparr>"

definition pad_stages :: "MaintenanceJob \<Rightarrow> MaintenanceJob" where
  "pad_stages j = set_stages (status_stages j @
     map (\<lambda>st. new_stage_status (st_Name st)) (drop (length (status_stages j)) (spec_stages j))) j"

definition onMaintenanceJobAdded :: "env \<Rightarrow> MaintenanceJob \<Rightarrow> world \<Rightarrow> (Result option) outcome \<times> world" where
  "onMaintenanceJobAdded E mtJob w =
     (case JobFinished mtJob of
        Panics p \<Rightarrow> (Panics p, w)
      | Returns True \<Rightarrow> (Returns None, w)
      | Returns False \<Rightarrow>
          (let sizeStatus = length (status_stages mtJob); sizeSpec = length (spec_stages mtJob)
           in if sizeStatus > sizeSpec
              then (Returns None, record_event EventTypeNormal ''InvalidStatus'' (mj_Name mtJob) w)
              else
                (let mtJob1 = pad_stages mtJob;
                     (mtJob2, err, w1) = (if length (status_stages mtJob1) > sizeStatus
                                          then mj_UpdateStatus E mtJob1 w else (mtJob1, None, w))
                 in case err of
                      Some e \<Rightarrow> (Returns (Some (result_err e)), w1)
                    | None \<Rightarrow>
                        (case enqueueMaintenanceJobForScheduling E (om_Namespace (mj_Meta mtJob2))
                                (mj_Name mtJob2) 0 w1 of
                           (Some e, w2) \<Rightarrow> (Returns (Some (result_err e)), w2)
                         | (None, w2) \<Rightarrow> (Returns None, w2)))))"

definition onMaintenanceJobUpdated :: "env \<Rightarrow> MaintenanceJob \<Rightarrow> world \<Rightarrow> Result option \<times> world" where
  "onMaintenanceJobUpdated E newMtJob w = (None, w)"

definition onMaintenanceJobDeleting :: "env \<Rightarrow> MaintenanceJob \<Rightarrow> world \<Rightarrow> Result option \<times> world" where
  "onMaintenanceJobDeleting E mtJob w = (None, w)"

definition onMaintenanceJobDeleted :: "env \<Rightarrow> MaintenanceJob \<Rightarrow> world \<Rightarrow> Result option \<times> world" where
  "onMaintenanceJobDeleted E mtJob w = (None, w)"

section \<open>\<open>scheduleMaintenanceJob\<close>\<close>

text \<open>What an iteration does: the function returns, or goes to the next stage with \<open>mtJob\<close>.\<close>

datatype stage_step = Return "go_error option" | Continue MaintenanceJob bool

text \<open>Assignments to fields of \<open>mtJob\<close>: they go to the cache while \<open>mtJob\<close> is the cached object.\<close>

definition assign :: "string \<Rightarrow> bool \<Rightarrow> MaintenanceJob \<Rightarrow> world \<Rightarrow> world" where
  "assign key cached mtJob w = (if cached then put_mj key mtJob w else w)"

definition set_FailedAt :: "mtime \<Rightarrow> MaintenanceJob \<Rightarrow> MaintenanceJob" where
  "set_FailedAt t j = j\<lparr>mj_Status := (mj_Status j)\<lparr>jt_FailedAt := t\<rparr>\<rparr>"

definition set_SucceededAt :: "mtime \<Rightarrow> MaintenanceJob \<Rightarrow> MaintenanceJob" where
  "set_SucceededAt t j = j\<lparr>mj_Status := (mj_Status j)\<lparr>jt_SucceededAt := t\<rparr>\<rparr>"

definition set_stage :: "nat \<Rightarrow> (MaintenanceJobStageStatus \<Rightarrow> MaintenanceJobStageStatus) \<Rightarrow> MaintenanceJob
    \<Rightarrow> MaintenanceJob" where
  "set_stage i f j = set_stages ((status_stages j)[i := f (status_stages j ! i)]) j"

text \<open>Assigning to the \<open>i\<close>-th stage status (a panic if there is none), and sending the status.
  The answer is returned with the error.\<close>

definition update_stage :: "env \<Rightarrow> string \<Rightarrow> bool \<Rightarrow> nat
    \<Rightarrow> (MaintenanceJobStageStatus \<Rightarrow> MaintenanceJobStageStatus) \<Rightarrow> MaintenanceJob \<Rightarrow> world
    \<Rightarrow> (MaintenanceJob \<times> go_error option) outcome \<times> world" where
  "update_stage E key cached i f mtJob w =
     (if i \<ge> length (status_stages mtJob) then (Panics IndexOutOfRange, w)
      else (let mtJob1 = set_stage i f mtJob;
                (mtJob2, err, w1) = mj_UpdateStatus E mtJob1 (assign key cached mtJob1 w)
            in (Returns (mtJob2, err), w1)))"

text \<open>The branch \<open>if s.Failed\<close>.\<close>

definition failed_stage :: "env \<Rightarrow> string \<Rightarrow> bool \<Rightarrow> MaintenanceJobStageStatus \<Rightarrow> MaintenanceJob \<Rightarrow> world
    \<Rightarrow> go_error option \<times> world" where
  "failed_stage E key cached s mtJob w =
     (if \<not> time_set (ss_FinishedAt s)
      then (Some (ErrorString ''zero time of failure event not acceptable''), w)
      else (let mtJob1 = set_FailedAt (ss_FinishedAt s) mtJob;
                (m, err, w1) = mj_UpdateStatus E mtJob1 (assign key cached mtJob1 w)
            in (err, w1)))"

text \<open>The branch \<open>if s.Succeeded\<close>.\<close>

definition succeeded_stage :: "env \<Rightarrow> string \<Rightarrow> bool \<Rightarrow> MaintenanceJobStageStatus \<Rightarrow> MaintenanceJob \<Rightarrow> world
    \<Rightarrow> stage_step outcome \<times> world" where
  "succeeded_stage E key cached s mtJob w =
     (if \<not> time_set (ss_FinishedAt s)
      then (Returns (Return (Some (ErrorString ''zero time of success event not acceptable''))), w)
      else
        (case JobSucceeded mtJob of
           Panics p \<Rightarrow> (Panics p, w)
         | Returns False \<Rightarrow> (Returns (Continue mtJob cached), w)
         | Returns True \<Rightarrow>
             (let mtJob1 = set_SucceededAt (ss_FinishedAt s) mtJob;
                  (mtJob2, err, w1) = mj_UpdateStatus E mtJob1 (assign key cached mtJob1 w)
              in case err of
                   Some e \<Rightarrow> (Returns (Return (Some e)), w1)
                 | None \<Rightarrow> (Returns (Continue mtJob2 False), w1))))"

definition stage_timed_out :: "gotime \<Rightarrow> MaintenanceJobStageStatus \<Rightarrow> MaintenanceJobStageStatus" where
  "stage_timed_out now s = s\<lparr>ss_FinishedAt := Some now, ss_Running := False, ss_Succeeded := False,
     ss_Failed := True, ss_Reason := ''Timeout'', ss_Message := ''job remains unfinished''\<rparr>"

definition stage_failure :: "go_error \<Rightarrow> MaintenanceJobStageStatus \<Rightarrow> MaintenanceJobStageStatus" where
  "stage_failure err s = s\<lparr>ss_Reason := ''TemporaryFailure'', ss_Message := Error err\<rparr>"

definition stage_succeeded :: "gotime \<Rightarrow> MaintenanceJobStageStatus \<Rightarrow> MaintenanceJobStageStatus" where
  "stage_succeeded now s = s\<lparr>ss_FinishedAt := Some now, ss_Running := False, ss_Succeeded := True,
     ss_Failed := False\<rparr>"

definition stage_started :: "gotime \<Rightarrow> MaintenanceJobStageStatus \<Rightarrow> MaintenanceJobStageStatus" where
  "stage_started now s = s\<lparr>ss_ScheduledAt := Some now, ss_Running := True\<rparr>"

text \<open>Returning the error of a status update.\<close>

definition update_stage_err :: "env \<Rightarrow> string \<Rightarrow> bool \<Rightarrow> nat
    \<Rightarrow> (MaintenanceJobStageStatus \<Rightarrow> MaintenanceJobStageStatus) \<Rightarrow> MaintenanceJob \<Rightarrow> world
    \<Rightarrow> (go_error option) outcome \<times> world" where
  "update_stage_err E key cached i f mtJob w =
     (case update_stage E key cached i f mtJob w of
        (Panics p, w1) \<Rightarrow> (Panics p, w1)
      | (Returns (m, err), w1) \<Rightarrow> (Returns err, w1))"

text \<open>The branch \<open>if s.Running\<close>, which always returns.\<close>

definition running_stage :: "env \<Rightarrow> string \<Rightarrow> bool \<Rightarrow> nat \<Rightarrow> MaintenanceJobStageStatus \<Rightarrow> MaintenanceStage
    \<Rightarrow> MaintenanceJob \<Rightarrow> world \<Rightarrow> (go_error option) outcome \<times> world" where
  "running_stage E key cached i s spec mtJob w =
     (if st_Drain spec = None \<and> st_Uncordon spec = None then (Returns None, w)
      else
        (let (now, w1) = time_now E w
         in case ss_ScheduledAt s of
              None \<Rightarrow> (Panics NilDereference, w1)
            | Some scheduledAt \<Rightarrow>
                if time_After now (time_Add scheduledAt (st_Timeout spec))
                then (let w2 = record_event EventTypeNormal ''StageTimeout'' (mj_Name mtJob) w1;
                          (t, w3) = time_now E w2
                      in update_stage_err E key cached i (stage_timed_out t) mtJob w3)
                else
                  (case (if st_Drain spec \<noteq> None then drainNodes E mtJob spec w1
                         else uncordonNodes E mtJob spec w1) of
                     (Panics p, w2) \<Rightarrow> (Panics p, w2)
                   | (Returns (Some err), w2) \<Rightarrow>
                       (case update_stage E key cached i (stage_failure err) mtJob w2 of
                          (Panics p, w3) \<Rightarrow> (Panics p, w3)
                        | (Returns r, w3) \<Rightarrow> (Returns (Some err), w3))
                   | (Returns None, w2) \<Rightarrow>
                       (let (t, w3) = time_now E w2
                        in update_stage_err E key cached i (stage_succeeded t) mtJob w3))))"

text \<open>The finishing time of the previous stage, the zero time when it is missing. Reading the
  previous stage status panics if there is none.\<close>

definition prevFinishedAt :: "nat \<Rightarrow> MaintenanceJob \<Rightarrow> gotime outcome" where
  "prevFinishedAt i mtJob =
     (if i = 0 then Returns (om_CreationTimestamp (mj_Meta mtJob))
      else if i - 1 \<ge> length (status_stages mtJob) then Panics IndexOutOfRange
      else (let fAt = ss_FinishedAt (status_stages mtJob ! (i - 1))
            in Returns (if time_set fAt then the fAt else 0)))"

text \<open>The rest of the loop body: the stage is not running.\<close>

definition idle_stage :: "env \<Rightarrow> string \<Rightarrow> bool \<Rightarrow> nat \<Rightarrow> MaintenanceStage \<Rightarrow> MaintenanceJob \<Rightarrow> world
    \<Rightarrow> stage_step outcome \<times> world" where
  "idle_stage E key cached i spec mtJob w =
     (case prevFinishedAt i mtJob of
        Panics p \<Rightarrow> (Panics p, w)
      | Returns prev \<Rightarrow>
          (let (now, w1) = time_now E w
           in if time_Before now (time_Add prev (st_Delay spec)) then (Returns (Return None), w1)
              else if st_Drain spec \<noteq> None \<or> st_Uncordon spec \<noteq> None
              then (let (t, w2) = time_now E w1
                    in case update_stage E key cached i (stage_started t) mtJob w2 of
                         (Panics p, w3) \<Rightarrow> (Panics p, w3)
                       | (Returns (m, Some err), w3) \<Rightarrow> (Returns (Return (Some err)), w3)
                       | (Returns (m, None), w3) \<Rightarrow> (Returns (Continue m False), w3))
              else if st_Pod spec \<noteq> None
              then (case generateJob mtJob spec of
                      Panics p \<Rightarrow> (Panics p, w1)
                    | Returns job \<Rightarrow>
                        (let (err, w2) = job_Create E job w1
                         in case err of
                              None \<Rightarrow> (Returns (Return None), w2)
                            | Some e \<Rightarrow> (Returns (Return (if \<not> IsAlreadyExists e then Some e else None)), w2)))
              else (Returns (Continue mtJob cached), w1)))"

definition stage_body :: "env \<Rightarrow> string \<Rightarrow> bool \<Rightarrow> nat \<Rightarrow> MaintenanceJobStageStatus \<Rightarrow> MaintenanceJob \<Rightarrow> world
    \<Rightarrow> stage_step outcome \<times> world" where
  "stage_body E key cached i s mtJob w =
     (if ss_Failed s
      then (let (err, w1) = failed_stage E key cached s mtJob w in (Returns (Return err), w1))
      else if ss_Succeeded s then succeeded_stage E key cached s mtJob w
      else if i \<ge> length (spec_stages mtJob) then (Panics IndexOutOfRange, w)
      else (let spec = spec_stages mtJob ! i
            in if ss_Running s
               then (case running_stage E key cached i s spec mtJob w of
                       (Panics p, w1) \<Rightarrow> (Panics p, w1)
                     | (Returns err, w1) \<Rightarrow> (Returns (Return err), w1))
               else idle_stage E key cached i spec mtJob w))"

text \<open>The loop, over the stage statuses of the cached object from the \<open>i\<close>-th on.\<close>

fun schedule_stages :: "env \<Rightarrow> string \<Rightarrow> MaintenanceJobStageStatus list \<Rightarrow> nat \<Rightarrow> MaintenanceJob \<Rightarrow> bool
    \<Rightarrow> world \<Rightarrow> (go_error option) outcome \<times> world" where
  "schedule_stages E key [] i mtJob cached w = (Returns None, w)"
| "schedule_stages E key (s # ss) i mtJob cached w =
     (case stage_body E key cached i s mtJob w of
        (Panics p, w1) \<Rightarrow> (Panics p, w1)
      | (Returns (Return r), w1) \<Rightarrow> (Returns r, w1)
      | (Returns (Continue mtJob1 cached1), w1) \<Rightarrow> schedule_stages E key ss (Suc i) mtJob1 cached1 w1)"

definition scheduleMaintenanceJob :: "env \<Rightarrow> string \<Rightarrow> string \<Rightarrow> world
    \<Rightarrow> (go_error option) outcome \<times> world" where
  "scheduleMaintenanceJob E namespace mtJobName w =
     (case getMaintenanceJobFromCache namespace mtJobName w of
        Inl err \<Rightarrow> (Returns (Some err), w)
      | Inr mtJob \<Rightarrow>
          if jt_SucceededAt (mj_Status mtJob) \<noteq> None \<or> jt_FailedAt (mj_Status mtJob) \<noteq> None
          then (Returns None, w)
          else schedule_stages E (mj_key namespace mtJobName) (status_stages mtJob) 0 mtJob True w)"

section \<open>Histories that grow by calls of one kind\<close>

definition extends :: "(effect \<Rightarrow> bool) \<Rightarrow> world \<Rightarrow> world \<Rightarrow> bool" where
  "extends P w w' \<longleftrightarrow>
     (\<exists>new. writes (wd_Hist w') = new @ writes (wd_Hist w) \<and> (\<forall>e \<in> set new. P e))"

lemma extends_refl [simp]: "extends P w w"
  by (simp add: extends_def)

lemma extends_trans: "extends P a b \<Longrightarrow> extends P b c \<Longrightarrow> extends P a c"
  by (force simp: extends_def)

lemma extends_read [simp]: "\<not> is_write e \<Longrightarrow> extends P w (log_effect e w') = extends P w w'"
  by (simp add: extends_def)

lemma extends_write [simp]: "P e \<Longrightarrow> extends P w w' \<Longrightarrow> extends P w (log_effect e w')"
  unfolding extends_def by (cases "is_write e") (auto intro: exI [of _ "e # _"])

lemma extends_logged [simp]: "\<not> is_write e \<Longrightarrow> extends P (log_effect e w) w' = extends P w w'"
  by (simp add: extends_def)

lemma extends_put [simp]: "extends P w (put_mj k j w') = extends P w w'"
  "extends P w (put_mt n m w') = extends P w w'"
  by (simp_all add: extends_def)

lemma extends_mono: "extends P w w' \<Longrightarrow> (\<And>e. P e \<Longrightarrow> Q e) \<Longrightarrow> extends Q w w'"
  by (force simp: extends_def)

lemma extends_assign [simp]: "extends P w (assign k b j w') = extends P w w'"
  by (simp add: assign_def)

lemma extends_elem:
  "extends P w w' \<Longrightarrow> writes (wd_Hist w') = new @ writes (wd_Hist w) \<Longrightarrow> e \<in> set new \<Longrightarrow> P e"
  by (auto simp: extends_def)

definition is_patch :: "effect \<Rightarrow> bool" where
  "is_patch e \<longleftrightarrow> (\<exists>n p. e = NodePatch n p)"

lemma extends_patch: "patchUpdateNode E old new w = (r, w') \<Longrightarrow> extends is_patch w w'"
  using patch_writes [of E old new w r w'] by (auto simp: extends_def is_patch_def)

lemma extends_getNodes:
  "getNodesByMaintenanceNodeSelectors E n sel w = (r, w') \<Longrightarrow> extends is_patch w w'"
  by (simp add: extends_def getNodes_writes)

lemma extends_drain_loop: "drain_loop E ns w = (r, w') \<Longrightarrow> extends is_patch w w'"
proof (induction ns arbitrary: w)
  case (Cons node ns)
  then show ?case
    by (auto split: if_splits prod.splits option.splits dest!: extends_patch intro: extends_trans)
qed simp

lemma extends_uncordon_loop: "uncordon_loop E ns w = (r, w') \<Longrightarrow> extends is_patch w w'"
proof (induction ns arbitrary: w)
  case (Cons node ns)
  then show ?case
    by (auto split: if_splits prod.splits option.splits dest!: extends_patch intro: extends_trans)
qed simp

lemma extends_drainNodes: "extends is_patch w (snd (drainNodes E j s w))"
  by (auto simp: drainNodes_def split: option.split prod.split sum.split
      dest!: extends_getNodes extends_drain_loop intro: extends_trans)

lemma extends_uncordonNodes: "extends is_patch w (snd (uncordonNodes E j s w))"
  by (auto simp: uncordonNodes_def split: option.split prod.split sum.split
      dest!: extends_getNodes extends_uncordon_loop intro: extends_trans)

section \<open>What the walk over the stages writes\<close>

text \<open>The API server answers a status update with the object it was sent.\<close>

definition echo :: "env \<Rightarrow> bool" where
  "echo E \<longleftrightarrow> (\<forall>h j. case en_MjUpdateStatus E h j of Inl _ \<Rightarrow> True | Inr m \<Rightarrow> m = j)"

definition is_pod_stage :: "MaintenanceStage \<Rightarrow> bool" where
  "is_pod_stage st \<longleftrightarrow> st_Drain st = None \<and> st_Uncordon st = None \<and> st_Pod st \<noteq> None"

text \<open>An object that differs from \<open>c\<close> only in its status, with the same stages by name and the
  same status for each pod stage.\<close>

definition same_job :: "MaintenanceJob \<Rightarrow> MaintenanceJob \<Rightarrow> bool" where
  "same_job c j \<longleftrightarrow> mj_Meta j = mj_Meta c \<and> mj_Spec j = mj_Spec c \<and>
     map ss_Name (status_stages j) = map ss_Name (status_stages c) \<and>
     (\<forall>i < length (spec_stages c). is_pod_stage (spec_stages c ! i) \<longrightarrow>
        status_stages j ! i = status_stages c ! i)"

definition idle :: "MaintenanceJobStageStatus \<Rightarrow> bool" where
  "idle s \<longleftrightarrow> \<not> ss_Failed s \<and> \<not> ss_Succeeded s \<and> \<not> ss_Running s"

text \<open>Stage \<open>i\<close> does not stop the walk: it succeeded, or is an idle stage without a pod.\<close>

definition passed :: "MaintenanceJob \<Rightarrow> nat \<Rightarrow> bool" where
  "passed c i \<longleftrightarrow> (let s = status_stages c ! i in \<not> ss_Failed s \<and>
     (ss_Succeeded s \<or> \<not> ss_Running s \<and> i < length (spec_stages c) \<and> \<not> is_pod_stage (spec_stages c ! i)))"

definition stage_write :: "MaintenanceJob \<Rightarrow> effect \<Rightarrow> bool" where
  "stage_write c e = (case e of
     MjUpdateStatus j \<Rightarrow> same_job c j
   | JobCreate k \<Rightarrow> (\<exists>i < length (spec_stages c). i < length (status_stages c) \<and>
       idle (status_stages c ! i) \<and> is_pod_stage (spec_stages c ! i) \<and>
       generateJob c (spec_stages c ! i) = Returns k \<and> (\<forall>m < i. passed c m))
   | NodePatch n p \<Rightarrow> True
   | _ \<Rightarrow> False)"

lemma stage_write_simps [simp]:
  "stage_write c (MjUpdateStatus j) = same_job c j" "stage_write c (NodePatch n p)"
  by (simp_all add: stage_write_def)

lemma is_patch_stage_write: "is_patch e \<Longrightarrow> stage_write c e"
  by (auto simp: is_patch_def)

lemma same_job_refl [simp]: "same_job c c"
  by (simp add: same_job_def)

lemma set_stages_simps [simp]:
  "mj_Meta (set_stages ss j) = mj_Meta j" "mj_Spec (set_stages ss j) = mj_Spec j"
  "status_stages (set_stages ss j) = ss"
  by (simp_all add: set_stages_def)

lemma same_job_sets [simp]:
  "same_job c (set_FailedAt t j) = same_job c j" "same_job c (set_SucceededAt t j) = same_job c j"
  by (simp_all add: same_job_def set_FailedAt_def set_SucceededAt_def)

lemma same_job_set_stage:
  "same_job c j \<Longrightarrow> \<not> is_pod_stage (spec_stages c ! i) \<Longrightarrow> (\<And>s. ss_Name (f s) = ss_Name s) \<Longrightarrow>
   same_job c (set_stage i f j)"
proof -
  assume j: "same_job c j" and i: "\<not> is_pod_stage (spec_stages c ! i)"
    and f: "\<And>s. ss_Name (f s) = ss_Name s"
  have "map ss_Name ((status_stages j)[i := f (status_stages j ! i)]) = map ss_Name (status_stages j)"
    by (cases "i < length (status_stages j)")
      (auto simp: map_update f intro!: nth_equalityI simp: nth_list_update)
  moreover have "(status_stages j)[i := f (status_stages j ! i)] ! k = status_stages j ! k"
    if "is_pod_stage (spec_stages c ! k)" for k
    using i that by (cases "k = i") auto
  ultimately show ?thesis using j by (simp add: same_job_def set_stage_def)
qed

lemma stage_names [simp]:
  "ss_Name (stage_timed_out t s) = ss_Name s" "ss_Name (stage_failure e s) = ss_Name s"
  "ss_Name (stage_succeeded t s) = ss_Name s" "ss_Name (stage_started t s) = ss_Name s"
  by (simp_all add: stage_timed_out_def stage_failure_def stage_succeeded_def stage_started_def)

lemma generateJob_same: "same_job c j \<Longrightarrow> generateJob j st = generateJob c st"
  by (auto simp: same_job_def generateJob_def split: option.split)

lemma mj_UpdateStatus_result:
  "mj_UpdateStatus E j w = (m, err, w') \<Longrightarrow>
   w' = log_effect (MjUpdateStatus j) w \<and> (echo E \<and> err = None \<longrightarrow> m = j)"
  by (auto simp: mj_UpdateStatus_def echo_def split: sum.splits)

text \<open>A part of a run for the object \<open>c\<close> cached under \<open>key\<close>: it writes only what \<open>stage_write\<close> allows,
  and leaves the cached maintenance jobs alone but for a new status of \<open>c\<close>.\<close>

definition cache_run :: "MaintenanceJob \<Rightarrow> string \<Rightarrow> world \<Rightarrow> world \<Rightarrow> bool" where
  "cache_run c key w w' \<longleftrightarrow> map_of (wd_Mj w') = map_of (wd_Mj w) \<or>
     (\<exists>j. same_job c j \<and> map_of (wd_Mj w') = (map_of (wd_Mj w))(key \<mapsto> j))"

definition stage_run :: "MaintenanceJob \<Rightarrow> string \<Rightarrow> world \<Rightarrow> world \<Rightarrow> bool" where
  "stage_run c key w w' \<longleftrightarrow> extends (stage_write c) w w' \<and> cache_run c key w w'"

lemma stage_run_refl [simp]: "stage_run c key w w"
  by (simp add: stage_run_def cache_run_def)

lemma stage_run_trans: "stage_run c key u v \<Longrightarrow> stage_run c key v w \<Longrightarrow> stage_run c key u w"
  unfolding stage_run_def cache_run_def using extends_trans by (metis fun_upd_upd)

lemma stage_run_read [simp]:
  "\<not> is_write e \<Longrightarrow> stage_run c key w (log_effect e w') = stage_run c key w w'"
  "\<not> is_write e \<Longrightarrow> stage_run c key (log_effect e w) w' = stage_run c key w w'"
  by (simp_all add: stage_run_def cache_run_def)

lemma stage_run_write [simp]:
  "stage_write c e \<Longrightarrow> stage_run c key w w' \<Longrightarrow> stage_run c key w (log_effect e w')"
  by (simp add: stage_run_def cache_run_def)

lemma stage_run_assign [simp]:
  "same_job c j \<Longrightarrow> stage_run c key w w' \<Longrightarrow> stage_run c key w (assign key b j w')"
proof -
  assume j: "same_job c j" and r: "stage_run c key w w'"
  have "map_of (wd_Mj (assign key b j w')) = (if b then (map_of (wd_Mj w'))(key \<mapsto> j) else map_of (wd_Mj w'))"
    by (simp add: assign_def put_mj_def update_conv')
  with j r show ?thesis by (auto simp: stage_run_def cache_run_def)
qed

lemma stage_run_patches:
  "extends is_patch w w' \<Longrightarrow> same_state w w' \<Longrightarrow> stage_run c key w w'"
  using extends_mono [OF _ is_patch_stage_write] by (simp add: stage_run_def cache_run_def same_state_def)

lemma update_stage_run:
  assumes "same_job c j" and "\<not> is_pod_stage (spec_stages c ! i)" and "\<And>s. ss_Name (f s) = ss_Name s"
    and "update_stage E key b i f j w = (r, w')"
  shows "stage_run c key w w' \<and>
    (echo E \<longrightarrow> (\<forall>m. r = Returns (m, None) \<longrightarrow> m = set_stage i f j \<and> same_job c m))"
  using assms(4) same_job_set_stage [OF assms(1-3)]
  by (auto simp: update_stage_def Let_def split: if_splits prod.splits dest!: mj_UpdateStatus_result)

lemma update_stage_err_run:
  assumes "same_job c j" and "\<not> is_pod_stage (spec_stages c ! i)" and "\<And>s. ss_Name (f s) = ss_Name s"
  shows "stage_run c key w (snd (update_stage_err E key b i f j w))"
  using update_stage_run [OF assms, where E = E and key = key and b = b and w = w]
  by (auto simp: update_stage_err_def split: prod.split outcome.split)

lemma failed_stage_run:
  "same_job c j \<Longrightarrow> stage_run c key w (snd (failed_stage E key b s j w))"
  by (auto simp: failed_stage_def Let_def split: prod.split dest!: mj_UpdateStatus_result)

lemma succeeded_stage_run:
  assumes "same_job c j" and "echo E" and "succeeded_stage E key b s j w = (r, w')"
  shows "stage_run c key w w' \<and> (\<forall>m b'. r = Returns (Continue m b') \<longrightarrow> same_job c m)"
  using assms
  by (auto simp: succeeded_stage_def Let_def split: if_splits prod.splits outcome.splits bool.splits
      option.splits dest!: mj_UpdateStatus_result)

lemma running_stage_run:
  assumes "same_job c j" and "spec = spec_stages c ! i"
  shows "stage_run c key w (snd (running_stage E key b i s spec j w))"
proof (cases "is_pod_stage spec")
  case True
  then show ?thesis by (simp add: is_pod_stage_def running_stage_def)
next
  case False
  then have np: "\<not> is_pod_stage (spec_stages c ! i)" using assms(2) by simp
  have nodes: "stage_run c key w w2"
    if "(if st_Drain spec \<noteq> None then drainNodes E j spec (log_effect (Clock t) w)
         else uncordonNodes E j spec (log_effect (Clock t) w)) = (r, w2)" for t r w2
  proof -
    have "extends is_patch (log_effect (Clock t) w) w2 \<and> same_state (log_effect (Clock t) w) w2"
      using that extends_drainNodes [of "log_effect (Clock t) w" E j spec]
        extends_uncordonNodes [of "log_effect (Clock t) w" E j spec]
        drainNodes_same_state [of "log_effect (Clock t) w" E j spec]
        uncordonNodes_same_state [of "log_effect (Clock t) w" E j spec] by (auto split: if_splits)
    then show ?thesis using stage_run_patches by (metis is_write.simps(7) stage_run_read(2))
  qed
  have err: "stage_run c key w (snd (update_stage_err E key b i f j w2))"
    if "stage_run c key w w2" "\<And>s. ss_Name (f s) = ss_Name s" for f w2
    using that update_stage_err_run [OF assms(1) np that(2)] stage_run_trans by blast
  have upd: "stage_run c key w w3"
    if "stage_run c key w w2" "update_stage E key b i (stage_failure e) j w2 = (r, w3)" for e r w2 w3
    using update_stage_run [OF assms(1) np _ that(2)] that(1) stage_run_trans by fastforce
  let ?w1 = "log_effect (Clock (en_Now E (wd_Hist w))) w"
  let ?nodes = "if st_Drain spec \<noteq> None then drainNodes E j spec ?w1 else uncordonNodes E j spec ?w1"
  obtain r w2 where r: "?nodes = (r, w2)" by (cases ?nodes)
  from nodes [OF r] have w2: "stage_run c key w w2" .
  have fin: "stage_run c key w (snd (case r of
      Panics p \<Rightarrow> (Panics p, w2)
    | Returns (Some e) \<Rightarrow> (case update_stage E key b i (stage_failure e) j w2 of
         (Panics p, w3) \<Rightarrow> (Panics p, w3) | (Returns r', w3) \<Rightarrow> (Returns (Some e), w3))
    | Returns None \<Rightarrow> update_stage_err E key b i (stage_succeeded (en_Now E (wd_Hist w2))) j
         (log_effect (Clock (en_Now E (wd_Hist w2))) w2)))"
    using w2 by (auto simp: err split: outcome.split option.split prod.split intro: upd)
  show ?thesis
    unfolding running_stage_def Let_def time_now_eq prod.case r
    using fin by (simp add: err split_beta split: option.split)
qed

lemma idle_stage_run:
  assumes "same_job c j" and "echo E" and "idle_stage E key b i spec j w = (r, w')"
    and "spec = spec_stages c ! i"
    and "is_pod_stage spec \<Longrightarrow> (\<And>k. generateJob c spec = Returns k \<Longrightarrow> stage_write c (JobCreate k))"
  shows "stage_run c key w w' \<and>
    (\<forall>m b'. r = Returns (Continue m b') \<longrightarrow> same_job c m \<and> \<not> is_pod_stage spec)"
proof -
  have upd: "stage_run c key w w3 \<and> (\<forall>m. r = Returns (m, None) \<longrightarrow> same_job c m)"
    if "update_stage E key b i (stage_started t) j (log_effect (Clock t2) (log_effect (Clock t1) w)) = (r, w3)"
      and "st_Drain spec \<noteq> None \<or> st_Uncordon spec \<noteq> None" for t t1 t2 r w3
    using update_stage_run [OF assms(1) _ _ that(1)] assms(2,4) that(2) by (auto simp: is_pod_stage_def)
  have pod: "st_Pod spec \<noteq> None" "generateJob j spec = Returns k \<Longrightarrow> stage_write c (JobCreate k)"
    if "st_Drain spec = None" "st_Uncordon spec = None" "st_Pod spec \<noteq> None" for k
    using that assms(5) [of k] generateJob_same [OF assms(1), of spec]
    by (simp_all add: is_pod_stage_def)
  show ?thesis
    using assms(3) assms(1) pod
    by (auto simp: idle_stage_def Let_def job_Create_def is_pod_stage_def
        split: outcome.splits if_splits prod.splits option.splits dest!: upd)
qed

lemma stage_body_run:
  assumes "same_job c j" and "echo E" and "stage_body E key b i (status_stages c ! i) j w = (r, w')"
    and "i < length (status_stages c)" and "\<forall>m < i. passed c m"
  shows "stage_run c key w w' \<and>
    (\<forall>m b'. r = Returns (Continue m b') \<longrightarrow> same_job c m \<and> passed c i)"
proof -
  let ?s = "status_stages c ! i"
  have spec: "spec_stages j = spec_stages c" using assms(1) by (simp add: same_job_def)
  consider "ss_Failed ?s" | "\<not> ss_Failed ?s" "ss_Succeeded ?s"
    | "\<not> ss_Failed ?s" "\<not> ss_Succeeded ?s" "length (spec_stages c) \<le> i"
    | "\<not> ss_Failed ?s" "\<not> ss_Succeeded ?s" "i < length (spec_stages c)" "ss_Running ?s"
    | "idle ?s" "i < length (spec_stages c)"
    unfolding idle_def using not_le by blast
  then show ?thesis
  proof cases
    case 1
    then show ?thesis using assms(3) failed_stage_run [OF assms(1), where E = E and key = key and b = b and s = ?s and w = w]
      by (auto simp: stage_body_def split: prod.splits)
  next
    case 2
    then show ?thesis using assms(3) succeeded_stage_run [OF assms(1,2), where key = key and b = b and s = ?s and w = w]
      by (simp add: stage_body_def passed_def)
  next
    case 3
    then show ?thesis using assms(3) by (auto simp: stage_body_def spec)
  next
    case 4
    then show ?thesis
      using assms(3) running_stage_run [OF assms(1), where E = E and key = key and b = b and s = ?s and w = w and i = i
          and spec = "spec_stages c ! i"]
      by (auto simp: stage_body_def spec split: prod.splits outcome.splits)
  next
    case 5
    then have "idle_stage E key b i (spec_stages c ! i) j w = (r, w')"
      using assms(3) by (simp add: stage_body_def idle_def spec)
    moreover have "stage_write c (JobCreate k)"
      if "is_pod_stage (spec_stages c ! i)" "generateJob c (spec_stages c ! i) = Returns k" for k
      unfolding stage_write_def using that 5 assms(4,5) by auto
    ultimately have "stage_run c key w w' \<and> (\<forall>m b'. r = Returns (Continue m b') \<longrightarrow>
        same_job c m \<and> \<not> is_pod_stage (spec_stages c ! i))"
      by (intro idle_stage_run [OF assms(1,2)]) simp_all
    then show ?thesis using 5 by (simp add: passed_def idle_def)
  qed
qed

lemma schedule_stages_run:
  assumes "echo E"
  shows "same_job c j \<Longrightarrow> ss = drop i (status_stages c) \<Longrightarrow> \<forall>m < i. passed c m \<Longrightarrow>
    stage_run c key w (snd (schedule_stages E key ss i j b w))"
proof (induction ss arbitrary: i j b w)
  case (Cons s ss)
  then have i: "i < length (status_stages c)" and s: "s = status_stages c ! i"
      and ss: "ss = drop (Suc i) (status_stages c)"
    by (metis drop_all list.distinct(1) not_le_imp_less, metis nth_via_drop, metis drop_Suc list.sel(3) drop_tl)
  obtain r w1 where r: "stage_body E key b i s j w = (r, w1)" by (cases "stage_body E key b i s j w")
  note run = stage_body_run [OF Cons.prems(1) assms r [unfolded s] i Cons.prems(3)]
  show ?case
  proof (cases "\<exists>m b'. r = Returns (Continue m b')")
    case True
    then obtain m b' where m: "r = Returns (Continue m b')" by blast
    with run have "same_job c m" "passed c i" by auto
    then have "stage_run c key w1 (snd (schedule_stages E key ss (Suc i) m b' w1))"
      using Cons.prems(3) by (intro Cons.IH ss) (auto simp: less_Suc_eq)
    with run r m show ?thesis by (auto intro: stage_run_trans)
  next
    case False
    with run r show ?thesis by (auto split: outcome.split stage_step.split)
  qed
qed simp

section \<open>Properties of scheduling a maintenance job\<close>

text \<open>C9: If the API server answers status updates with what it was sent, all a run for a cached
  maintenance job writes are: status updates of that object with the same metadata, specification and stage names
  and an unchanged status of each pod stage, patches of nodes, and creations of the Kubernetes job generated for an idle pod stage; for the
  latter, every earlier stage has succeeded or is an idle stage without a pod, and none has failed.\<close>

theorem job_schedule_writes:
  assumes "echo E" and "map_of (wd_Mj w) (mj_key ns n) = Some c"
  shows "\<exists>new. writes (wd_Hist (snd (scheduleMaintenanceJob E ns n w))) = new @ writes (wd_Hist w) \<and>
    (\<forall>e \<in> set new. stage_write c e)"
  using schedule_stages_run [OF assms(1), of c c "status_stages c" 0 "mj_key ns n" w True] assms(2)
  unfolding extends_def [symmetric]
  by (simp add: scheduleMaintenanceJob_def getMaintenanceJobFromCache_def stage_run_def)

definition sample_stage_pod :: PodTemplateSpec where
  "sample_stage_pod = \<lparr>ps_Meta = zero_ObjectMeta, ps_Affinity = None, ps_NodeName = '''', ps_NodeSelector = None,
     ps_Tolerations = [], ps_RestartPolicy = '''', ps_InitContainers = [], ps_Containers = [], ps_rest = ''''\<rparr>"

definition sample_pod_stage :: MaintenanceStage where
  "sample_pod_stage = \<lparr>st_Name = ''upgrade'', st_Delay = 0, st_Timeout = 60000000000, st_Drain = None,
     st_Uncordon = None, st_Pod = Some sample_stage_pod\<rparr>"

text \<open>A job with a drain and a pod stage, both idle.\<close>

definition sample_two_stages :: MaintenanceJob where
  "sample_two_stages = pad_stages (sample_job\<lparr>mj_Spec := (mj_Spec sample_job)\<lparr>js_Stages :=
     [sample_drain_stage, sample_pod_stage]\<rparr>\<rparr>)"

definition sample_world_mj :: "MaintenanceJob \<Rightarrow> world" where
  "sample_world_mj j = sample_world\<lparr>wd_Mj := [(''ns/mt.n'', j)]\<rparr>"

theorem job_schedule_writes_witness:
  "\<exists>k. JobCreate k \<in> set (writes (wd_Hist (snd
       (scheduleMaintenanceJob sample_env_rec ''ns'' ''mt.n'' (sample_world_mj sample_two_stages))))) \<and>
     stage_write sample_two_stages (JobCreate k)"
proof -
  let ?w' = "snd (scheduleMaintenanceJob sample_env_rec ''ns'' ''mt.n'' (sample_world_mj sample_two_stages))"
  have "case writes (wd_Hist ?w') of JobCreate k # es \<Rightarrow> True | _ \<Rightarrow> False" by code_simp
  then obtain k es where k: "writes (wd_Hist ?w') = JobCreate k # es"
    by (auto split: list.splits effect.splits)
  have "echo sample_env_rec" by (simp add: echo_def sample_env_rec_def)
  moreover have "map_of (wd_Mj (sample_world_mj sample_two_stages)) (mj_key ''ns'' ''mt.n'') = Some sample_two_stages"
    by (simp add: sample_world_mj_def mj_key_def)
  ultimately obtain new where "writes (wd_Hist ?w') = new @ writes (wd_Hist (sample_world_mj sample_two_stages))"
      "\<forall>e \<in> set new. stage_write sample_two_stages e"
    using job_schedule_writes by blast
  moreover have "writes (wd_Hist (sample_world_mj sample_two_stages)) = []"
    by (simp add: sample_world_mj_def sample_world_def)
  ultimately have "stage_write sample_two_stages (JobCreate k)"
    using k by (metis append_Nil2 list.set_intros(1))
  then show ?thesis using k by (metis list.set_intros(1))
qed

text \<open>Stages that have succeeded, as long as the whole job has not.\<close>

definition all_succeeded :: "MaintenanceJobStageStatus list \<Rightarrow> bool" where
  "all_succeeded ss \<longleftrightarrow> (\<forall>s \<in> set ss. ss_Succeeded s \<and> \<not> ss_Failed s \<and> time_set (ss_FinishedAt s))"

lemma schedule_stages_skip:
  "all_succeeded pre \<Longrightarrow> JobSucceeded j = Returns False \<Longrightarrow>
   schedule_stages E key (pre @ ss) i j b w = schedule_stages E key ss (i + length pre) j b w"
proof (induction pre arbitrary: i)
  case (Cons s pre)
  then have "stage_body E key b i s j w = (Returns (Continue j b), w)"
    by (simp add: all_succeeded_def stage_body_def succeeded_stage_def)
  with Cons show ?case by (simp add: all_succeeded_def)
qed simp

definition unfinished :: "MaintenanceJob \<Rightarrow> bool" where
  "unfinished c \<longleftrightarrow> jt_SucceededAt (mj_Status c) = None \<and> jt_FailedAt (mj_Status c) = None \<and>
     JobSucceeded c = Returns False"

text \<open>The run up to the first stage that has not succeeded.\<close>

lemma scheduleMaintenanceJob_at:
  assumes "map_of (wd_Mj w) (mj_key ns n) = Some c" and "unfinished c"
    and "status_stages c = pre @ s # post" and "all_succeeded pre"
  shows "scheduleMaintenanceJob E ns n w =
    schedule_stages E (mj_key ns n) (s # post) (length pre) c True w"
proof -
  have "scheduleMaintenanceJob E ns n w = schedule_stages E (mj_key ns n) (pre @ s # post) 0 c True w"
    using assms(1-3) by (simp add: scheduleMaintenanceJob_def getMaintenanceJobFromCache_def unfinished_def)
  also have "\<dots> = schedule_stages E (mj_key ns n) (s # post) (0 + length pre) c True w"
    using assms(2,4) by (intro schedule_stages_skip) (simp_all add: unfinished_def)
  finally show ?thesis by simp
qed

lemma failed_stage_run_result:
  assumes "time_set (ss_FinishedAt s)"
  shows "failed_stage E key True s c w =
    (case en_MjUpdateStatus E (wd_Hist w) (set_FailedAt (ss_FinishedAt s) c) of Inl e \<Rightarrow> Some e | Inr _ \<Rightarrow> None,
     log_effect (MjUpdateStatus (set_FailedAt (ss_FinishedAt s) c))
       (put_mj key (set_FailedAt (ss_FinishedAt s) c) w))"
  using assms unfolding failed_stage_def mj_UpdateStatus_def assign_def Let_def
  by (simp split: sum.split)

text \<open>Fail fast: when the first stage that has not succeeded failed at a known time, the run sets
  \<open>FailedAt\<close> to that time with one status update, in the cached object too, so that the next run
  does nothing.\<close>

lemma failed_stage_fails_job:
  assumes "map_of (wd_Mj w) (mj_key ns n) = Some c" and "unfinished c"
    and "status_stages c = pre @ s # post" and "all_succeeded pre"
    and "ss_Failed s" and "time_set (ss_FinishedAt s)"
  shows "let w1 = snd (scheduleMaintenanceJob E ns n w) in
    writes (wd_Hist w1) = MjUpdateStatus (set_FailedAt (ss_FinishedAt s) c) # writes (wd_Hist w) \<and>
    map_of (wd_Mj w1) (mj_key ns n) = Some (set_FailedAt (ss_FinishedAt s) c) \<and>
    scheduleMaintenanceJob E ns n w1 = (Returns None, w1)"
proof -
  let ?c = "set_FailedAt (ss_FinishedAt s) c"
  obtain e where run: "scheduleMaintenanceJob E ns n w =
      (Returns e, log_effect (MjUpdateStatus ?c) (put_mj (mj_key ns n) ?c w))"
    using assms(5) failed_stage_run_result [OF assms(6), of E "mj_key ns n" c w]
    unfolding scheduleMaintenanceJob_at [OF assms(1-4)] by (auto simp: stage_body_def)
  have "jt_FailedAt (mj_Status ?c) \<noteq> None" using assms(6) by (simp add: set_FailedAt_def)
  then have "scheduleMaintenanceJob E ns n w2 = (Returns None, w2)"
    if "map_of (wd_Mj w2) (mj_key ns n) = Some ?c" for w2
    using that by (simp add: scheduleMaintenanceJob_def getMaintenanceJobFromCache_def)
  then show ?thesis by (simp add: run)
qed

definition sample_failed :: MaintenanceJob where
  "sample_failed = set_stages [(new_stage_status ''a'')\<lparr>ss_Failed := True, ss_FinishedAt := Some 7\<rparr>] sample_job"

lemma failed_stage_fails_job_witness:
  "writes (wd_Hist (snd (scheduleMaintenanceJob sample_env_rec ''ns'' ''mt.n'' (sample_world_mj sample_failed)))) =
     [MjUpdateStatus (set_FailedAt (Some 7) sample_failed)]"
proof -
  let ?s = "(new_stage_status ''a'')\<lparr>ss_Failed := True, ss_FinishedAt := Some 7\<rparr>"
  have "unfinished sample_failed"
    by (simp add: unfinished_def sample_failed_def set_stages_def sample_job_def zero_MaintenanceJob_def
        job_test_defs)
  moreover have "map_of (wd_Mj (sample_world_mj sample_failed)) (mj_key ''ns'' ''mt.n'') = Some sample_failed"
    "status_stages sample_failed = [] @ ?s # []" "writes (wd_Hist (sample_world_mj sample_failed)) = []"
    by (simp_all add: sample_world_mj_def mj_key_def sample_failed_def sample_world_def)
  ultimately show ?thesis
    using failed_stage_fails_job [of "sample_world_mj sample_failed" "''ns''" "''mt.n''" sample_failed "[]" ?s "[]"
        sample_env_rec]
    by (simp add: all_succeeded_def time_IsZero_def Let_def)
qed

lemma idle_pod_stage:
  assumes "is_pod_stage spec" and "generateJob j spec = Returns k" and "prevFinishedAt i j = Returns p"
    and "\<not> en_Now E (wd_Hist w) < time_Add p (st_Delay spec)"
  shows "\<exists>r. idle_stage E key b i spec j w = (Returns (Return r),
    log_effect (JobCreate k) (log_effect (Clock (en_Now E (wd_Hist w))) w))"
  using assms unfolding idle_stage_def is_pod_stage_def job_Create_def time_Before_def Let_def
  by (simp split: option.split)

text \<open>C35: A stage that drains or uncordons does not hold up the stages behind it: in the run that starts it, an
  idle pod stage right behind it gets its Kubernetes job as well, before any node has been
  patched, even though its own delay, counted from the end of the previous stage, cannot be
  known yet (the code counts it from the zero time).\<close>

theorem drain_stage_overlaps_next:
  assumes "map_of (wd_Mj w) (mj_key ns n) = Some c" and "unfinished c"
    and "status_stages c = pre @ s1 # s2 # post" and "all_succeeded pre" and "idle s1" and "idle s2"
    and "spec_stages c = spre @ sp1 # sp2 # spost" and "length spre = length pre"
    and "st_Drain sp1 \<noteq> None \<or> st_Uncordon sp1 \<noteq> None"
    and "is_pod_stage sp2"
    and "prevFinishedAt (length pre) c = Returns prev" and "time_Add prev (st_Delay sp1) \<le> en_Now E (wd_Hist w)"
    and "\<not> time_set (ss_FinishedAt s1)" and "\<And>h. time_Add 0 (st_Delay sp2) \<le> en_Now E h"
    and "\<And>h j. en_MjUpdateStatus E h j = Inr j"
  shows "\<exists>t k. generateJob c sp2 = Returns k \<and>
    writes (wd_Hist (snd (scheduleMaintenanceJob E ns n w))) =
      [JobCreate k, MjUpdateStatus (set_stage (length pre) (stage_started t) c)] @ writes (wd_Hist w)"
proof -
  let ?i = "length pre" let ?now = "en_Now E (wd_Hist w)"
  let ?w1 = "log_effect (Clock ?now) w" let ?t = "en_Now E (wd_Hist ?w1)"
  let ?c = "set_stage ?i (stage_started ?t) c"
  let ?w2 = "log_effect (MjUpdateStatus ?c) (put_mj (mj_key ns n) ?c (log_effect (Clock ?t) ?w1))"
  have b1: "stage_body E (mj_key ns n) True ?i s1 c w = (Returns (Continue ?c False), ?w2)"
    using assms(3,5,7,8,9,11,12,15)
    by (auto simp: stage_body_def idle_def idle_stage_def update_stage_def assign_def
        mj_UpdateStatus_def time_Before_def Let_def nth_append)
  have "\<not> is_pod_stage (spec_stages c ! ?i)" using assms(7-9) by (auto simp: is_pod_stage_def nth_append)
  then have same: "same_job c ?c" by (simp add: same_job_set_stage)
  obtain k where k: "generateJob c sp2 = Returns k"
    using assms(10) by (auto simp: generateJob_def is_pod_stage_def)
  then have k': "generateJob ?c sp2 = Returns k" using generateJob_same [OF same] by simp
  have prev: "prevFinishedAt (Suc ?i) ?c = Returns 0"
    using assms(3,13) by (auto simp: prevFinishedAt_def set_stage_def stage_started_def nth_append Let_def)
  have spec: "spec_stages ?c = spre @ sp1 # sp2 # spost" using same assms(7) by (simp add: same_job_def)
  let ?w3 = "log_effect (Clock (en_Now E (wd_Hist ?w2))) ?w2"
  obtain r where b2: "stage_body E (mj_key ns n) False (Suc ?i) s2 ?c ?w2 =
      (Returns (Return r), log_effect (JobCreate k) ?w3)"
    using idle_pod_stage [OF assms(10) k' prev, of E ?w2 "mj_key ns n" False] assms(14) [of "wd_Hist ?w2"]
      assms(6,8) spec
    by (auto simp: stage_body_def idle_def nth_append not_less)
  have "snd (scheduleMaintenanceJob E ns n w) = log_effect (JobCreate k) ?w3"
    using scheduleMaintenanceJob_at [OF assms(1-4)] b1 b2 by simp
  then show ?thesis using k by (intro exI [of _ ?t] exI [of _ k]) simp
qed

theorem drain_stage_overlaps_next_witness:
  "\<exists>k t. writes (wd_Hist (snd (scheduleMaintenanceJob sample_env_rec ''ns'' ''mt.n'' (sample_world_mj sample_two_stages)))) =
     [JobCreate k, MjUpdateStatus (set_stage 0 (stage_started t) sample_two_stages)]"
proof -
  have "unfinished sample_two_stages"
    by (simp add: unfinished_def sample_two_stages_def pad_stages_def sample_job_def zero_MaintenanceJob_def
        job_test_defs set_stages_def new_stage_status_def)
  moreover have "map_of (wd_Mj (sample_world_mj sample_two_stages)) (mj_key ''ns'' ''mt.n'') = Some sample_two_stages"
    "writes (wd_Hist (sample_world_mj sample_two_stages)) = []"
    by (simp_all add: sample_world_mj_def mj_key_def sample_world_def)
  moreover have "status_stages sample_two_stages = [] @ new_stage_status ''drain'' # new_stage_status ''upgrade'' # []"
    "spec_stages sample_two_stages = [] @ sample_drain_stage # sample_pod_stage # []"
    "prevFinishedAt (length []) sample_two_stages = Returns 0"
    by (simp_all add: sample_two_stages_def pad_stages_def sample_job_def zero_MaintenanceJob_def
        prevFinishedAt_def sample_drain_stage_def sample_pod_stage_def zero_ObjectMeta_def)
  ultimately show ?thesis
    using drain_stage_overlaps_next [of "sample_world_mj sample_two_stages" "''ns''" "''mt.n''" sample_two_stages
        "[]" "new_stage_status ''drain''" "new_stage_status ''upgrade''" "[]" "[]" sample_drain_stage
        sample_pod_stage "[]" 0 sample_env_rec]
    by (auto simp: all_succeeded_def idle_def new_stage_status_def sample_drain_stage_def sample_pod_stage_def
        is_pod_stage_def time_Add_def sample_env_rec_def)
qed

lemma update_stage_err_result:
  assumes "i < length (status_stages c)"
  shows "update_stage_err E key True i f c w =
    (Returns (case en_MjUpdateStatus E (wd_Hist w) (set_stage i f c) of Inl e \<Rightarrow> Some e | Inr _ \<Rightarrow> None),
     log_effect (MjUpdateStatus (set_stage i f c)) (put_mj key (set_stage i f c) w))"
  using assms unfolding update_stage_err_def update_stage_def mj_UpdateStatus_def assign_def Let_def
  by (simp split: sum.split)

text \<open>A draining or uncordoning stage that runs past its timeout is marked failed with the reason
  \<open>Timeout\<close> by one status update, and no node is patched.\<close>

lemma running_stage_times_out:
  assumes "map_of (wd_Mj w) (mj_key ns n) = Some c" and "unfinished c"
    and "status_stages c = pre @ s # post" and "all_succeeded pre"
    and "ss_Running s" and "\<not> ss_Failed s" and "\<not> ss_Succeeded s"
    and "spec_stages c = spre @ spec # spost" and "length spre = length pre"
    and "st_Drain spec \<noteq> None \<or> st_Uncordon spec \<noteq> None"
    and "ss_ScheduledAt s = Some at" and "time_Add at (st_Timeout spec) < en_Now E (wd_Hist w)"
  shows "\<exists>t. writes (wd_Hist (snd (scheduleMaintenanceJob E ns n w))) =
    MjUpdateStatus (set_stage (length pre) (stage_timed_out t) c) # writes (wd_Hist w)"
proof -
  let ?i = "length pre" let ?w1 = "log_effect (Clock (en_Now E (wd_Hist w))) w"
  let ?w2 = "log_effect (Event EventTypeNormal ''StageTimeout'' (mj_Name c)) ?w1"
  let ?t = "en_Now E (wd_Hist ?w2)"
  obtain r where "stage_body E (mj_key ns n) True ?i s c w =
      (Returns (Return r), log_effect (MjUpdateStatus (set_stage ?i (stage_timed_out ?t) c))
        (put_mj (mj_key ns n) (set_stage ?i (stage_timed_out ?t) c) (log_effect (Clock ?t) ?w2)))"
    using assms(3,5-12)
    by (auto simp: stage_body_def running_stage_def update_stage_err_result time_After_def Let_def
        nth_append)
  then show ?thesis using scheduleMaintenanceJob_at [OF assms(1-4)] by (intro exI [of _ ?t]) simp
qed

text \<open>A run that finds an uncordon stage running and within its timeout panics without any write
  (the stage has no drain specification, which the code dereferences), so that such a stage can
  never succeed.\<close>

lemma running_uncordon_panics:
  assumes "map_of (wd_Mj w) (mj_key ns n) = Some c" and "unfinished c"
    and "status_stages c = pre @ s # post" and "all_succeeded pre"
    and "ss_Running s" and "\<not> ss_Failed s" and "\<not> ss_Succeeded s"
    and "spec_stages c = spre @ spec # spost" and "length spre = length pre"
    and "st_Drain spec = None" and "st_Uncordon spec \<noteq> None"
    and "ss_ScheduledAt s = Some at" and "en_Now E (wd_Hist w) \<le> time_Add at (st_Timeout spec)"
  shows "fst (scheduleMaintenanceJob E ns n w) = Panics NilDereference \<and>
    writes (wd_Hist (snd (scheduleMaintenanceJob E ns n w))) = writes (wd_Hist w)"
proof -
  have "stage_body E (mj_key ns n) True (length pre) s c w =
      (Panics NilDereference, log_effect (Clock (en_Now E (wd_Hist w))) w)"
    using assms(5-13)
    by (simp add: stage_body_def running_stage_def uncordonNodes_def time_After_def Let_def nth_append)
  then show ?thesis using scheduleMaintenanceJob_at [OF assms(1-4)] by simp
qed

definition sample_uncordon_job :: MaintenanceJob where
  "sample_uncordon_job = set_stages [(new_stage_status ''uncordon'')\<lparr>ss_Running := True, ss_ScheduledAt := Some 90\<rparr>]
     (sample_job\<lparr>mj_Spec := (mj_Spec sample_job)\<lparr>js_Stages := [sample_uncordon_stage]\<rparr>\<rparr>)"

lemma running_uncordon_panics_witness:
  "fst (scheduleMaintenanceJob sample_env_rec ''ns'' ''mt.n'' (sample_world_mj sample_uncordon_job)) =
     Panics NilDereference"
proof (rule running_uncordon_panics [where c = sample_uncordon_job and pre = "[]" and spre = "[]" and post = "[]"
      and spost = "[]" and s = "(new_stage_status ''uncordon'')\<lparr>ss_Running := True, ss_ScheduledAt := Some 90\<rparr>"
      and spec = sample_uncordon_stage and at = 90, THEN conjunct1])
  show "unfinished sample_uncordon_job"
    by (simp add: unfinished_def sample_uncordon_job_def set_stages_def sample_job_def zero_MaintenanceJob_def
        job_test_defs new_stage_status_def)
qed (simp_all add: sample_world_mj_def mj_key_def sample_uncordon_job_def all_succeeded_def new_stage_status_def
    sample_uncordon_stage_def sample_drain_stage_def time_Add_def sample_env_rec_def)

text \<open>The same for a stage that times out.\<close>

definition sample_overdue_job :: MaintenanceJob where
  "sample_overdue_job = set_stages [(new_stage_status ''drain'')\<lparr>ss_Running := True, ss_ScheduledAt := Some (- 4000000000000)\<rparr>]
     (sample_job\<lparr>mj_Spec := (mj_Spec sample_job)\<lparr>js_Stages := [sample_drain_stage]\<rparr>\<rparr>)"

lemma running_stage_times_out_witness:
  "\<exists>t. writes (wd_Hist (snd (scheduleMaintenanceJob sample_env_rec ''ns'' ''mt.n'' (sample_world_mj sample_overdue_job)))) =
     [MjUpdateStatus (set_stage 0 (stage_timed_out t) sample_overdue_job)]"
proof -
  let ?s = "(new_stage_status ''drain'')\<lparr>ss_Running := True, ss_ScheduledAt := Some (- 4000000000000)\<rparr>"
  have "unfinished sample_overdue_job"
    by (simp add: unfinished_def sample_overdue_job_def set_stages_def sample_job_def zero_MaintenanceJob_def
        job_test_defs new_stage_status_def)
  moreover have "map_of (wd_Mj (sample_world_mj sample_overdue_job)) (mj_key ''ns'' ''mt.n'') = Some sample_overdue_job"
    "status_stages sample_overdue_job = [] @ ?s # []" "spec_stages sample_overdue_job = [] @ sample_drain_stage # []"
    "writes (wd_Hist (sample_world_mj sample_overdue_job)) = []"
    by (simp_all add: sample_world_mj_def mj_key_def sample_overdue_job_def sample_world_def)
  ultimately show ?thesis
    using running_stage_times_out [of "sample_world_mj sample_overdue_job" "''ns''" "''mt.n''" sample_overdue_job
        "[]" ?s "[]" "[]" sample_drain_stage "[]" "- 4000000000000" sample_env_rec]
    by (simp add: all_succeeded_def new_stage_status_def sample_drain_stage_def time_Add_def sample_env_rec_def)
qed

text \<open>The walk over stages that have all succeeded.\<close>

lemma JobSucceeded_set [simp]: "JobSucceeded (set_SucceededAt t j) = JobSucceeded j"
  by (simp add: JobSucceeded_def last_stage_test_def set_SucceededAt_def)

lemma set_SucceededAt_twice [simp]: "set_SucceededAt t (set_SucceededAt u j) = set_SucceededAt t j"
  by (simp add: set_SucceededAt_def)

lemma schedule_stages_all_succeeded:
  assumes "\<And>h j. en_MjUpdateStatus E h j = Inr j"
  shows "all_succeeded ss \<Longrightarrow> JobSucceeded j = Returns True \<Longrightarrow>
    fst (schedule_stages E key ss i j b w) = Returns None \<and>
    writes (wd_Hist (snd (schedule_stages E key ss i j b w))) =
      rev (map (\<lambda>s. MjUpdateStatus (set_SucceededAt (ss_FinishedAt s) j)) ss) @ writes (wd_Hist w)"
proof (induction ss arbitrary: i j b w)
  case (Cons s ss)
  let ?j = "set_SucceededAt (ss_FinishedAt s) j"
  let ?w = "log_effect (MjUpdateStatus ?j) (assign key b ?j w)"
  have "stage_body E key b i s j w = (Returns (Continue ?j False), ?w)"
    using Cons.prems by (simp add: all_succeeded_def stage_body_def succeeded_stage_def mj_UpdateStatus_def
        assms Let_def)
  moreover have "wd_Hist (assign key b ?j w) = wd_Hist w" by (simp add: assign_def)
  moreover have "all_succeeded ss" "JobSucceeded ?j = Returns True"
    using Cons.prems by (simp_all add: all_succeeded_def)
  ultimately show ?case using Cons.IH [of ?j "Suc i" False ?w] by simp
qed simp

text \<open>When all stages have succeeded, the run marks the maintenance job as succeeded once for
  every stage: it makes as many status updates as there are stages, with the finishing time of each
  stage in turn, and only the last one carries the time at which the job really ended.\<close>

lemma success_updates_per_stage:
  assumes "map_of (wd_Mj w) (mj_key ns n) = Some c"
    and "jt_SucceededAt (mj_Status c) = None" and "jt_FailedAt (mj_Status c) = None"
    and "all_succeeded (status_stages c)" and "status_stages c \<noteq> []"
    and "length (status_stages c) = length (spec_stages c)"
    and "\<And>h j. en_MjUpdateStatus E h j = Inr j"
  shows "fst (scheduleMaintenanceJob E ns n w) = Returns None \<and>
    writes (wd_Hist (snd (scheduleMaintenanceJob E ns n w))) =
      rev (map (\<lambda>s. MjUpdateStatus (set_SucceededAt (ss_FinishedAt s) c)) (status_stages c)) @ writes (wd_Hist w)"
proof -
  have "spec_stages c \<noteq> []" using assms(5,6) by auto
  then have "JobSucceeded c = Returns True"
    using assms(4-6) by (simp add: JobSucceeded_def last_stage_test_ok all_succeeded_def)
  then show ?thesis
    using schedule_stages_all_succeeded [OF assms(7) assms(4)] assms(1-3)
    by (simp add: scheduleMaintenanceJob_def getMaintenanceJobFromCache_def)
qed

definition sample_succeeded :: MaintenanceJob where
  "sample_succeeded = set_stages
     [(new_stage_status ''drain'')\<lparr>ss_Succeeded := True, ss_FinishedAt := Some 7\<rparr>,
      (new_stage_status ''upgrade'')\<lparr>ss_Succeeded := True, ss_FinishedAt := Some 9\<rparr>] sample_two_stages"

lemma success_updates_per_stage_witness:
  "writes (wd_Hist (snd (scheduleMaintenanceJob sample_env_rec ''ns'' ''mt.n'' (sample_world_mj sample_succeeded)))) =
     [MjUpdateStatus (set_SucceededAt (Some 9) sample_succeeded), MjUpdateStatus (set_SucceededAt (Some 7) sample_succeeded)]"
  using success_updates_per_stage [of "sample_world_mj sample_succeeded" "''ns''" "''mt.n''" sample_succeeded sample_env_rec]
  by (simp add: sample_world_mj_def mj_key_def sample_succeeded_def sample_two_stages_def pad_stages_def
      set_stages_def sample_job_def zero_MaintenanceJob_def all_succeeded_def new_stage_status_def
      time_IsZero_def sample_env_rec_def sample_world_def)

section \<open>Properties of the enqueueing and of \<open>onMaintenanceJobAdded\<close>\<close>

text \<open>A job still has something to schedule: none of the stages up to the first running one has
  failed, and not all stages before it (of all of them) have succeeded.\<close>

definition wants_scheduling :: "MaintenanceJob \<Rightarrow> bool" where
  "wants_scheduling j \<longleftrightarrow>
     (let before = takeWhile (\<lambda>s. \<not> ss_Running s) (status_stages j);
          upto = take (Suc (length before)) (status_stages j)
      in list_all (\<lambda>s. \<not> ss_Failed s) upto \<and>
         length (filter ss_Succeeded before) \<noteq> length (spec_stages j))"

lemma finished_count_eq:
  "finished_count ss n =
     (let before = takeWhile (\<lambda>s. \<not> ss_Running s) ss
      in if list_all (\<lambda>s. \<not> ss_Failed s) (take (Suc (length before)) ss)
         then Some (n + length (filter ss_Succeeded before)) else None)"
  by (induction ss arbitrary: n) (auto simp: Let_def)

text \<open>A cached maintenance job is enqueued, by a running queue that accepts it, exactly when it still has
  something to schedule. The queue is not asked whether it holds the job already, so that each
  call adds one entry more; nothing else changes and nothing is written.\<close>

lemma job_enqueue_exact:
  assumes "map_of (wd_Mj w) (mj_key ns n) = Some c" and "accepts n (wd_MjTQ w)"
  shows "let (err, w1) = enqueueMaintenanceJobForScheduling E ns n d w in
    err = None \<and> writes (wd_Hist w1) = writes (wd_Hist w) \<and> wd_Mj w1 = wd_Mj w \<and>
    tq_keys (wd_MjTQ w1) = tq_keys (wd_MjTQ w) @ (if wants_scheduling c then [n] else [])"
proof -
  have "fst (mjTQ_offer_delay E n d w) = None" and
    "tq_keys (wd_MjTQ (snd (mjTQ_offer_delay E n d w))) = tq_keys (wd_MjTQ w) @ [n]"
    using accepts_offer [OF assms(2), where v = "()"]
    by (simp_all add: mjTQ_offer_delay_def OfferWithDelay_def Let_def split_beta tq_keys_offer)
  then show ?thesis
    using assms(1)
    by (auto simp: enqueueMaintenanceJobForScheduling_def getMaintenanceJobFromCache_def
        finished_count_eq wants_scheduling_def Let_def split_beta)
qed

lemma job_enqueue_exact_witness:
  "tq_keys (wd_MjTQ (snd (enqueueMaintenanceJobForScheduling sample_env_rec ''ns'' ''mt.n'' 5
      (sample_world_mj sample_two_stages)))) = [''mt.n'']"
proof -
  have "map_of (wd_Mj (sample_world_mj sample_two_stages)) (mj_key ''ns'' ''mt.n'') = Some sample_two_stages"
    "accepts ''mt.n'' (wd_MjTQ (sample_world_mj sample_two_stages))"
    "tq_keys (wd_MjTQ (sample_world_mj sample_two_stages)) = []"
    by (simp_all add: sample_world_mj_def mj_key_def sample_world_def accepts_def NewTimeoutQueue_def tq_Start_def)
  moreover have "wants_scheduling sample_two_stages" by code_simp
  ultimately show ?thesis
    using job_enqueue_exact [of "sample_world_mj sample_two_stages" "''ns''" "''mt.n''" sample_two_stages
        sample_env_rec 5]
    by (simp add: split_beta Let_def)
qed

lemma pad_stages_simps [simp]:
  "mj_Meta (pad_stages j) = mj_Meta j" "mj_Spec (pad_stages j) = mj_Spec j"
  "length (status_stages (pad_stages j)) = max (length (status_stages j)) (length (spec_stages j))"
  by (simp_all add: pad_stages_def)

lemma enqueue_job_frame [frame_simps, simp]:
  "wd_Mt (snd (enqueueMaintenanceJobForScheduling E ns n d w)) = wd_Mt w"
  "wd_Mj (snd (enqueueMaintenanceJobForScheduling E ns n d w)) = wd_Mj w"
  "wd_MtTQ (snd (enqueueMaintenanceJobForScheduling E ns n d w)) = wd_MtTQ w"
  "writes (wd_Hist (snd (enqueueMaintenanceJobForScheduling E ns n d w))) = writes (wd_Hist w)"
  by (auto simp: enqueueMaintenanceJobForScheduling_def split: sum.split option.split)

lemma enqueue_job_resultD:
  "enqueueMaintenanceJobForScheduling E ns n d w = (r, w') \<Longrightarrow>
   wd_Mj w' = wd_Mj w \<and> wd_Mt w' = wd_Mt w \<and> wd_MtTQ w' = wd_MtTQ w \<and>
   writes (wd_Hist w') = writes (wd_Hist w)"
  using enqueue_job_frame [of E ns n d w] by simp

lemma onMaintenanceJobAdded_writes:
  "writes (wd_Hist (snd (onMaintenanceJobAdded E j w))) =
     (if length (status_stages j) < length (spec_stages j) then [MjUpdateStatus (pad_stages j)] else [])
     @ writes (wd_Hist w)"
  by (auto simp: onMaintenanceJobAdded_def JobFinished_def last_stage_test_def mj_UpdateStatus_def Let_def
      split: outcome.split bool.split sum.split option.split prod.split dest!: enqueue_job_resultD)

text \<open>A new maintenance job whose status lists fewer stages than its specification gets exactly
  one status update, which appends an idle status for each missing stage, named after it, and
  keeps the ones there, the metadata and the specification. Any other job gets none.\<close>

lemma job_added_pads_status:
  "writes (wd_Hist (snd (onMaintenanceJobAdded E j w))) =
     (if length (status_stages j) < length (spec_stages j) then [MjUpdateStatus (pad_stages j)] else [])
     @ writes (wd_Hist w) \<and>
   mj_Meta (pad_stages j) = mj_Meta j \<and> mj_Spec (pad_stages j) = mj_Spec j \<and>
   length (status_stages (pad_stages j)) = max (length (status_stages j)) (length (spec_stages j)) \<and>
   take (length (status_stages j)) (status_stages (pad_stages j)) = status_stages j \<and>
   map ss_Name (drop (length (status_stages j)) (status_stages (pad_stages j))) =
     map st_Name (drop (length (status_stages j)) (spec_stages j)) \<and>
   list_all idle (drop (length (status_stages j)) (status_stages (pad_stages j)))"
  by (simp add: onMaintenanceJobAdded_writes)
    (simp add: pad_stages_def new_stage_status_def idle_def list_all_iff)

end
