(* ===== verification/KubeJobs.thy ===== *)
theory KubeJobs
  imports MaintenanceJobs
begin

text \<open>
  The reconcile handlers of Kubernetes jobs (\<open>job.go\<close>): \<open>onJobUpdated\<close> computes the status of
  the stage the job stands for and is meant to store it in the maintenance job.
\<close>

section \<open>\<open>onJobUpdated\<close>\<close>

definition onJobAdded :: "env \<Rightarrow> KJob \<Rightarrow> world \<Rightarrow> Result option \<times> world" where
  "onJobAdded E job w = (None, w)"

text \<open>The new status of the stage; the clock is read when the job ended without a completion time.\<close>

definition job_finish_time :: "env \<Rightarrow> KJob \<Rightarrow> world \<Rightarrow> mtime \<times> world" where
  "job_finish_time E newJob w =
     (if kj_Succeeded newJob = 1 \<or> kj_Failed newJob = 1
      then (case kj_CompletionTime newJob of
              Some t \<Rightarrow> (Some t, w)
            | None \<Rightarrow> (let (t, w1) = time_now E w in (Some t, w1)))
      else (None, w))"

definition new_stage_of_job :: "env \<Rightarrow> KJob \<Rightarrow> string \<Rightarrow> world \<Rightarrow> MaintenanceJobStageStatus \<times> world" where
  "new_stage_of_job E newJob stageName w =
     (let (finishedAt, w1) = job_finish_time E newJob w;
          conds = kj_Conditions newJob
      in (\<lparr>ss_Name = stageName,
           ss_ScheduledAt = Some (om_CreationTimestamp (kj_Meta newJob)),
           ss_FinishedAt = finishedAt,
           ss_Message = (if conds \<noteq> [] then jc_Message (last conds) else ''''),
           ss_Reason = (if conds \<noteq> [] then jc_Reason (last conds) else ''''),
           ss_Running = (kj_Active newJob = 1),
           ss_Succeeded = (kj_Succeeded newJob = 1),
           ss_Failed = (kj_Failed newJob = 1)\<rparr>, w1))"

text \<open>The \<open>switch\<close>: its \<open>default\<close> case is reached when no case holds. The fifth case compares the
  old finishing time with itself, as the code does.\<close>

definition switch_default :: "MaintenanceJobStageStatus \<Rightarrow> MaintenanceJobStageStatus \<Rightarrow> bool" where
  "switch_default old new \<longleftrightarrow>
     (if mtime_Equal (ss_ScheduledAt old) (ss_ScheduledAt new) then False
      else if ss_Running old = ss_Running new then False
      else if ss_Succeeded old = ss_Succeeded new then False
      else if ss_Failed old = ss_Failed new then False
      else if mtime_Equal (ss_FinishedAt old) (ss_FinishedAt old) then False
      else if ss_Reason old = ss_Reason new then False
      else if ss_Message old = ss_Message new then False
      else True)"

text \<open>The loop over the stage statuses: \<open>needToUpdate\<close>, the statuses and the world after it.\<close>

fun sync_stages :: "env \<Rightarrow> KJob \<Rightarrow> string \<Rightarrow> MaintenanceJobStageStatus list \<Rightarrow> bool \<Rightarrow> world
    \<Rightarrow> bool \<times> MaintenanceJobStageStatus list \<times> world" where
  "sync_stages E newJob stageName [] needToUpdate w = (needToUpdate, [], w)"
| "sync_stages E newJob stageName (s # ss) needToUpdate w =
     (if ss_Name s \<noteq> stageName
      then (let (need, ss', w1) = sync_stages E newJob stageName ss needToUpdate w in (need, s # ss', w1))
      else if time_set (ss_FinishedAt s) then (needToUpdate, s # ss, w)
      else (let (s', w1) = new_stage_of_job E newJob stageName w;
                need1 = (if switch_default s s' then True else needToUpdate);
                (need, ss', w2) = sync_stages E newJob stageName ss need1 w1
            in (need, s' # ss', w2)))"

text \<open>After the lookup of the maintenance job.\<close>

definition sync_job :: "env \<Rightarrow> KJob \<Rightarrow> string \<Rightarrow> MaintenanceJob \<Rightarrow> world \<Rightarrow> Result option \<times> world" where
  "sync_job E newJob stageName mtJob w =
     (let (needToUpdate, ss, w1) = sync_stages E newJob stageName (status_stages mtJob) False w
      in if \<not> needToUpdate then (None, w1)
         else (let (m, err, w2) = mj_UpdateStatus E (set_stages ss mtJob) w1
               in case err of Some e \<Rightarrow> (Some (result_err e), w2) | None \<Rightarrow> (None, w2)))"

definition onJobUpdated :: "env \<Rightarrow> KJob \<Rightarrow> world \<Rightarrow> Result option \<times> world" where
  "onJobUpdated E newJob w =
     (case GetControllerOf (kj_Meta newJob) of
        None \<Rightarrow> (None, w)
      | Some ownerRef \<Rightarrow>
          if or_Kind ownerRef \<noteq> ''MaintenanceJob'' then (None, w)
          else if om_Labels (kj_Meta newJob) = [] then (None, w)
          else
            (case map_of (om_Labels (kj_Meta newJob)) LabelMaintenanceStage of
               None \<Rightarrow> (None, w)
             | Some stageName \<Rightarrow>
                 (case map_of (wd_Mj w) (mj_key (om_Namespace (kj_Meta newJob)) (or_Name ownerRef)) of
                    None \<Rightarrow> (None, w)
                  | Some mtJob \<Rightarrow> sync_job E newJob stageName mtJob w)))"

definition onJobDeleting :: "env \<Rightarrow> KJob \<Rightarrow> world \<Rightarrow> Result option \<times> world" where
  "onJobDeleting E job w = (None, w)"

definition onJobDeleted :: "env \<Rightarrow> KJob \<Rightarrow> world \<Rightarrow> Result option \<times> world" where
  "onJobDeleted E job w = (None, w)"

section \<open>Properties\<close>

lemma switch_default_never: "\<not> switch_default old new"
  by (simp add: switch_default_def)

lemma new_stage_of_job_world:
  "new_stage_of_job E k n w = (s, w') \<Longrightarrow>
   writes (wd_Hist w') = writes (wd_Hist w) \<and> same_state w w'"
  by (auto simp: new_stage_of_job_def job_finish_time_def Let_def split: if_splits option.splits)

lemma sync_stages_never:
  "sync_stages E k n ss need w = (need', ss', w') \<Longrightarrow>
   need' = need \<and> writes (wd_Hist w') = writes (wd_Hist w) \<and> same_state w w'"
  by (induction ss arbitrary: need w ss' w' need')
    (auto simp: switch_default_never Let_def split: if_splits prod.splits
      dest!: new_stage_of_job_world intro: same_state_trans)

text \<open>The handler of updated Kubernetes jobs never stores anything: whatever the job and the caches, it
  makes no write, changes no cache and no queue and asks for no retry. Its test for a change only
  passes if a finishing time differs from itself.\<close>

lemma job_status_never_stored:
  "fst (onJobUpdated E k w) = None \<and>
   writes (wd_Hist (snd (onJobUpdated E k w))) = writes (wd_Hist w) \<and>
   same_state w (snd (onJobUpdated E k w))"
proof -
  have "fst (sync_job E k n j w) = None \<and> writes (wd_Hist (snd (sync_job E k n j w))) = writes (wd_Hist w) \<and>
      same_state w (snd (sync_job E k n j w))" for n j
    using sync_stages_never [of E k n "status_stages j" False w]
    by (cases "sync_stages E k n (status_stages j) False w") (simp add: sync_job_def Let_def)
  then show ?thesis by (simp add: onJobUpdated_def split: option.split)
qed

text \<open>A Kubernetes job generated for a stage, in any state it reaches later, leads back to that
  stage: as long as its metadata stays the same and the maintenance job is cached, the handler
  passes all its guards and looks for the stage of that name in that maintenance job.\<close>

lemma generated_job_leads_back:
  assumes "generateJob c stage = Returns k" and "kj_Meta k' = kj_Meta k"
    and "map_of (wd_Mj w) (mj_key (om_Namespace (mj_Meta c)) (mj_Name c)) = Some j"
  shows "onJobUpdated E k' w = sync_job E k' (st_Name stage) j w"
proof -
  have m: "om_OwnerReferences (kj_Meta k) = [NewControllerRef (mj_Meta c) SchemeGroupVersion ''MaintenanceJob'']"
    "om_Namespace (kj_Meta k) = om_Namespace (mj_Meta c)"
    "om_Labels (kj_Meta k) = AList.update LabelMaintenanceStage (st_Name stage) (om_Labels (mj_Meta c))"
    using assms(1) by (auto simp: generateJob_def split: option.splits)
  have l: "map_of (om_Labels (kj_Meta k)) LabelMaintenanceStage = Some (st_Name stage)"
    by (simp add: m(3) update_conv')
  then have "om_Labels (kj_Meta k) \<noteq> []" by auto
  then show ?thesis
    using assms(2,3) l by (simp add: onJobUpdated_def GetControllerOf_new [OF m(1)] m(2), simp add: NewControllerRef_def)
qed

definition sample_kjob :: KJob where
  "sample_kjob = returned (generateJob sample_two_stages sample_pod_stage)"

lemma generated_job_leads_back_witness:
  "onJobUpdated sample_env_rec (sample_kjob\<lparr>kj_Succeeded := 1\<rparr>) (sample_world_mj sample_two_stages) =
     sync_job sample_env_rec (sample_kjob\<lparr>kj_Succeeded := 1\<rparr>) ''upgrade'' sample_two_stages
       (sample_world_mj sample_two_stages)"
proof -
  have g: "generateJob sample_two_stages sample_pod_stage = Returns sample_kjob"
    by (simp add: sample_kjob_def generateJob_def sample_pod_stage_def)
  have "map_of (wd_Mj (sample_world_mj sample_two_stages))
      (mj_key (om_Namespace (mj_Meta sample_two_stages)) (mj_Name sample_two_stages)) = Some sample_two_stages"
    by (simp add: sample_world_mj_def mj_key_def sample_two_stages_def sample_job_def)
  from generated_job_leads_back [OF g _ this, of "sample_kjob\<lparr>kj_Succeeded := 1\<rparr>" sample_env_rec]
  show ?thesis by (simp add: sample_pod_stage_def)
qed

end
