(* ===== verification/Transitions.thy ===== *)
theory Transitions
  imports Main
begin

text \<open>
  Step relations, their invariants and simulations, which the proofs about the controller, about the
  system of reconcilers and about the threads of the timeout queue share.
\<close>

section \<open>Invariants\<close>

text \<open>An invariant of a step relation holds in every state it reaches.\<close>

locale step_invariant =
  fixes step :: "'w \<Rightarrow> 'w \<Rightarrow> bool" and start :: 'w and inv :: "'w \<Rightarrow> bool"
  assumes inv_start: "inv start"
    and inv_step: "inv w \<Longrightarrow> step w w' \<Longrightarrow> inv w'"
begin

lemma reachable_inv: "step\<^sup>*\<^sup>* start w \<Longrightarrow> inv w"
  by (induction rule: rtranclp_induct) (auto intro: inv_start inv_step)

end

section \<open>Simulation\<close>

text \<open>A concrete step relation that keeps an invariant, and whose steps are runs of an abstract one.\<close>

locale simulation = step_invariant cstep cstart cinv
  for cstep :: "'c \<Rightarrow> 'c \<Rightarrow> bool" and cstart :: 'c and cinv :: "'c \<Rightarrow> bool" +
  fixes astep :: "'a \<Rightarrow> 'a \<Rightarrow> bool" and astart :: 'a and abs :: "'c \<Rightarrow> 'a"
  assumes abs_start: "abs cstart = astart"
    and simulates: "cinv c \<Longrightarrow> cstep c c' \<Longrightarrow> astep\<^sup>*\<^sup>* (abs c) (abs c')"
begin

lemma reachable_abs: "cstep\<^sup>*\<^sup>* cstart c \<Longrightarrow> astep\<^sup>*\<^sup>* astart (abs c)"
proof (induction rule: rtranclp_induct)
  case base
  show ?case by (simp add: abs_start)
next
  case (step c c')
  then show ?case using simulates [OF reachable_inv [OF step.hyps(1)]] by (meson rtranclp_trans)
qed

text \<open>An invariant of the abstract relation is one of the concrete relation.\<close>

lemma lift_invariant:
  assumes "step_invariant astep astart ainv" and "cstep\<^sup>*\<^sup>* cstart c"
  shows "ainv (abs c)"
  using step_invariant.reachable_inv [OF assms(1) reachable_abs [OF assms(2)]] .

end

end
