(* ===== verification/Controller.thy ===== *)
theory Controller
  imports KubeJobs Transitions
begin

text \<open>
  The controller as a whole (\<open>controller.go\<close>): what is done with an entry that a schedule queue
  delivers, and the step relation of the running controller: the reconcile handlers, the two
  queues and the informers, interleaved in any order. A panic ends the process; the relation goes
  on from the world a panicking handler leaves, which only adds behaviours.
\<close>

section \<open>Processing of schedule entries\<close>

text \<open>Errors are only logged; the enqueueing follows whatever the scheduling returned.\<close>

definition processMaintenanceSchedule :: "env \<Rightarrow> string \<Rightarrow> world \<Rightarrow> unit outcome \<times> world" where
  "processMaintenanceSchedule E mtName w =
     (case scheduleMaintenance E mtName w of
        (Panics p, w1) \<Rightarrow> (Panics p, w1)
      | (Returns err, w1) \<Rightarrow>
          (case enqueueMaintenanceForScheduling E mtName (sc_PollInterval (schedule_config E)) w1 of
             (Panics p, w2) \<Rightarrow> (Panics p, w2)
           | (Returns err2, w2) \<Rightarrow> (Returns (), w2)))"

definition processMaintenanceJobSchedule :: "env \<Rightarrow> string \<Rightarrow> world \<Rightarrow> unit outcome \<times> world" where
  "processMaintenanceJobSchedule E mtJobName w =
     (case scheduleMaintenanceJob E (jobNamespace E) mtJobName w of
        (Panics p, w1) \<Rightarrow> (Panics p, w1)
      | (Returns err, w1) \<Rightarrow>
          (let (err2, w2) = enqueueMaintenanceJobForScheduling E (jobNamespace E) mtJobName
                              (jc_PollInterval (jobs_config E)) w1
           in (Returns (), w2)))"

section \<open>The running controller\<close>

text \<open>After \<open>NewController\<close> and \<open>Start\<close>: empty caches and two started queues.\<close>

definition started_world :: world where
  "started_world = \<lparr>wd_Mt = [], wd_Mj = [], wd_MtTQ = tq_Start NewTimeoutQueue,
     wd_MjTQ = tq_Start NewTimeoutQueue, wd_Hist = []\<rparr>"

text \<open>The consumers of the queues take the delivered entries one by one.\<close>

definition set_mt_expired :: "(string, unit) TimeoutData list \<Rightarrow> world \<Rightarrow> world" where
  "set_mt_expired ds w = w\<lparr>wd_MtTQ := (wd_MtTQ w)\<lparr>tq_expired := ds\<rparr>\<rparr>"

definition set_mj_expired :: "(string, unit) TimeoutData list \<Rightarrow> world \<Rightarrow> world" where
  "set_mj_expired ds w = w\<lparr>wd_MjTQ := (wd_MjTQ w)\<lparr>tq_expired := ds\<rparr>\<rparr>"

text \<open>
  Maintenances are the user's: the informer may bring any, at any time, and so may the reconciler
  hand any to a handler. Maintenance jobs are the controller's: the informer and the reconciler bring
  objects the controller created or updated, to which the API server may have given other
  metadata. A reconciler may hold an older object than the informer cache, so that a handler may
  get one that is no longer cached. The handlers left out (\<open>onMaintenanceDeleted\<close>, those of updated
  and deleted maintenance jobs and those of added and deleted jobs) change nothing.
\<close>

inductive ctrl_step :: "env \<Rightarrow> world \<Rightarrow> world \<Rightarrow> bool" for E where
  mt_added: "ctrl_step E w (snd (onMaintenanceAdded E mt w))"
| mt_updated: "ctrl_step E w (snd (onMaintenanceUpdated E mt w))"
| mt_deleting: "ctrl_step E w (snd (onMaintenanceDeleting E mt w))"
| mj_added: "MjCreate j \<in> set (wd_Hist w) \<or> MjUpdateStatus j \<in> set (wd_Hist w) \<Longrightarrow>
    ctrl_step E w (snd (onMaintenanceJobAdded E (j\<lparr>mj_Meta := m\<rparr>) w))"
| job_updated: "ctrl_step E w (snd (onJobUpdated E k w))"
| mt_sort: "swaps_in_range s (wd_MtTQ w) \<Longrightarrow>
    ctrl_step E w (w\<lparr>wd_MtTQ := tq_sort s now (wd_MtTQ w)\<rparr>)"
| mj_sort: "swaps_in_range s (wd_MjTQ w) \<Longrightarrow>
    ctrl_step E w (w\<lparr>wd_MjTQ := tq_sort s now (wd_MjTQ w)\<rparr>)"
| mt_take: "tq_expired (wd_MtTQ w) = d # ds \<Longrightarrow>
    ctrl_step E w (snd (processMaintenanceSchedule E (td_Key d) (set_mt_expired ds w)))"
| mj_take: "tq_expired (wd_MjTQ w) = d # ds \<Longrightarrow>
    ctrl_step E w (snd (processMaintenanceJobSchedule E (td_Key d) (set_mj_expired ds w)))"
| mt_informer: "ctrl_step E w (w\<lparr>wd_Mt := mts\<rparr>)"
| mj_informer: "MjCreate j \<in> set (wd_Hist w) \<or> MjUpdateStatus j \<in> set (wd_Hist w) \<Longrightarrow>
    ctrl_step E w (put_mj key (j\<lparr>mj_Meta := m\<rparr>) w)"
| mj_deleted: "ctrl_step E w (w\<lparr>wd_Mj := AList.delete key (wd_Mj w)\<rparr>)"

inductive_cases ctrl_stepE: "ctrl_step E w w'"

abbreviation reachable :: "env \<Rightarrow> world \<Rightarrow> bool" where
  "reachable E \<equiv> (ctrl_step E)\<^sup>*\<^sup>* started_world"

section \<open>The queues\<close>

text \<open>Queries of the process functions.\<close>

lemma process_mt_run:
  "snd (processMaintenanceSchedule E n w) = snd (scheduleMaintenance E n w) \<or>
   snd (processMaintenanceSchedule E n w) =
     snd (enqueueMaintenanceForScheduling E n (sc_PollInterval (schedule_config E)) (snd (scheduleMaintenance E n w)))"
  by (simp add: processMaintenanceSchedule_def split_beta split: outcome.split)

lemma process_mj_run:
  "snd (processMaintenanceJobSchedule E n w) = snd (scheduleMaintenanceJob E (jobNamespace E) n w) \<or>
   snd (processMaintenanceJobSchedule E n w) =
     snd (enqueueMaintenanceJobForScheduling E (jobNamespace E) n (jc_PollInterval (jobs_config E))
       (snd (scheduleMaintenanceJob E (jobNamespace E) n w)))"
  by (simp add: processMaintenanceJobSchedule_def Let_def split_beta split: outcome.split)

text \<open>The index of both queues is exact, and that of the maintenances has no duplicate keys. The latter rests on the
  handlers being single steps: with the look-up and the offer of two goroutines interleaved the queue may hold a
  key twice (\<open>QueueRaces\<close>).\<close>

definition queues_ok :: "world \<Rightarrow> bool" where
  "queues_ok w \<longleftrightarrow> tq.queue_ok (wd_MtTQ w) \<and> tq_inv (wd_MjTQ w)"

lemma queues_ok_cong:
  "wd_MtTQ w' = wd_MtTQ w \<Longrightarrow> wd_MjTQ w' = wd_MjTQ w \<Longrightarrow> queues_ok w' = queues_ok w"
  by (simp add: queues_ok_def)

lemma queue_ok_expired [simp]: "tq.queue_ok (q\<lparr>tq_expired := ds\<rparr>) = tq.queue_ok q"
  "tq_inv (q\<lparr>tq_expired := ds\<rparr>) = tq_inv q"
  by (simp_all add: tq.queue_ok_def tq_inv_def)

text \<open>The walk over the stages of a job touches neither the maintenances nor the queues.\<close>

definition rest_of :: "world \<Rightarrow> (string \<times> Maintenance) list \<times> (string, unit) TimeoutQueue \<times> (string, unit) TimeoutQueue" where
  "rest_of w = (wd_Mt w, wd_MtTQ w, wd_MjTQ w)"

lemma rest_of_simps [simp]:
  "rest_of (log_effect e w) = rest_of w" "rest_of (assign k b j w) = rest_of w"
  "rest_of (snd (snd (mj_UpdateStatus E j w))) = rest_of w"
  "rest_of (snd (drainNodes E j s w)) = rest_of w" "rest_of (snd (uncordonNodes E j s w)) = rest_of w"
  using drainNodes_same_state [of w E j s] uncordonNodes_same_state [of w E j s]
  by (auto simp: rest_of_def assign_def same_state_def mj_UpdateStatus_def split: sum.split)

lemma rest_of_update_stage [simp]:
  "rest_of (snd (update_stage E k b i f j w)) = rest_of w"
  "rest_of (snd (update_stage_err E k b i f j w)) = rest_of w"
proof -
  show u: "rest_of (snd (update_stage E k b i f j w)) = rest_of w"
    by (simp add: update_stage_def Let_def split_beta)
  show "rest_of (snd (update_stage_err E k b i f j w)) = rest_of w"
    using u by (simp add: update_stage_err_def split_beta split: outcome.split)
qed

lemma rest_of_running_stage [simp]: "rest_of (snd (running_stage E k b i s spec j w)) = rest_of w"
  by (simp add: running_stage_def Let_def split_beta split: option.split outcome.split)

lemma rest_of_idle_stage [simp]: "rest_of (snd (idle_stage E k b i spec j w)) = rest_of w"
  by (simp add: idle_stage_def job_Create_def Let_def split_beta split: option.split outcome.split)

lemma rest_of_stage_body [simp]: "rest_of (snd (stage_body E k b i s j w)) = rest_of w"
  by (simp add: stage_body_def failed_stage_def succeeded_stage_def Let_def split_beta
      split: option.split outcome.split bool.split)

lemma rest_of_schedule_stages [simp]: "rest_of (snd (schedule_stages E k ss i j b w)) = rest_of w"
proof (induction ss arbitrary: i j b w)
  case (Cons s ss)
  have "rest_of (snd (stage_body E k b i s j w)) = rest_of w" by simp
  then show ?case using Cons.IH by (simp add: split_beta split: outcome.split stage_step.split)
qed simp

lemma rest_of_scheduleMaintenanceJob [simp]: "rest_of (snd (scheduleMaintenanceJob E ns n w)) = rest_of w"
  by (simp add: scheduleMaintenanceJob_def split: sum.split)

lemma scheduleMaintenanceJob_frame [frame_simps, simp]:
  "wd_Mt (snd (scheduleMaintenanceJob E ns n w)) = wd_Mt w"
  "wd_MtTQ (snd (scheduleMaintenanceJob E ns n w)) = wd_MtTQ w"
  "wd_MjTQ (snd (scheduleMaintenanceJob E ns n w)) = wd_MjTQ w"
  using rest_of_scheduleMaintenanceJob [of E ns n w] unfolding rest_of_def by simp_all

lemma tq_sort_queue_ok:
  assumes "tq.queue_ok q" and s: "swaps_in_range s q"
  shows "tq.queue_ok (tq_sort s now q)"
proof -
  have inv: "tq_inv (tq_sort s now q)"
    using assms unfolding tq.queue_ok_def swaps_in_range_def by (intro tq_inv_sort) simp_all
  have "mset (tq_data (tq_swaps s q)) = mset (tq_data q)"
    using s mset_swaps by (simp add: swaps_in_range_def)
  then have "mset (map td_Key (tq_data (tq_swaps s q))) = mset (map td_Key (tq_data q))"
    by (simp add: mset_map)
  then have d: "distinct (map td_Key (tq_data (tq_swaps s q)))"
    using assms(1) mset_eq_imp_distinct_iff unfolding tq.queue_ok_def by blast
  moreover have "distinct (map td_Key (dropWhile p (tq_data (tq_swaps s q))))" for p
    using d by (metis distinct_append map_append takeWhile_dropWhile_id)
  ultimately have "distinct (tq_keys (tq_sort s now q))"
    using assms(1) by (auto simp: tq_sort_def Let_def tq.queue_ok_def split: list.split)
  with inv show ?thesis by (simp add: tq.queue_ok_def)
qed

lemma tq_inv_offer_delay [simp]:
  "tq_inv (wd_MjTQ w) \<Longrightarrow> tq_inv (wd_MjTQ (snd (mjTQ_offer_delay E n d w)))"
  by (simp add: mjTQ_offer_delay_def OfferWithDelay_def Let_def split_beta tq_inv_offer)

lemma tq_inv_enqueue_job:
  "tq_inv (wd_MjTQ w) \<Longrightarrow> tq_inv (wd_MjTQ (snd (enqueueMaintenanceJobForScheduling E ns n d w)))"
  by (simp add: enqueueMaintenanceJobForScheduling_def split: sum.split option.split)

lemma queues_ok_enqueue_job:
  "queues_ok w \<Longrightarrow> queues_ok (snd (enqueueMaintenanceJobForScheduling E ns n d w))"
  by (simp add: queues_ok_def tq_inv_enqueue_job)

lemma queues_ok_job_added: "queues_ok w \<Longrightarrow> queues_ok (snd (onMaintenanceJobAdded E j w))"
proof -
  assume w: "queues_ok w"
  then have "queues_ok (log_effect e w)" for e by (simp add: queues_ok_def)
  with w show ?thesis
    by (simp add: onMaintenanceJobAdded_def mj_UpdateStatus_def Let_def split_beta queues_ok_enqueue_job
        split: outcome.split bool.split sum.split option.split)
qed

lemma onMaintenanceDeleting_MjTQ [simp]: "wd_MjTQ (snd (onMaintenanceDeleting E mt w)) = wd_MjTQ w"
  by (simp add: onMaintenanceDeleting_def mt_Delete_def Let_def split: option.split)

lemma enqueue_MjTQ [simp]: "wd_MjTQ (snd (enqueueMaintenanceForScheduling E n d w)) = wd_MjTQ w"
  by (simp add: enqueueMaintenanceForScheduling_def Let_def split_beta mt_UpdateStatus_def
      split: sum.split option.split)

text \<open>Up to what is logged, \<open>onMaintenanceUpdated\<close> does nothing or enqueues.\<close>

lemma onMaintenanceUpdated_run:
  assumes "\<And>e u. \<not> is_write e \<Longrightarrow> f (log_effect e u) = f u"
  shows "f (snd (onMaintenanceUpdated E mt w)) = f w \<or>
    f (snd (onMaintenanceUpdated E mt w)) = f (snd (enqueueMaintenanceForScheduling E (mt_Name mt)
      (sc_PollInterval (schedule_config E)) (log_effect (Clock (en_Now E (wd_Hist w))) w)))"
proof (cases "schedulable E (en_Now E (wd_Hist w)) mt")
  case True
  show ?thesis
    unfolding onMaintenanceUpdated_schedulable [OF True]
    by (simp add: assms split: prod.split outcome.split option.split)
next
  case False
  then have "f (snd (onMaintenanceUpdated E mt w)) = f w"
    by (auto simp: onMaintenanceUpdated_def schedulable_def valid_spec_def Let_def
        first_error_None_iff assms)
  then show ?thesis ..
qed

lemma onMaintenanceUpdated_MjTQ [simp]: "wd_MjTQ (snd (onMaintenanceUpdated E mt w)) = wd_MjTQ w"
  using onMaintenanceUpdated_run [of wd_MjTQ E mt w] by simp

lemma queues_ok_step:
  assumes "queues_ok w" and "ctrl_step E w w'"
  shows "queues_ok w'"
  using assms(2)
proof cases
  case (job_updated k)
  have "same_state w (snd (onJobUpdated E k w))"
  proof -
    have "same_state w (snd (sync_job E k n j w))" for n j
      using sync_stages_never [of E k n "status_stages j" False w]
      by (cases "sync_stages E k n (status_stages j) False w") (simp add: sync_job_def Let_def)
    then show ?thesis by (simp add: onJobUpdated_def split: option.split)
  qed
  then show ?thesis using assms(1) job_updated by (simp add: queues_ok_def same_state_def)
next
  case (mt_take d ds)
  then show ?thesis using assms(1) process_mt_run [of E "td_Key d" "set_mt_expired ds w"]
    by (auto simp: queues_ok_def set_mt_expired_def queue_ok_enqueue)
next
  case (mj_take d ds)
  then show ?thesis using assms(1) process_mj_run [of E "td_Key d" "set_mj_expired ds w"]
    by (auto simp: queues_ok_def set_mj_expired_def tq_inv_enqueue_job)
qed (use assms(1) in \<open>simp_all add: queues_ok_def queue_ok_updated queue_ok_deleting tq_sort_queue_ok
      tq_inv_sort swaps_in_range_def queues_ok_job_added [unfolded queues_ok_def]\<close>)

lemma queues_ok_start: "queues_ok started_world"
  by (simp add: queues_ok_def started_world_def tq.queue_ok_def tq_inv_def index_ok_def
      NewTimeoutQueue_def tq_Start_def)

interpretation queues: step_invariant "ctrl_step E" started_world queues_ok for E
  by unfold_locales (rule queues_ok_start, rule queues_ok_step)

section \<open>What is written\<close>

text \<open>Pod stages have the status they were given when the job was added.\<close>

definition pods_new :: "MaintenanceJob \<Rightarrow> bool" where
  "pods_new j \<longleftrightarrow> (\<forall>i < length (spec_stages j). i < length (status_stages j) \<longrightarrow>
     is_pod_stage (spec_stages j ! i) \<longrightarrow>
     status_stages j ! i = new_stage_status (ss_Name (status_stages j ! i)))"

text \<open>What every write says of itself; where the status updates and deletions of maintenances come from is shown for
  each step in \<open>StepWrites\<close>.\<close>

definition write_ok :: "env \<Rightarrow> effect \<Rightarrow> bool" where
  "write_ok E e = (case e of
     MjCreate j \<Rightarrow> om_Namespace (mj_Meta j) = jobNamespace E \<and> status_stages j = [] \<and>
       (\<exists>mt :: Maintenance. om_OwnerReferences (mj_Meta j) =
          [NewControllerRef (mt_Meta mt) SchemeGroupVersion ''Maintenance''])
   | MjUpdateStatus j \<Rightarrow> pods_new j
   | JobCreate k \<Rightarrow> (\<exists>c st. is_pod_stage st \<and> generateJob c st = Returns k)
   | _ \<Rightarrow> True)"

lemma write_ok_simps [simp]:
  "write_ok E (MtUpdateStatus m)" "write_ok E (MjUpdateStatus j) = pods_new j"
  "write_ok E (MtDelete n)" "write_ok E (NodePatch n p)" "\<not> is_write e \<Longrightarrow> write_ok E e"
  by (simp_all add: write_ok_def) (cases e; simp)

lemma ext_added: "extends (write_ok E) w (snd (onMaintenanceAdded E mt w))"
  unfolding extends_def onMaintenanceAdded_writes by auto

lemma ext_doEnqueue [simp]: "extends P w (snd (doEnqueue E mt now d w'))= extends P w w'"
  by (simp add: extends_def)

lemma ext_enqueue: "extends (write_ok E) w (snd (enqueueMaintenanceForScheduling E n d w))"
  by (simp add: enqueueMaintenanceForScheduling_def mt_UpdateStatus_def Let_def split_beta
      split: sum.split option.split)

lemma ext_updated: "extends (write_ok E) w (snd (onMaintenanceUpdated E mt w))"
  using onMaintenanceUpdated_run [of "extends (write_ok E) w" E mt w]
    ext_enqueue [of E "log_effect (Clock (en_Now E (wd_Hist w))) w"] by simp

lemma ext_deleting: "extends (write_ok E) w (snd (onMaintenanceDeleting E mt w))"
  by (simp add: onMaintenanceDeleting_def mt_Delete_def Let_def extends_def split: option.split)

lemma ext_mark: "extends (write_ok E) w (snd (mark_scheduled E n c w))"
  unfolding extends_def mark_scheduled_run(1) by (cases "en_MarshalSpec E (mt_Spec c)") auto

lemma write_ok_created:
  assumes "node_jobs E m spec u nodes = Returns (Inr js)" and "c \<in> set (created_jobs w js)"
  shows "write_ok E (MjCreate c)"
proof -
  from assms(2) obtain j n where j: "j \<in> set js" "c = renamed n j" by (auto simp: created_jobs_elem)
  from node_jobs_elem [OF assms(1) j(1)] obtain node where "generated_for E m spec node j" by blast
  from generated_for_simps [OF this] j(2) show ?thesis
    by (auto simp: write_ok_def renamed_def)
qed

lemma ext_schedule_jobs: "extends (write_ok E) w (snd (schedule_jobs E m spec w))"
proof (cases "writes (wd_Hist (snd (schedule_jobs E m spec w))) = writes (wd_Hist w)")
  case False
  then obtain u nodes js where "node_jobs E m spec u nodes = Returns (Inr js)"
      "snd (schedule_jobs E m spec w) = create_jobs E js (log_effect (NodeList (spec_selector E spec)) w)"
    by (rule schedule_jobs_created)
  then show ?thesis using write_ok_created by (auto simp: extends_def create_jobs_writes)
qed (simp add: extends_def)

lemma ext_snapshot_spec [simp]: "extends P w (snd (snapshot_spec E m w')) = extends P w w'"
  by (simp add: extends_def)

lemma ext_schedule: "extends (write_ok E) w (snd (scheduleMaintenance E n w))"
proof -
  have "extends (write_ok E) w (snd (schedule_jobs E m spec w1))" if "extends (write_ok E) w w1" for m spec w1
    using extends_trans [OF that ext_schedule_jobs] .
  moreover have "extends (write_ok E) w (snd (mark_scheduled E n c (log_effect (Clock t) w)))" for c t
    using ext_mark [of E "log_effect (Clock t) w" n c] by simp
  ultimately show ?thesis
    by (simp add: scheduleMaintenance_def Let_def split_beta split: sum.split)
qed

lemma ext_process_mt: "extends (write_ok E) w (snd (processMaintenanceSchedule E n w))"
  using process_mt_run [of E n w] ext_schedule [of E w n] ext_enqueue extends_trans by metis

lemma pods_new_same: "same_job c j \<Longrightarrow> pods_new c \<Longrightarrow> pods_new j"
  unfolding same_job_def pods_new_def by (metis length_map)

lemma write_ok_stage: "stage_write c e \<Longrightarrow> pods_new c \<Longrightarrow> write_ok E e"
  by (cases e) (auto simp: stage_write_def write_ok_def pods_new_same)

lemma job_run:
  assumes "echo E" and "map_of (wd_Mj w) (mj_key ns n) = Some c"
  shows "stage_run c (mj_key ns n) w (snd (scheduleMaintenanceJob E ns n w))"
  using schedule_stages_run [OF assms(1), of c c "status_stages c" 0 "mj_key ns n" w True] assms(2)
  by (simp add: scheduleMaintenanceJob_def getMaintenanceJobFromCache_def)

lemma job_run_uncached:
  "map_of (wd_Mj w) (mj_key ns n) = None \<Longrightarrow> snd (scheduleMaintenanceJob E ns n w) = w"
  by (simp add: scheduleMaintenanceJob_def getMaintenanceJobFromCache_def)

text \<open>Everything logged is in order, and so is every cached maintenance job.\<close>

definition calls_ok :: "env \<Rightarrow> world \<Rightarrow> bool" where
  "calls_ok E w \<longleftrightarrow> (\<forall>e \<in> set (writes (wd_Hist w)). write_ok E e) \<and>
     (\<forall>key j. map_of (wd_Mj w) key = Some j \<longrightarrow> pods_new j)"

lemma calls_ok_extends:
  "calls_ok E w \<Longrightarrow> extends (write_ok E) w w' \<Longrightarrow> wd_Mj w' = wd_Mj w \<Longrightarrow> calls_ok E w'"
  by (auto simp: calls_ok_def extends_def)

lemma calls_ok_cong:
  "writes (wd_Hist w') = writes (wd_Hist w) \<Longrightarrow> wd_Mj w' = wd_Mj w \<Longrightarrow> calls_ok E w' = calls_ok E w"
  by (simp add: calls_ok_def)

lemma calls_ok_job:
  assumes "echo E" and "calls_ok E w"
  shows "calls_ok E (snd (scheduleMaintenanceJob E ns n w))"
proof (cases "map_of (wd_Mj w) (mj_key ns n)")
  case None
  then show ?thesis using assms(2) by (simp add: job_run_uncached)
next
  case (Some c)
  have c: "pods_new c" using Some assms(2) by (auto simp: calls_ok_def)
  note run = job_run [OF assms(1) Some]
  have "extends (write_ok E) w (snd (scheduleMaintenanceJob E ns n w))"
    using run write_ok_stage [OF _ c] extends_mono unfolding stage_run_def by blast
  moreover have "pods_new j" if "map_of (wd_Mj (snd (scheduleMaintenanceJob E ns n w))) key = Some j" for key j
    using run that assms(2) pods_new_same [OF _ c] unfolding stage_run_def cache_run_def calls_ok_def
    by (auto split: if_splits)
  ultimately show ?thesis using assms(2) by (auto simp: calls_ok_def extends_def)
qed

lemma pods_new_pad: "pods_new j \<Longrightarrow> pods_new (pad_stages j)"
  by (auto simp: pods_new_def pad_stages_def nth_append new_stage_status_def)

lemma process_mj_calls: "calls_ok E w \<Longrightarrow> echo E \<Longrightarrow> calls_ok E (snd (processMaintenanceJobSchedule E n w))"
  using process_mj_run [of E n w] calls_ok_job [of E w "jobNamespace E" n]
    calls_ok_cong [OF enqueue_job_frame(4) enqueue_job_frame(2)] by metis

lemma write_in_history: "is_write e \<Longrightarrow> e \<in> set (wd_Hist w) \<longleftrightarrow> e \<in> set (writes (wd_Hist w))"
  by (simp add: writes_def)

lemma pods_new_informed:
  assumes "calls_ok E w" and "MjCreate j \<in> set (wd_Hist w) \<or> MjUpdateStatus j \<in> set (wd_Hist w)"
  shows "pods_new (j\<lparr>mj_Meta := m\<rparr>)"
proof -
  have "write_ok E (MjCreate j) \<or> write_ok E (MjUpdateStatus j)"
    using assms by (auto simp: calls_ok_def write_in_history)
  then show ?thesis by (auto simp: write_ok_def pods_new_def)
qed

lemma Mj_frames:
  "wd_Mj (snd (onMaintenanceUpdated E mt w)) = wd_Mj w"
  "wd_Mj (snd (onMaintenanceDeleting E mt w)) = wd_Mj w"
  "wd_Mj (snd (onMaintenanceJobAdded E j w)) = wd_Mj w"
  "wd_Mj (snd (processMaintenanceSchedule E n w)) = wd_Mj w"
proof -
  have e: "wd_Mj (snd (enqueueMaintenanceForScheduling E n d w)) = wd_Mj w" for n d w
    by (simp add: enqueueMaintenanceForScheduling_def mt_UpdateStatus_def Let_def split_beta
        split: sum.split option.split)
  show "wd_Mj (snd (onMaintenanceUpdated E mt w)) = wd_Mj w"
    using onMaintenanceUpdated_run [of wd_Mj E mt w] e by simp
  show "wd_Mj (snd (processMaintenanceSchedule E n w)) = wd_Mj w"
    using process_mt_run [of E n w] e by auto
qed (simp_all add: onMaintenanceDeleting_def mt_Delete_def onMaintenanceJobAdded_def mj_UpdateStatus_def
    Let_def split_beta split: option.split outcome.split bool.split sum.split)

lemma calls_ok_job_updated: "calls_ok E w \<Longrightarrow> calls_ok E (snd (onJobUpdated E k w))"
proof -
  have s: "writes (wd_Hist (snd (sync_job E k n j w))) = writes (wd_Hist w) \<and>
      wd_Mj (snd (sync_job E k n j w)) = wd_Mj w" for n j
    using sync_stages_never [of E k n "status_stages j" False w]
    by (cases "sync_stages E k n (status_stages j) False w") (simp add: sync_job_def Let_def same_state_def)
  assume w: "calls_ok E w"
  then have "calls_ok E (snd (sync_job E k n j w))" for n j
    using calls_ok_cong [OF s [THEN conjunct1] s [THEN conjunct2]] by simp
  with w show ?thesis by (simp add: onJobUpdated_def split: option.split)
qed

lemma calls_ok_step:
  assumes "echo E" and "calls_ok E w" and "ctrl_step E w w'"
  shows "calls_ok E w'"
  using assms(3)
proof cases
  case (mt_added mt)
  then show ?thesis using calls_ok_extends [OF assms(2) ext_added] by simp
next
  case (mt_updated mt)
  then show ?thesis using calls_ok_extends [OF assms(2) ext_updated] by (simp add: Mj_frames)
next
  case (mt_deleting mt)
  then show ?thesis using calls_ok_extends [OF assms(2) ext_deleting] by (simp add: Mj_frames)
next
  case (mj_added j m)
  have "pods_new (j\<lparr>mj_Meta := m\<rparr>)" using pods_new_informed [OF assms(2) mj_added(2)] .
  then have "extends (write_ok E) w (snd (onMaintenanceJobAdded E (j\<lparr>mj_Meta := m\<rparr>) w))"
    unfolding extends_def onMaintenanceJobAdded_writes by (auto simp: pods_new_pad)
  then show ?thesis using calls_ok_extends [OF assms(2)] mj_added by (simp add: Mj_frames)
next
  case (job_updated k)
  then show ?thesis using assms(2) calls_ok_job_updated by simp
next
  case (mt_take d ds)
  have "calls_ok E (set_mt_expired ds w)" using assms(2) by (simp add: calls_ok_def set_mt_expired_def)
  from calls_ok_extends [OF this ext_process_mt] mt_take show ?thesis by (simp add: Mj_frames)
next
  case (mj_take d ds)
  have "calls_ok E (set_mj_expired ds w)" using assms(2) by (simp add: calls_ok_def set_mj_expired_def)
  from process_mj_calls [OF this assms(1)] mj_take show ?thesis by simp
next
  case (mj_informer j key m)
  then show ?thesis using assms(2) pods_new_informed [OF assms(2) mj_informer(2), of m]
    by (auto simp: calls_ok_def)
next
  case (mj_deleted key)
  then show ?thesis using assms(2) by (auto simp: calls_ok_def delete_conv' split: if_splits)
qed (use assms(2) in \<open>simp_all add: calls_ok_def\<close>)

lemma calls_ok_start: "calls_ok E started_world"
  by (simp add: calls_ok_def started_world_def)

interpretation calls: step_invariant "ctrl_step E" started_world "\<lambda>w. echo E \<longrightarrow> calls_ok E w" for E
  by unfold_locales (simp add: calls_ok_start, blast intro: calls_ok_step)

section \<open>Polling\<close>

text \<open>A run keeps the cached object, or takes its snapshot in the cache.\<close>

definition same_but_scheduled :: "Maintenance \<Rightarrow> Maintenance \<Rightarrow> bool" where
  "same_but_scheduled c d \<longleftrightarrow> mt_Meta d = mt_Meta c \<and> admitted_of d = admitted_of c \<and>
     finished_of d = finished_of c"

definition maybe_snapshot :: "env \<Rightarrow> Maintenance \<Rightarrow> Maintenance \<Rightarrow> bool" where
  "maybe_snapshot E c d \<longleftrightarrow> d = c \<or> \<not> Scheduled c \<and> (\<exists>h. snapshot_taken E (en_Now E h) c d)"

lemma maybe_snapshot_same: "maybe_snapshot E c d \<Longrightarrow> same_but_scheduled c d"
  by (auto simp: maybe_snapshot_def snapshot_taken_def same_but_scheduled_def)

lemma schedule_keeps_cached:
  assumes "map_of (wd_Mt w) n = Some c"
  shows "\<exists>d. map_of (wd_Mt (snd (scheduleMaintenance E n w))) n = Some d \<and> maybe_snapshot E c d"
proof -
  have mark: "\<exists>d. map_of (wd_Mt (snd (mark_scheduled E n c w1))) n = Some d \<and> maybe_snapshot E c d"
    if "wd_Mt w1 = wd_Mt w" for w1
    using assms that
    by (auto simp: mark_scheduled_def mt_UpdateStatus_def maybe_snapshot_def snapshot_taken_def Let_def
        split: sum.split option.split)
  show ?thesis
  proof (cases "due_now E w c")
    case True
    show ?thesis
      using mark [of "log_effect (Clock (en_Now E (wd_Hist w))) w"]
      unfolding schedule_due [OF assms True] Let_def split_beta by (simp split: sum.split)
  next
    case False
    then have "wd_Mt (snd (scheduleMaintenance E n w)) = wd_Mt w"
      using assms by (intro schedule_not_due(2)) simp
    then show ?thesis using assms by (simp add: maybe_snapshot_def)
  qed
qed

lemma same_but_scheduled_phases:
  "same_but_scheduled c d \<Longrightarrow> Canceled d = Canceled c \<and> Finished d = Finished c \<and>
     Expired d t = Expired c t \<and> mt_Name d = mt_Name c \<and> admitted_of d = admitted_of c"
  by (simp add: same_but_scheduled_def phase_defs)

end
