(* ===== verification/Backoff.thy ===== *)
theory Backoff
  imports Prelude
begin

text \<open>
  The backoff strategy of the reconcilers (\<open>arhat.dev/pkg/backoff/strategy.go\<close>). The factor is a
  \<open>float64\<close>; the repository uses 1.5 only, here the fraction \<open>bo_num / bo_den\<close>. With a power of two as
  denominator and delays below \<open>2^50\<close> nanoseconds (thirteen days; the greatest delay is ten seconds) the
  product is exact, so that the conversion back to a duration just drops the fraction.
\<close>

section \<open>State and operations\<close>

record backoffItem =
  bi_currentDelay :: duration
  bi_counter :: "64 word"

record 'k Strategy =
  bo_initialDelay :: duration
  bo_maxDelay :: duration
  bo_num :: int
  bo_den :: int
  bo_threshold :: "64 word"
  bo_m :: "('k \<times> backoffItem) list"

definition NewStrategy :: "duration \<Rightarrow> duration \<Rightarrow> int \<Rightarrow> int \<Rightarrow> 64 word \<Rightarrow> 'k Strategy" where
  "NewStrategy initialDelay maxDelay num den threshold = \<lparr>bo_initialDelay = initialDelay,
     bo_maxDelay = maxDelay, bo_num = num, bo_den = den, bo_threshold = threshold, bo_m = []\<rparr>"

text \<open>The strategy of \<open>Options.ResolveNil\<close>, which all reconcilers of the controller use.\<close>

definition default_Strategy :: "'k Strategy" where
  "default_Strategy = NewStrategy (300 * Millisecond) 10000000000 3 2 3"

text \<open>\<open>time.Duration(b.factor * float64(d))\<close>, which truncates towards zero.\<close>

definition scale_delay :: "'k Strategy \<Rightarrow> duration \<Rightarrow> duration" where
  "scale_delay b d = (let p = bo_num b * sint d in word_of_int (sgn p * (\<bar>p\<bar> div bo_den b)))"

definition backoff_item :: "'k \<Rightarrow> 'k Strategy \<Rightarrow> backoffItem" where
  "backoff_item key b = (case map_of (bo_m b) key of
     Some item \<Rightarrow> item | None \<Rightarrow> \<lparr>bi_currentDelay = 0, bi_counter = 0\<rparr>)"

definition next_delay :: "'k Strategy \<Rightarrow> backoffItem \<Rightarrow> duration" where
  "next_delay b item =
     (let counter = bi_counter item
      in if counter = bo_threshold b then bo_initialDelay b
         else if counter > bo_threshold b
         then (let d = scale_delay b (bi_currentDelay item)
               in if sint d > sint (bo_maxDelay b) then bo_maxDelay b else d)
         else 0)"

definition bo_Next :: "'k \<Rightarrow> 'k Strategy \<Rightarrow> duration \<times> 'k Strategy" where
  "bo_Next key b =
     (let currentBackoff = backoff_item key b;
          nextDelay = next_delay b currentBackoff
      in (nextDelay, b\<lparr>bo_m := AList.update key
           \<lparr>bi_currentDelay = nextDelay, bi_counter = bi_counter currentBackoff + 1\<rparr> (bo_m b)\<rparr>))"

definition bo_Reset :: "'k \<Rightarrow> 'k Strategy \<Rightarrow> bool \<times> 'k Strategy" where
  "bo_Reset key b =
     (case map_of (bo_m b) key of
        Some _ \<Rightarrow> (True, b\<lparr>bo_m := AList.delete key (bo_m b)\<rparr>)
      | None \<Rightarrow> (False, b))"

section \<open>The delays of a key that keeps failing\<close>

text \<open>The strategy after \<open>n\<close> calls of \<open>Next\<close> with one key, and the delay the next call returns.\<close>

primrec after_failures :: "nat \<Rightarrow> 'k \<Rightarrow> 'k Strategy \<Rightarrow> 'k Strategy" where
  "after_failures 0 key b = b"
| "after_failures (Suc n) key b = snd (bo_Next key (after_failures n key b))"

definition failure_delay :: "nat \<Rightarrow> 'k \<Rightarrow> 'k Strategy \<Rightarrow> duration" where
  "failure_delay n key b = fst (bo_Next key (after_failures n key b))"

text \<open>The delays in nanoseconds: none three times, then 300 ms, then half as much again each time, up to 10 s.\<close>

fun delay_ns :: "nat \<Rightarrow> int" where
  "delay_ns 0 = 300000000"
| "delay_ns (Suc n) = min 10000000000 (3 * delay_ns n div 2)"

definition nth_delay :: "nat \<Rightarrow> int" where
  "nth_delay n = (if n < 3 then 0 else delay_ns (n - 3))"

section \<open>Lemmas\<close>

lemma backoff_item_Next:
  "backoff_item k (snd (bo_Next key b)) =
     (if k = key then \<lparr>bi_currentDelay = fst (bo_Next key b), bi_counter = bi_counter (backoff_item key b) + 1\<rparr>
      else backoff_item k b)"
  by (simp add: bo_Next_def Let_def backoff_item_def update_conv')

lemma Next_frame [frame_simps, simp]:
  "bo_initialDelay (snd (bo_Next k b)) = bo_initialDelay b" "bo_maxDelay (snd (bo_Next k b)) = bo_maxDelay b"
  "bo_num (snd (bo_Next k b)) = bo_num b" "bo_den (snd (bo_Next k b)) = bo_den b"
  "bo_threshold (snd (bo_Next k b)) = bo_threshold b"
  by (simp_all add: bo_Next_def Let_def)

lemma Next_delay: "fst (bo_Next key b) = next_delay b (backoff_item key b)"
  by (simp add: bo_Next_def Let_def)

lemma backoff_item_Reset:
  "backoff_item k (snd (bo_Reset key b)) =
     (if k = key then \<lparr>bi_currentDelay = 0, bi_counter = 0\<rparr> else backoff_item k b)"
  by (auto simp: bo_Reset_def backoff_item_def delete_conv' split: option.split)

lemma delay_ns_bounds: "300000000 \<le> delay_ns n \<and> delay_ns n \<le> 10000000000"
  by (induction n) auto

lemma delay_ns_max: "delay_ns (n + 9) = 10000000000"
proof (induction n)
  case 0
  show ?case by (simp add: numeral_eq_Suc)
next
  case (Suc n)
  have "delay_ns (Suc (n + 9)) = 10000000000" unfolding delay_ns.simps(2) Suc by simp
  then show ?case by (metis add_Suc)
qed

lemma nth_delay_Suc: "3 \<le> n \<Longrightarrow> nth_delay (Suc n) = min 10000000000 (3 * nth_delay n div 2)"
proof -
  assume "3 \<le> n"
  then obtain k where n: "n = k + 3" by (metis le_add_diff_inverse2)
  have "Suc (k + 3) - 3 = Suc k" "k + 3 - 3 = k" by simp_all
  then show ?thesis unfolding n nth_delay_def by (simp only: delay_ns.simps) simp
qed

lemma nth_delay_bounds: "0 \<le> nth_delay n \<and> nth_delay n \<le> 10000000000"
  using delay_ns_bounds [of "n - 3"] by (simp add: nth_delay_def)

text \<open>The values of the default strategy.\<close>

abbreviation is_default :: "'k Strategy \<Rightarrow> bool" where
  "is_default b \<equiv> bo_initialDelay b = 300 * Millisecond \<and> bo_maxDelay b = 10000000000 \<and>
     bo_num b = 3 \<and> bo_den b = 2 \<and> bo_threshold b = 3"

lemma default_default [simp]: "is_default default_Strategy"
  by (simp add: default_Strategy_def NewStrategy_def)

lemma after_failures_default: "is_default b \<Longrightarrow> is_default (after_failures n key b)"
  by (induction n) simp_all

lemma sint_of_small: "0 \<le> i \<Longrightarrow> i < 2 ^ 62 \<Longrightarrow> sint (word_of_int i :: 64 word) = i"
  by (subst sint_sbintrunc', subst signed_take_bit_int_eq_self) simp_all

lemma counter_cmp:
  assumes "n < 2 ^ 64"
  shows "(of_nat n :: 64 word) = 3 \<longleftrightarrow> n = 3" and "(3 :: 64 word) < of_nat n \<longleftrightarrow> 3 < n"
proof -
  have u: "unat (of_nat n :: 64 word) = n" using assms by (simp add: unat_of_nat take_bit_nat_eq_self)
  show "(of_nat n :: 64 word) = 3 \<longleftrightarrow> n = 3"
    using u by (simp add: word_unat_eq_iff)
  show "(3 :: 64 word) < of_nat n \<longleftrightarrow> 3 < n" using u by (simp add: word_less_nat_alt)
qed

lemma next_delay_default:
  assumes "is_default b" and "n < 2 ^ 64"
    and "item = \<lparr>bi_currentDelay = word_of_int (nth_delay (n - 1)), bi_counter = of_nat n\<rparr>"
  shows "next_delay b item = word_of_int (nth_delay n)"
proof -
  consider "n < 3" | "n = 3" | m where "n = Suc m" "3 \<le> m" by (metis not_less_eq_eq linorder_neqE_nat less_Suc_eq_le Suc_diff_1 less_imp_Suc_add not_less)
  then show ?thesis
  proof cases
    case 1
    then show ?thesis using assms counter_cmp [OF assms(2)] by (simp add: next_delay_def nth_delay_def)
  next
    case 2
    then show ?thesis using assms by (simp add: next_delay_def nth_delay_def Millisecond_def)
  next
    case 3
    have b: "300000000 \<le> delay_ns (m - 3)" "delay_ns (m - 3) \<le> 10000000000" using delay_ns_bounds by auto
    have m: "nth_delay m = delay_ns (m - 3)" using 3 by (simp add: nth_delay_def)
    have d: "nth_delay n = min 10000000000 (3 * delay_ns (m - 3) div 2)" "nth_delay (n - 1) = delay_ns (m - 3)"
      using 3 nth_delay_Suc [of m] m by simp_all
    have s: "sint (word_of_int (delay_ns (m - 3)) :: 64 word) = delay_ns (m - 3)"
      using b by (intro sint_of_small) auto
    have "scale_delay b (word_of_int (delay_ns (m - 3))) = word_of_int (3 * delay_ns (m - 3) div 2)"
      using assms(1) b by (simp add: scale_delay_def s Let_def)
    moreover have "sint (word_of_int (3 * delay_ns (m - 3) div 2) :: 64 word) = 3 * delay_ns (m - 3) div 2"
      using b by (intro sint_of_small) auto
    moreover have "sint (10000000000 :: 64 word) = 10000000000" by simp
    ultimately show ?thesis
      using assms counter_cmp [OF assms(2)] 3 d by (simp add: next_delay_def Let_def min_def)
  qed
qed

lemma after_failures_item:
  assumes "is_default b" and "backoff_item key b = \<lparr>bi_currentDelay = 0, bi_counter = 0\<rparr>" and "n < 2 ^ 64"
  shows "backoff_item key (after_failures n key b) =
    \<lparr>bi_currentDelay = word_of_int (nth_delay (n - 1)), bi_counter = of_nat n\<rparr>"
  using assms(3)
proof (induction n)
  case 0
  show ?case using assms(2) by (simp add: nth_delay_def)
next
  case (Suc n)
  then have IH: "backoff_item key (after_failures n key b) =
    \<lparr>bi_currentDelay = word_of_int (nth_delay (n - 1)), bi_counter = of_nat n\<rparr>" by simp
  have "next_delay (after_failures n key b) (backoff_item key (after_failures n key b)) = word_of_int (nth_delay n)"
    using Suc.prems IH after_failures_default [OF assms(1)] by (intro next_delay_default) simp_all
  then show ?case by (simp add: backoff_item_Next Next_delay IH algebra_simps)
qed

lemma failure_delay_default:
  assumes "n < 2 ^ 64"
  shows "sint (failure_delay n key default_Strategy) = nth_delay n"
proof -
  let ?b = "default_Strategy :: 'a Strategy"
  have i: "backoff_item key ?b = \<lparr>bi_currentDelay = 0, bi_counter = 0\<rparr>"
    by (simp add: backoff_item_def default_Strategy_def NewStrategy_def)
  have "failure_delay n key ?b = word_of_int (nth_delay n)"
    unfolding failure_delay_def Next_delay
    by (rule next_delay_default [OF after_failures_default [OF default_default] assms
          after_failures_item [OF default_default i assms]])
  then show ?thesis using nth_delay_bounds [of n] sint_of_small [of "nth_delay n"] by simp
qed

section \<open>Properties\<close>

text \<open>The delays of the default strategy, for a key without failures so far: the first three
  failures are retried at once, the fourth after 300 ms, and each delay is half as long again as the one
  before it, up to ten seconds. They never decrease, and from the thirteenth failure on each is ten seconds.\<close>

lemma backoff_delays:
  assumes "n < 2 ^ 64"
  shows "sint (failure_delay n key default_Strategy) = nth_delay n \<and> nth_delay n \<le> nth_delay (Suc n) \<and>
    nth_delay n \<le> 10000000000 \<and> (n \<ge> 12 \<longrightarrow> nth_delay n = 10000000000)"
proof (intro conjI impI)
  show "sint (failure_delay n key default_Strategy) = nth_delay n" by (rule failure_delay_default [OF assms])
  show "nth_delay n \<le> nth_delay (Suc n)"
  proof (cases "3 \<le> n")
    case True
    then have "300000000 \<le> nth_delay n" using delay_ns_bounds [of "n - 3"] by (simp add: nth_delay_def)
    then have "nth_delay n \<le> 3 * nth_delay n div 2" by linarith
    then show ?thesis using nth_delay_Suc [OF True] nth_delay_bounds [of n] by simp
  next
    case False
    then show ?thesis using nth_delay_bounds [of "Suc n"] by (simp add: nth_delay_def)
  qed
  show "nth_delay n \<le> 10000000000" using nth_delay_bounds by simp
  show "nth_delay n = 10000000000" if "12 \<le> n"
    using that delay_ns_max [of "n - 12"] by (simp add: nth_delay_def)
qed

lemma backoff_delays_witness:
  "sint (failure_delay 4 ''a'' default_Strategy) = 450000000"
  using backoff_delays [of 4 "''a''"] by (simp add: nth_delay_def)

end
