(* ===== verification/Reconciler.thy ===== *)
theory Reconciler
  imports World Backoff
begin

text \<open>
  The reconciler that calls the handlers (\<open>arhat.dev/pkg/reconcile\<close>, \<open>kubehelper/reconcile.go\<close>): the
  cache of old and current objects, the job queue, the queue of delayed jobs, the backoff strategy,
  what is done with the result of a handler, and what the events of an informer do. Keys are
  strings, and the handlers work on a state of their own. The cache is required
  (\<open>RequireCache\<close>), as in all reconcilers of the controller.
\<close>

section \<open>The cache\<close>

record ('k, 'o) Cache =
  ca_frozen :: "'k list"
  ca_old :: "('k \<times> 'o) list"
  ca_cache :: "('k \<times> 'o) list"

definition NewCache :: "('k, 'o) Cache" where
  "NewCache = \<lparr>ca_frozen = [], ca_old = [], ca_cache = []\<rparr>"

definition Freeze :: "'k \<Rightarrow> bool \<Rightarrow> ('k, 'o) Cache \<Rightarrow> ('k, 'o) Cache" where
  "Freeze key freeze r =
     (if freeze then r\<lparr>ca_frozen := List.insert key (ca_frozen r)\<rparr>
      else r\<lparr>ca_frozen := removeAll key (ca_frozen r)\<rparr>)"

definition Cache_Update :: "'k \<Rightarrow> 'o option \<Rightarrow> 'o option \<Rightarrow> ('k, 'o) Cache \<Rightarrow> ('k, 'o) Cache" where
  "Cache_Update key old latest r =
     (let r1 = (if key \<notin> set (ca_frozen r)
                then (case old of
                        Some x \<Rightarrow> r\<lparr>ca_old := AList.update key x (ca_old r)\<rparr>
                      | None \<Rightarrow>
                          (case map_of (ca_cache r) key of
                             Some x \<Rightarrow> r\<lparr>ca_old := AList.update key x (ca_old r)\<rparr>
                           | None \<Rightarrow> r))
                else r)
      in case latest of
           None \<Rightarrow> r1
         | Some x \<Rightarrow>
             (let r2 = r1\<lparr>ca_cache := AList.update key x (ca_cache r1)\<rparr>
              in if map_of (ca_old r2) key = None
                 then r2\<lparr>ca_old := AList.update key x (ca_old r2)\<rparr> else r2))"

definition Cache_Delete :: "'k \<Rightarrow> ('k, 'o) Cache \<Rightarrow> ('k, 'o) Cache" where
  "Cache_Delete key r =
     r\<lparr>ca_cache := AList.delete key (ca_cache r), ca_old := AList.delete key (ca_old r)\<rparr>"

definition Cache_Get :: "'k \<Rightarrow> ('k, 'o) Cache \<Rightarrow> 'o option \<times> 'o option" where
  "Cache_Get key r = (map_of (ca_old r) key, map_of (ca_cache r) key)"

section \<open>The core\<close>

record ('k, 'o) Core =
  co_jobQ :: "'k JobQueue"
  co_Cache :: "('k, 'o) Cache"
  co_scheduleQ :: "('k Job, unit) TimeoutQueue"
  co_backoff :: "'k Strategy"

definition NewCore :: "('k, 'o) Core" where
  "NewCore = \<lparr>co_jobQ = NewJobQueue, co_Cache = NewCache, co_scheduleQ = NewTimeoutQueue,
     co_backoff = default_Strategy\<rparr>"

text \<open>A handler may change the state \<open>'w\<close> of the program and returns a result or nil, unless it panics.\<close>

record ('o, 'w) HandleFuncs =
  OnAdded :: "'o \<Rightarrow> 'w \<Rightarrow> (Result option) outcome \<times> 'w"
  OnUpdated :: "'o \<Rightarrow> 'o \<Rightarrow> 'w \<Rightarrow> (Result option) outcome \<times> 'w"
  OnDeleting :: "'o \<Rightarrow> 'w \<Rightarrow> (Result option) outcome \<times> 'w"
  OnDeleted :: "'o \<Rightarrow> 'w \<Rightarrow> (Result option) outcome \<times> 'w"

definition CancelSchedule :: "'k Job \<Rightarrow> ('k, 'o) Core \<Rightarrow> bool \<times> ('k, 'o) Core" where
  "CancelSchedule jb c =
     (let (removedFromJobQ, jobQ) = jq_Remove jb (co_jobQ c);
          (removed, scheduleQ) = tq_Remove jb (co_scheduleQ c)
      in (removedFromJobQ \<or> removed \<noteq> None, c\<lparr>co_jobQ := jobQ, co_scheduleQ := scheduleQ\<rparr>))"

text \<open>\<open>now1\<close> and \<open>now2\<close> are clock readings for a delayed offer.\<close>

definition delay_job :: "'k Job \<Rightarrow> duration \<Rightarrow> gotime \<Rightarrow> gotime \<Rightarrow> ('k, 'o) Core
    \<Rightarrow> go_error option \<times> ('k, 'o) Core" where
  "delay_job jb delay now1 now2 c =
     (let (err, scheduleQ) = OfferWithDelay jb () delay now1 now2 (co_scheduleQ c)
      in (err, c\<lparr>co_scheduleQ := scheduleQ\<rparr>))"

definition offer_job :: "'k Job \<Rightarrow> ('k, 'o) Core \<Rightarrow> go_error option \<times> ('k, 'o) Core" where
  "offer_job jb c = (let (err, jobQ) = jq_Offer jb (co_jobQ c) in (err, c\<lparr>co_jobQ := jobQ\<rparr>))"

definition Schedule :: "'k Job \<Rightarrow> duration \<Rightarrow> gotime \<Rightarrow> gotime \<Rightarrow> ('k, 'o) Core
    \<Rightarrow> go_error option \<times> ('k, 'o) Core" where
  "Schedule jb delay now1 now2 c =
     (let (_, c1) = CancelSchedule jb c
      in if delay = 0
         then (case offer_job jb c1 of
                 (Some err, c2) \<Rightarrow> if err \<noteq> ErrJobDuplicated then (Some err, c2) else (None, c2)
               | (None, c2) \<Rightarrow> (None, c2))
         else delay_job jb delay now1 now2 c1)"

text \<open>The goroutine of \<open>Start\<close>: a delayed job whose time has come is offered to the job queue.\<close>

definition take_delayed :: "('k, 'o) Core \<Rightarrow> ('k, 'o) Core" where
  "take_delayed c =
     (case tq_expired (co_scheduleQ c) of
        [] \<Rightarrow> c
      | t # ts \<Rightarrow>
          snd (offer_job (td_Key t) (c\<lparr>co_scheduleQ := (co_scheduleQ c)\<lparr>tq_expired := ts\<rparr>\<rparr>)))"

section \<open>\<open>handleJob\<close>\<close>

definition resultCacheNotFound :: Result where
  "resultCacheNotFound = result_err (ErrorString ''cache not found'')"

text \<open>From the label \<open>handleResult\<close> on.\<close>

definition next_step :: "'k Job \<Rightarrow> Result \<Rightarrow> ('k, 'o) Core \<Rightarrow> JobAction \<times> duration \<times> ('k, 'o) Core" where
  "next_step jb result c =
     (case rs_Err result of
        Some err \<Rightarrow>
          if rs_ScheduleAfter result = 0
          then (let (delay, b) = bo_Next (jb_Key jb) (co_backoff c)
                in (jb_Action jb, delay, c\<lparr>co_backoff := b\<rparr>))
          else (jb_Action jb, rs_ScheduleAfter result, c)
      | None \<Rightarrow>
          (rs_NextAction result, rs_ScheduleAfter result,
           c\<lparr>co_backoff := snd (bo_Reset (jb_Key jb) (co_backoff c))\<rparr>))"

definition handleResult :: "'k Job \<Rightarrow> Result \<Rightarrow> gotime \<Rightarrow> gotime \<Rightarrow> ('k, 'o) Core \<Rightarrow> ('k, 'o) Core" where
  "handleResult jb result now1 now2 c =
     (let (nA, delay, c1) = next_step jb result c;
          nextJob = mk_job nA (jb_Key jb)
      in if nA = ActionInvalid then c1
         else if sint delay > 0 then snd (delay_job nextJob delay now1 now2 c1)
         else snd (offer_job nextJob c1))"

text \<open>The call of the handler, and what depends on its result before it is handled.\<close>

definition after_update :: "'k \<Rightarrow> Result option \<Rightarrow> ('k, 'o) Core \<Rightarrow> ('k, 'o) Core" where
  "after_update key result c =
     (if result = None \<or> rs_Err (the result) = None
      then c\<lparr>co_Cache := Freeze key False (co_Cache c)\<rparr> else c)"

definition after_cleanup :: "'k \<Rightarrow> Result option \<Rightarrow> ('k, 'o) Core \<Rightarrow> ('k, 'o) Core" where
  "after_cleanup key result c =
     (if (result = None \<or> rs_NextAction (the result) = ActionInvalid) \<and> jq_Find key (co_jobQ c) = None
      then c\<lparr>co_Cache := Cache_Delete key (co_Cache c)\<rparr> else c)"

definition call_handler :: "('o, 'w) HandleFuncs \<Rightarrow> JobAction \<Rightarrow> 'o \<Rightarrow> 'o \<Rightarrow> 'w
    \<Rightarrow> (Result option) outcome \<times> 'w" where
  "call_handler h action previous current w =
     (case action of
        ActionInvalid \<Rightarrow> (Returns None, w)
      | ActionAdd \<Rightarrow> OnAdded h current w
      | ActionUpdate \<Rightarrow> OnUpdated h previous current w
      | ActionDelete \<Rightarrow> OnDeleting h current w
      | ActionCleanup \<Rightarrow> OnDeleted h current w)"

definition after_handler :: "'k Job \<Rightarrow> Result option \<Rightarrow> ('k, 'o) Core \<Rightarrow> ('k, 'o) Core" where
  "after_handler jb result c =
     (case jb_Action jb of
        ActionUpdate \<Rightarrow> after_update (jb_Key jb) result c
      | ActionCleanup \<Rightarrow> after_cleanup (jb_Key jb) result c
      | _ \<Rightarrow> c)"

definition finish_job :: "'k Job \<Rightarrow> Result option \<Rightarrow> gotime \<Rightarrow> gotime \<Rightarrow> ('k, 'o) Core \<Rightarrow> ('k, 'o) Core" where
  "finish_job jb result now1 now2 c =
     (case result of None \<Rightarrow> c | Some res \<Rightarrow> handleResult jb res now1 now2 c)"

definition handleJob :: "('o, 'w) HandleFuncs \<Rightarrow> 'k Job \<Rightarrow> gotime \<Rightarrow> gotime \<Rightarrow> ('k, 'o) Core \<Rightarrow> 'w
    \<Rightarrow> unit outcome \<times> ('k, 'o) Core \<times> 'w" where
  "handleJob h jb now1 now2 c w =
     (if jb_Action jb = ActionInvalid then (Returns (), c, w)
      else
        (case Cache_Get (jb_Key jb) (co_Cache c) of
           (Some previous, Some current) \<Rightarrow>
             (case call_handler h (jb_Action jb) previous current w of
                (Panics p, w1) \<Rightarrow> (Panics p, c, w1)
              | (Returns result, w1) \<Rightarrow>
                  (Returns (), finish_job jb result now1 now2 (after_handler jb result c), w1))
         | _ \<Rightarrow> (Returns (), handleResult jb resultCacheNotFound now1 now2 c, w)))"

text \<open>One iteration of the loop in \<open>ReconcileUntil\<close>; nothing happens while \<open>Acquire\<close> blocks, and the loop
  ends when the queue is paused.\<close>

definition reconcile :: "('o, 'w) HandleFuncs \<Rightarrow> gotime \<Rightarrow> gotime \<Rightarrow> ('k, 'o) Core \<Rightarrow> 'w
    \<Rightarrow> unit outcome \<times> ('k, 'o) Core \<times> 'w" where
  "reconcile h now1 now2 c w =
     (case Acquire (co_jobQ c) of
        None \<Rightarrow> (Returns (), c, w)
      | Some ((None, m), q) \<Rightarrow> (Returns (), c\<lparr>co_jobQ := q\<rparr>, w)
      | Some ((Some jb, m), q) \<Rightarrow> handleJob h jb now1 now2 (c\<lparr>co_jobQ := q\<rparr>) w)"

section \<open>Events of the informer\<close>

text \<open>\<open>kubecache.MetaNamespaceKeyFunc\<close>.\<close>

definition MetaNamespaceKeyFunc :: "ObjectMeta \<Rightarrow> string" where
  "MetaNamespaceKeyFunc m =
     (if om_Namespace m \<noteq> [] then om_Namespace m @ ''/'' @ om_Name m else om_Name m)"

text \<open>No delay is asked for, so that no clock is read. \<open>meta\<close> gives the metadata of an object; the
  error of the scheduling is only logged.\<close>

definition informer_add :: "('o \<Rightarrow> ObjectMeta) \<Rightarrow> 'o \<Rightarrow> (string, 'o) Core \<Rightarrow> (string, 'o) Core" where
  "informer_add meta obj c =
     (let key = MetaNamespaceKeyFunc (meta obj);
          c1 = c\<lparr>co_Cache := Cache_Update key None (Some obj) (co_Cache c)\<rparr>
      in snd (Schedule (mk_job ActionAdd key) 0 0 0 c1))"

definition informer_update :: "('o \<Rightarrow> ObjectMeta) \<Rightarrow> 'o \<Rightarrow> 'o \<Rightarrow> (string, 'o) Core \<Rightarrow> (string, 'o) Core" where
  "informer_update meta old new c =
     (let key = MetaNamespaceKeyFunc (meta old);
          c1 = c\<lparr>co_Cache := Cache_Update key (Some old) (Some new) (co_Cache c)\<rparr>
      in if time_set (om_DeletionTimestamp (meta new))
         then snd (Schedule (mk_job ActionDelete key) 0 0 0 c1)
         else snd (Schedule (mk_job ActionUpdate key) 0 0 0
                (c1\<lparr>co_Cache := Freeze key True (co_Cache c1)\<rparr>)))"

text \<open>The key comes with the event when the final state of the object is unknown.\<close>

definition informer_delete :: "string \<Rightarrow> 'o option \<Rightarrow> (string, 'o) Core \<Rightarrow> (string, 'o) Core" where
  "informer_delete key obj c =
     (let c1 = c\<lparr>co_Cache := Cache_Update key None obj (co_Cache c)\<rparr>
      in snd (Schedule (mk_job ActionCleanup key) 0 0 0 c1))"

section \<open>The state of a core is kept in order\<close>

definition core_ok :: "('k, 'o) Core \<Rightarrow> bool" where
  "core_ok c \<longleftrightarrow> jq_inv (co_jobQ c) \<and> compatible (jq_queue (co_jobQ c)) \<and> tq_inv (co_scheduleQ c)"

lemma core_okI:
  "jq_inv (co_jobQ c) \<Longrightarrow> compatible (jq_queue (co_jobQ c)) \<Longrightarrow> tq_inv (co_scheduleQ c) \<Longrightarrow> core_ok c"
  by (simp add: core_ok_def)

lemma core_ok_frame [simp]:
  "core_ok (c\<lparr>co_Cache := r\<rparr>) = core_ok c" "core_ok (c\<lparr>co_backoff := b\<rparr>) = core_ok c"
  by (simp_all add: core_ok_def)

lemma offer_job_simps [simp]:
  "co_jobQ (snd (offer_job jb c)) = snd (jq_Offer jb (co_jobQ c))" "fst (offer_job jb c) = fst (jq_Offer jb (co_jobQ c))"
  "co_scheduleQ (snd (offer_job jb c)) = co_scheduleQ c" "co_Cache (snd (offer_job jb c)) = co_Cache c"
  "co_backoff (snd (offer_job jb c)) = co_backoff c"
  by (simp_all add: offer_job_def Let_def split_beta)

lemma delay_job_simps [simp]:
  "co_jobQ (snd (delay_job jb d t u c)) = co_jobQ c" "co_Cache (snd (delay_job jb d t u c)) = co_Cache c"
  "co_scheduleQ (snd (delay_job jb d t u c)) = snd (OfferWithDelay jb () d t u (co_scheduleQ c))"
  "fst (delay_job jb d t u c) = fst (OfferWithDelay jb () d t u (co_scheduleQ c))"
  "co_backoff (snd (delay_job jb d t u c)) = co_backoff c"
  by (simp_all add: delay_job_def Let_def split_beta)

lemma CancelSchedule_simps [simp]:
  "co_jobQ (snd (CancelSchedule jb c)) = snd (jq_Remove jb (co_jobQ c))"
  "co_scheduleQ (snd (CancelSchedule jb c)) = snd (tq_Remove jb (co_scheduleQ c))"
  "co_Cache (snd (CancelSchedule jb c)) = co_Cache c" "co_backoff (snd (CancelSchedule jb c)) = co_backoff c"
  by (simp_all add: CancelSchedule_def Let_def split_beta)

lemma core_ok_offer: "core_ok c \<Longrightarrow> core_ok (snd (offer_job jb c))"
  by (simp add: core_ok_def jq.inv_offer jq.compatible_offer)

lemma core_ok_delay: "core_ok c \<Longrightarrow> core_ok (snd (delay_job jb d t u c))"
  by (simp add: core_ok_def OfferWithDelay_def tq_inv_offer)

lemma core_ok_cancel: "core_ok c \<Longrightarrow> core_ok (snd (CancelSchedule jb c))"
  by (simp add: core_ok_def jq.inv_remove jq.compatible_remove tq_inv_remove)

lemma Schedule_now: "snd (Schedule jb 0 t u c) = snd (offer_job jb (snd (CancelSchedule jb c)))"
  by (cases "offer_job jb (snd (CancelSchedule jb c))")
    (auto simp: Schedule_def Let_def split_beta split: option.split)

lemma core_ok_schedule: "core_ok c \<Longrightarrow> core_ok (snd (Schedule jb d t u c))"
proof (cases "d = 0")
  case False
  then show "core_ok c \<Longrightarrow> core_ok (snd (Schedule jb d t u c))"
    by (simp add: Schedule_def Let_def split_beta core_ok_delay core_ok_cancel)
qed (simp add: Schedule_now core_ok_offer core_ok_cancel)

lemma core_ok_take_delayed: "core_ok c \<Longrightarrow> core_ok (take_delayed c)"
proof -
  assume c: "core_ok c"
  have "core_ok (c\<lparr>co_scheduleQ := (co_scheduleQ c)\<lparr>tq_expired := ts\<rparr>\<rparr>)" for ts
    using c by (simp add: core_ok_def tq_inv_def)
  with c show ?thesis by (simp add: take_delayed_def core_ok_offer split: list.split)
qed

lemma core_ok_next_step: "core_ok c \<Longrightarrow> core_ok (snd (snd (next_step jb res c)))"
  by (simp add: next_step_def Let_def split_beta split: option.split)

lemma core_ok_handleResult: "core_ok c \<Longrightarrow> core_ok (handleResult jb res t u c)"
  using core_ok_next_step [of c jb res]
  by (simp add: handleResult_def Let_def split_beta core_ok_delay core_ok_offer)

lemma core_ok_finish: "core_ok c \<Longrightarrow> core_ok (finish_job jb r t u (after_handler jb r c))"
proof -
  assume "core_ok c"
  then have "core_ok (after_handler jb r c)"
    by (simp add: after_handler_def after_update_def after_cleanup_def split: JobAction.split)
  then show ?thesis by (cases r) (simp_all add: finish_job_def core_ok_handleResult)
qed

lemma core_ok_handleJob:
  assumes "core_ok c"
  shows "core_ok (fst (snd (handleJob h jb t u c w)))"
  unfolding handleJob_def Cache_Get_def
  by (auto simp: assms core_ok_handleResult core_ok_finish split: option.split prod.split outcome.split)

lemma core_ok_reconcile:
  assumes "core_ok c"
  shows "core_ok (fst (snd (reconcile h t u c w)))"
proof -
  have q: "core_ok (c\<lparr>co_jobQ := q\<rparr>)" if a: "Acquire (co_jobQ c) = Some ((j, m), q)" for j m q
  proof (cases j)
    case None
    with a have "jq_queue q = jq_queue (co_jobQ c)" using acquire_none by blast
    with a assms show ?thesis using jq_inv_acquire [OF _ a] by (simp add: core_ok_def)
  next
    case (Some jb)
    with a assms have "jq_queue (co_jobQ c) = jb # jq_queue q"
      using acquire_first [of "co_jobQ c" jb m q] by (simp add: core_ok_def)
    with a assms show ?thesis using jq_inv_acquire [OF _ a] compatible_tl [of jb "jq_queue q"]
      by (simp add: core_ok_def)
  qed
  show ?thesis
  proof (cases "Acquire (co_jobQ c)")
    case (Some r)
    then obtain j m q where a: "Acquire (co_jobQ c) = Some ((j, m), q)" by (cases r; cases "fst r") auto
    then show ?thesis using core_ok_handleJob [OF q [OF a]] q [OF a]
      by (cases j) (simp_all add: reconcile_def)
  qed (simp add: reconcile_def assms)
qed

lemma core_ok_informer:
  assumes "core_ok c"
  shows "core_ok (informer_add meta x c)" "core_ok (informer_update meta x y c)" "core_ok (informer_delete key z c)"
  using assms by (simp_all add: informer_add_def informer_update_def informer_delete_def Let_def core_ok_schedule)

lemma core_ok_new: "core_ok NewCore"
  by (simp add: core_ok_def NewCore_def jq_inv_new tq_inv_def index_ok_def NewTimeoutQueue_def)
    (simp add: NewJobQueue_def compatible_def)

section \<open>Properties\<close>

text \<open>What is pending after an event: the job queue as its specification sees it.\<close>

abbreviation pending_jobs :: "('k, 'o) Core \<Rightarrow> 'k Job list" where
  "pending_jobs c \<equiv> jq_queue (co_jobQ c)"

abbreviation key_of :: "('o \<Rightarrow> ObjectMeta) \<Rightarrow> 'o \<Rightarrow> string" where
  "key_of meta x \<equiv> MetaNamespaceKeyFunc (meta x)"

definition is_pending :: "JobAction \<Rightarrow> 'k \<Rightarrow> ('k, 'o) Core \<Rightarrow> bool" where
  "is_pending a k c \<longleftrightarrow> mk_job a k \<in> set (pending_jobs c)"

lemma pending_schedule_now:
  assumes "core_ok c"
  shows "pending_jobs (snd (Schedule jb 0 t u c)) = snd (offer_spec jb (remove1 jb (pending_jobs c)))"
proof -
  have c: "jq_inv (co_jobQ c)" using assms by (simp add: core_ok_def)
  then have "jq_queue (snd (jq_Offer jb (snd (jq_Remove jb (co_jobQ c))))) =
      snd (offer_spec jb (jq_queue (snd (jq_Remove jb (co_jobQ c)))))"
    using jq.offer_table [OF jq.inv_remove [OF c, of jb], of jb] by (metis snd_conv)
  then show ?thesis by (simp add: Schedule_now jq.remove_job [OF c])
qed

lemma pending_informer:
  assumes "core_ok c"
  shows "pending_jobs (informer_add meta x c) =
      (let jb = mk_job ActionAdd (MetaNamespaceKeyFunc (meta x)) in snd (offer_spec jb (remove1 jb (pending_jobs c))))"
    and "pending_jobs (informer_update meta x y c) =
      (let jb = mk_job (if time_set (om_DeletionTimestamp (meta y)) then ActionDelete else ActionUpdate)
                  (MetaNamespaceKeyFunc (meta x)) in snd (offer_spec jb (remove1 jb (pending_jobs c))))"
    and "pending_jobs (informer_delete key z c) =
      (let jb = mk_job ActionCleanup key in snd (offer_spec jb (remove1 jb (pending_jobs c))))"
  using assms by (simp_all add: informer_add_def informer_update_def informer_delete_def Let_def pending_schedule_now)

text \<open>C17: No event of an informer is lost, except one. After an added object a job to add or update
  it is pending; after an update a job to update, add or delete it; after a deletion a job to clean it up.
  After an update that starts the deletion a job to delete it is pending, unless the object is still to
  be added: then both jobs are dropped, and neither \<open>OnAdded\<close> nor \<open>OnDeleting\<close> runs for it.\<close>

theorem event_leaves_job:
  assumes "core_ok c"
  shows "(is_pending ActionAdd (key_of meta x) (informer_add meta x c) \<or>
      is_pending ActionUpdate (key_of meta x) (informer_add meta x c)) \<and>
    (if time_set (om_DeletionTimestamp (meta y))
     then is_pending ActionDelete (key_of meta x) (informer_update meta x y c) \<longleftrightarrow>
       \<not> is_pending ActionAdd (key_of meta x) c
     else \<exists>a \<in> {ActionAdd, ActionUpdate, ActionDelete}. is_pending a (key_of meta x) (informer_update meta x y c)) \<and>
    is_pending ActionCleanup k (informer_delete k z c)"
proof -
  have d: "distinct (pending_jobs c)"
    using assms jq.distinct_jobs by (auto simp: core_ok_def)
  show ?thesis
    using d by (auto simp: pending_informer [OF assms] is_pending_def Let_def in_set_remove1)
qed

definition sample_core :: "(string, ObjectMeta) Core" where
  "sample_core = informer_add (\<lambda>x. x) (zero_ObjectMeta\<lparr>om_Name := ''a''\<rparr>) NewCore"

lemma sample_core_ok: "core_ok sample_core"
  by (simp add: sample_core_def core_ok_informer core_ok_new)

lemma sample_core_jobs: "pending_jobs sample_core = [mk_job ActionAdd ''a'']"
  by code_simp

theorem event_leaves_job_witness:
  "\<not> is_pending ActionDelete ''a'' (informer_update (\<lambda>x. x) (zero_ObjectMeta\<lparr>om_Name := ''a''\<rparr>)
       (zero_ObjectMeta\<lparr>om_Name := ''a'', om_DeletionTimestamp := Some 7\<rparr>) sample_core) \<and>
   is_pending ActionCleanup ''a'' (informer_delete ''a'' None sample_core)"
  using event_leaves_job [OF sample_core_ok, of "\<lambda>x. x" "zero_ObjectMeta\<lparr>om_Name := ''a''\<rparr>"
      "zero_ObjectMeta\<lparr>om_Name := ''a'', om_DeletionTimestamp := Some 7\<rparr>" "''a''" None]
  by (simp add: is_pending_def sample_core_jobs MetaNamespaceKeyFunc_def zero_ObjectMeta_def time_IsZero_def)

text \<open>The cache over a run of updates.\<close>

lemma cache_update_both:
  "Cache_Get k (Cache_Update key (Some old) (Some new) r) =
     (if k = key then (if key \<in> set (ca_frozen r) then case map_of (ca_old r) key of None \<Rightarrow> Some new | Some x \<Rightarrow> Some x
                       else Some old, Some new)
      else Cache_Get k r)"
  by (auto simp: Cache_Get_def Cache_Update_def Let_def update_conv' split: option.split)

lemma informer_update_cache:
  assumes "key_of meta old = key" and "\<not> time_set (om_DeletionTimestamp (meta new))"
  shows "co_Cache (informer_update meta old new c) = Freeze key True (Cache_Update key (Some old) (Some new) (co_Cache c))"
  using assms by (auto simp: informer_update_def Let_def Schedule_now)

lemma Freeze_simps [simp]:
  "Cache_Get k (Freeze key b r) = Cache_Get k r" "set (ca_frozen (Freeze key True r)) = insert key (set (ca_frozen r))"
  "set (ca_frozen (Freeze key False r)) = set (ca_frozen r) - {key}"
  by (simp_all add: Freeze_def Cache_Get_def)

lemma Cache_Update_frozen [simp]: "ca_frozen (Cache_Update key old latest r) = ca_frozen r"
  by (simp add: Cache_Update_def Let_def split: option.split)

lemma updates_keep_frozen:
  assumes "\<forall>(old, new) \<in> set evs. key_of meta old = key \<and> \<not> time_set (om_DeletionTimestamp (meta new))"
    and "key \<in> set (ca_frozen (co_Cache c))" and "Cache_Get key (co_Cache c) = (Some x, Some y)"
  shows "Cache_Get key (co_Cache (fold (\<lambda>(old, new). informer_update meta old new) evs c)) =
    (Some x, Some (if evs = [] then y else snd (last evs)))"
  using assms
proof (induction evs arbitrary: c y)
  case (Cons e evs)
  obtain old new where e: "e = (old, new)" by force
  let ?c = "informer_update meta old new c"
  note u = informer_update_cache [of meta old key new c]
  have "Cache_Get key (co_Cache ?c) = (Some x, Some new)"
    using Cons.prems e by (simp add: u cache_update_both) (simp add: Cache_Get_def)
  moreover have "key \<in> set (ca_frozen (co_Cache ?c))" using Cons.prems e by (simp add: u)
  ultimately show ?case using Cons.IH [of ?c new] Cons.prems e by simp
qed simp

lemma updates_keep_first:
  assumes "evs \<noteq> []" and "key \<notin> set (ca_frozen (co_Cache c))"
    and "\<forall>(old, new) \<in> set evs. key_of meta old = key \<and> \<not> time_set (om_DeletionTimestamp (meta new))"
  shows "Cache_Get key (co_Cache (fold (\<lambda>(old, new). informer_update meta old new) evs c)) =
    (Some (fst (hd evs)), Some (snd (last evs)))"
proof -
  obtain old new es where e: "evs = (old, new) # es" using assms(1) by (cases evs) force+
  let ?c = "informer_update meta old new c"
  note u = informer_update_cache [of meta old key new c]
  have "Cache_Get key (co_Cache ?c) = (Some old, Some new)" "key \<in> set (ca_frozen (co_Cache ?c))"
    using assms e by (simp_all add: u cache_update_both)
  from updates_keep_frozen [OF _ this(2,1), of es meta] assms(3) e show ?thesis by simp
qed

text \<open>C18: The update handler sees the whole change: after any number of updates of an object whose old
  version was not kept before, the handler is given the version before the first of them and the one
  after the last, however many of the jobs were merged; the old version is released only when it
  returns nil or a result without an error.\<close>

theorem update_handler_sees_whole_change:
  assumes "evs \<noteq> []" and "key \<notin> set (ca_frozen (co_Cache c))"
    and "\<forall>(old, new) \<in> set evs. key_of meta old = key \<and> \<not> time_set (om_DeletionTimestamp (meta new))"
    and "c' = fold (\<lambda>(old, new). informer_update meta old new) evs c"
  shows "handleJob h (mk_job ActionUpdate key) t u c' w =
    (case OnUpdated h (fst (hd evs)) (snd (last evs)) w of
       (Panics p, w1) \<Rightarrow> (Panics p, c', w1)
     | (Returns r, w1) \<Rightarrow>
         (Returns (), finish_job (mk_job ActionUpdate key) r t u
            (if r \<noteq> None \<and> rs_Err (the r) \<noteq> None then c'
             else c'\<lparr>co_Cache := Freeze key False (co_Cache c')\<rparr>), w1))"
proof -
  have "Cache_Get key (co_Cache c') = (Some (fst (hd evs)), Some (snd (last evs)))"
    unfolding assms(4) using updates_keep_first [OF assms(1-3)] by simp
  then show ?thesis
    by (auto simp: handleJob_def call_handler_def after_handler_def after_update_def split: prod.split outcome.split)
qed

definition sample_change :: "(ObjectMeta \<times> ObjectMeta) list" where
  "sample_change = [(zero_ObjectMeta\<lparr>om_Name := ''a''\<rparr>, zero_ObjectMeta\<lparr>om_Name := ''a'', om_UID := ''1''\<rparr>),
     (zero_ObjectMeta\<lparr>om_Name := ''a'', om_UID := ''1''\<rparr>, zero_ObjectMeta\<lparr>om_Name := ''a'', om_UID := ''2''\<rparr>)]"

text \<open>A handler that stores the two versions it was given.\<close>

definition sample_handler :: "(ObjectMeta, (string \<times> string) list) HandleFuncs" where
  "sample_handler = \<lparr>OnAdded = \<lambda>_ w. (Returns None, w),
     OnUpdated = \<lambda>old new w. (Returns None, (om_UID old, om_UID new) # w),
     OnDeleting = \<lambda>_ w. (Returns None, w), OnDeleted = \<lambda>_ w. (Returns None, w)\<rparr>"

theorem update_handler_sees_whole_change_witness:
  "snd (snd (handleJob sample_handler (mk_job ActionUpdate ''a'') 0 0
     (fold (\<lambda>(old, new). informer_update (\<lambda>x. x) old new) sample_change NewCore) [])) = [([], ''2'')]"
proof -
  have "\<forall>(old, new) \<in> set sample_change. key_of (\<lambda>x. x) old = ''a'' \<and> \<not> time_set (om_DeletionTimestamp new)"
    by (simp add: sample_change_def MetaNamespaceKeyFunc_def zero_ObjectMeta_def)
  from update_handler_sees_whole_change [OF _ _ this refl, of NewCore sample_handler 0 0 "[]"] show ?thesis
    by (simp add: sample_change_def sample_handler_def NewCore_def NewCache_def zero_ObjectMeta_def)
qed

text \<open>What the handler of a job reports: the error of its result, also when the objects are not cached.\<close>

definition job_result :: "('o, 'w) HandleFuncs \<Rightarrow> 'k Job \<Rightarrow> ('k, 'o) Core \<Rightarrow> 'w \<Rightarrow> (Result option) outcome \<times> 'w" where
  "job_result h jb c w =
     (case Cache_Get (jb_Key jb) (co_Cache c) of
        (Some previous, Some current) \<Rightarrow> call_handler h (jb_Action jb) previous current w
      | _ \<Rightarrow> (Returns (Some resultCacheNotFound), w))"

lemma handleJob_result:
  assumes "jb_Action jb \<noteq> ActionInvalid" and "job_result h jb c w = (Returns r, w1)"
  obtains c0 where "handleJob h jb t u c w = (Returns (), finish_job jb r t u c0, w1)"
    and "co_jobQ c0 = co_jobQ c" "co_scheduleQ c0 = co_scheduleQ c" "co_backoff c0 = co_backoff c"
proof (cases "\<exists>previous current. Cache_Get (jb_Key jb) (co_Cache c) = (Some previous, Some current)")
  case True
  have f: "co_jobQ (after_handler jb r c) = co_jobQ c" "co_scheduleQ (after_handler jb r c) = co_scheduleQ c"
      "co_backoff (after_handler jb r c) = co_backoff c"
    by (simp_all add: after_handler_def after_update_def after_cleanup_def split: JobAction.split)
  with True assms that [of "after_handler jb r c"] show ?thesis
    by (auto simp: handleJob_def job_result_def)
next
  case False
  then have "job_result h jb c w = (Returns (Some resultCacheNotFound), w)"
      "handleJob h jb t u c w = (Returns (), handleResult jb resultCacheNotFound t u c, w)"
    using assms(1) by (auto simp: handleJob_def job_result_def split: option.split prod.split)
  with assms(2) that [of c] show ?thesis by (auto simp: finish_job_def)
qed

text \<open>A delayed job is waiting in the schedule queue, if that queue is running and accepts it.\<close>

lemma delay_job_waits:
  assumes "tq_started (co_scheduleQ c)" and "\<not> tq_stopped (co_scheduleQ c)" and "jb \<notin> set (tq_blackList (co_scheduleQ c))"
  shows "jb \<in> set (tq_keys (co_scheduleQ (snd (delay_job jb d t u c))))"
  using assms by (simp add: OfferWithDelay_def tq_keys_offer offer_result)

lemma offer_job_waits:
  assumes "jq_inv (co_jobQ c)" and "jb_Action jb \<noteq> ActionInvalid"
    and "jb_Action jb = ActionDelete \<Longrightarrow> \<not> is_pending ActionAdd (jb_Key jb) c"
  shows "\<exists>a. is_pending a (jb_Key jb) (snd (offer_job jb c))"
proof -
  have "fst (jq_Offer jb (co_jobQ c)) \<noteq> Some ErrJobCounteract"
    using jq.offer_table [OF assms(1), of jb] assms(2,3)
    by (cases jb; cases "fst (jq_Offer jb (co_jobQ c))") (auto simp: is_pending_def split: if_splits)
  from jq.offer_pending [OF assms(1,2) this] show ?thesis by (simp add: is_pending_def)
qed

text \<open>C25: A job that failed, or whose objects are not cached, is not forgotten: it waits in the queue of
  delayed jobs, or some job of its key is pending, unless it is a deletion and the object is to be
  added again, when both are dropped.\<close>

theorem failed_job_retried:
  assumes "core_ok c" and "jb_Action jb \<noteq> ActionInvalid"
    and "job_result h jb c w = (Returns (Some res), w1)" and "rs_Err res = Some e"
    and "tq_started (co_scheduleQ c)" and "\<not> tq_stopped (co_scheduleQ c)" and "jb \<notin> set (tq_blackList (co_scheduleQ c))"
    and "jb_Action jb = ActionDelete \<longrightarrow> \<not> is_pending ActionAdd (jb_Key jb) c"
    and "c' = fst (snd (handleJob h jb t u c w))"
  shows "jb \<in> set (tq_keys (co_scheduleQ c')) \<or> (\<exists>a. is_pending a (jb_Key jb) c')"
proof -
  obtain c0 where c0: "handleJob h jb t u c w = (Returns (), finish_job jb (Some res) t u c0, w1)"
      "co_jobQ c0 = co_jobQ c" "co_scheduleQ c0 = co_scheduleQ c"
    using handleJob_result [OF assms(2,3), of t u] by metis
  obtain d c1 where n: "next_step jb res c0 = (jb_Action jb, d, c1)" "co_jobQ c1 = co_jobQ c" "co_scheduleQ c1 = co_scheduleQ c"
    using assms(4) c0(2,3) by (cases "rs_ScheduleAfter res = 0") (auto simp: next_step_def split_beta)
  have c': "c' = (if sint d > 0 then snd (delay_job jb d t u c1) else snd (offer_job jb c1))"
    using assms(2,9) c0(1) n(1) by (simp add: finish_job_def handleResult_def)
  show ?thesis
  proof (cases "sint d > 0")
    case True
    then show ?thesis using c' delay_job_waits [of c1 jb d t u] assms(5-7) n(3) by simp
  next
    case False
    then show ?thesis using c' offer_job_waits [of c1 jb] assms(1,2,8) n(2) by (simp add: is_pending_def core_ok_def)
  qed
qed

definition failing_handler :: "(ObjectMeta, unit) HandleFuncs" where
  "failing_handler = \<lparr>OnAdded = \<lambda>_ w. (Returns (Some (result_err ErrStopped)), w),
     OnUpdated = \<lambda>_ _ w. (Returns None, w), OnDeleting = \<lambda>_ w. (Returns None, w), OnDeleted = \<lambda>_ w. (Returns None, w)\<rparr>"

definition acquired_core :: "(string, ObjectMeta) Core" where
  "acquired_core = sample_core\<lparr>co_scheduleQ := tq_Start NewTimeoutQueue\<rparr>"

theorem failed_job_retried_witness:
  "\<exists>a. is_pending a ''a'' (fst (snd (handleJob failing_handler (mk_job ActionAdd ''a'') 0 0 acquired_core ())))"
proof -
  let ?c = "fst (snd (handleJob failing_handler (mk_job ActionAdd ''a'') 0 0 acquired_core ()))"
  have ok: "core_ok acquired_core"
    using sample_core_ok by (simp add: core_ok_def acquired_core_def tq_inv_def index_ok_def NewTimeoutQueue_def tq_Start_def)
  have r: "job_result failing_handler (mk_job ActionAdd ''a'') acquired_core () = (Returns (Some (result_err ErrStopped)), ())"
    by code_simp
  have n: "mk_job ActionAdd ''a'' \<notin> set (tq_keys (co_scheduleQ ?c))" by code_simp
  have "mk_job ActionAdd ''a'' \<in> set (tq_keys (co_scheduleQ ?c)) \<or> (\<exists>a. is_pending a ''a'' ?c)"
    using failed_job_retried [OF ok _ r, of ErrStopped ?c 0 0]
    by (simp add: result_err_def acquired_core_def NewTimeoutQueue_def tq_Start_def)
  with n show ?thesis by blast
qed

text \<open>The results of one job, one after the other.\<close>

definition handle_results :: "'k Job \<Rightarrow> Result option list \<Rightarrow> ('k, 'o) Core \<Rightarrow> ('k, 'o) Core" where
  "handle_results jb rs c = fold (\<lambda>r c. finish_job jb r 0 0 (after_handler jb r c)) rs c"

definition plain_failure :: "Result option \<Rightarrow> bool" where
  "plain_failure r \<longleftrightarrow> (case r of None \<Rightarrow> False | Some res \<Rightarrow> rs_Err res \<noteq> None \<and> rs_ScheduleAfter res = 0)"

lemma after_handler_backoff [simp]: "co_backoff (after_handler jb r c) = co_backoff c"
  by (simp add: after_handler_def after_update_def after_cleanup_def split: JobAction.split)

lemma finish_job_backoff:
  "r = None \<Longrightarrow> co_backoff (finish_job jb r t u c) = co_backoff c"
  "plain_failure r \<Longrightarrow> co_backoff (finish_job jb r t u c) = snd (bo_Next (jb_Key jb) (co_backoff c))"
  by (auto simp: finish_job_def handleResult_def next_step_def plain_failure_def Let_def split_beta split: option.splits)

lemma after_failures_Next: "after_failures n key (snd (bo_Next key b)) = after_failures (Suc n) key b"
  by (induction n) simp_all

lemma results_backoff:
  "\<forall>r \<in> set rs. r = None \<or> plain_failure r \<Longrightarrow>
   co_backoff (handle_results jb rs c) = after_failures (length (filter (\<lambda>r. r \<noteq> None) rs)) (jb_Key jb) (co_backoff c)"
proof (induction rs arbitrary: c)
  case (Cons r rs)
  let ?c = "finish_job jb r 0 0 (after_handler jb r c)"
  have IH: "co_backoff (handle_results jb rs ?c) =
      after_failures (length (filter (\<lambda>r. r \<noteq> None) rs)) (jb_Key jb) (co_backoff ?c)"
    using Cons by simp
  show ?case
  proof (cases r)
    case None
    then show ?thesis using IH by (simp add: handle_results_def finish_job_backoff(1))
  next
    case (Some res)
    then have "plain_failure r" using Cons.prems by simp
    then show ?thesis using IH Some by (simp add: handle_results_def finish_job_backoff after_failures_Next)
  qed
qed (simp add: handle_results_def)

text \<open>A success that is reported as nil does not end the backoff: after any sequence of nil results
  and failures of the jobs of a key, the delay before the next retry is the one for the number of all the
  failures, as if they had followed one another, however many successes lie between them.\<close>

lemma nil_result_keeps_backoff:
  assumes "\<forall>r \<in> set rs. r = None \<or> plain_failure r" and "co_backoff c = default_Strategy"
    and "n = length (filter (\<lambda>r. r \<noteq> None) rs)" and "n < 2 ^ 64"
  shows "sint (fst (bo_Next (jb_Key jb) (co_backoff (handle_results jb rs c)))) = nth_delay n"
proof -
  have "co_backoff (handle_results jb rs c) = after_failures n (jb_Key jb) default_Strategy"
    using results_backoff [OF assms(1), of jb c] assms(2,3) by simp
  then show ?thesis using failure_delay_default [OF assms(4), of "jb_Key jb"] by (simp add: failure_delay_def)
qed

lemma nil_result_keeps_backoff_witness:
  "sint (fst (bo_Next ''a'' (co_backoff (handle_results (mk_job ActionUpdate ''a'')
     [Some (result_err ErrStopped), None, Some (result_err ErrStopped), None, Some (result_err ErrStopped), None] sample_core))))
   = 300000000"
proof -
  have "co_backoff sample_core = default_Strategy"
    by (simp add: sample_core_def informer_add_def Let_def Schedule_now NewCore_def)
  from nil_result_keeps_backoff [OF _ this refl, of "[Some (result_err ErrStopped), None, Some (result_err ErrStopped),
      None, Some (result_err ErrStopped), None]" "mk_job ActionUpdate ''a''"]
  show ?thesis by (simp add: plain_failure_def result_err_def nth_delay_def)
qed

end
