(* ===== verification/System.thy ===== *)
theory System
  imports Controller Reconciler
begin

text \<open>
  The composition: the three reconcilers of the controller (\<open>mtRec\<close>, \<open>mtJobRec\<close>, \<open>jobRec\<close> of
  \<open>controller.go\<close>) with their handlers, the informers that feed them, and the world the handlers share.
  The system is simulated by the step relation of \<open>Controller\<close>, in which the handlers may be called
  with any object at any time, so that every property of the reachable worlds of the controller
  is one of the whole system.
\<close>

section \<open>The handlers of the three reconcilers\<close>

text \<open>A handler without a panic.\<close>

definition total_handler :: "('w \<Rightarrow> Result option \<times> 'w) \<Rightarrow> 'w \<Rightarrow> (Result option) outcome \<times> 'w" where
  "total_handler f w = (let (r, w1) = f w in (Returns r, w1))"

definition mt_handlers :: "env \<Rightarrow> (Maintenance, world) HandleFuncs" where
  "mt_handlers E = \<lparr>
     OnAdded = \<lambda>mt. total_handler (onMaintenanceAdded E mt),
     OnUpdated = \<lambda>oldMt newMt. onMaintenanceUpdated E newMt,
     OnDeleting = \<lambda>mt. total_handler (onMaintenanceDeleting E mt),
     OnDeleted = \<lambda>mt. total_handler (onMaintenanceDeleted E mt)\<rparr>"

definition mj_handlers :: "env \<Rightarrow> (MaintenanceJob, world) HandleFuncs" where
  "mj_handlers E = \<lparr>
     OnAdded = onMaintenanceJobAdded E,
     OnUpdated = \<lambda>oldMtJob newMtJob. total_handler (onMaintenanceJobUpdated E newMtJob),
     OnDeleting = \<lambda>mtJob. total_handler (onMaintenanceJobDeleting E mtJob),
     OnDeleted = \<lambda>mtJob. total_handler (onMaintenanceJobDeleted E mtJob)\<rparr>"

definition job_handlers :: "env \<Rightarrow> (KJob, world) HandleFuncs" where
  "job_handlers E = \<lparr>
     OnAdded = \<lambda>job. total_handler (onJobAdded E job),
     OnUpdated = \<lambda>oldJob newJob. total_handler (onJobUpdated E newJob),
     OnDeleting = \<lambda>job. total_handler (onJobDeleting E job),
     OnDeleted = \<lambda>job. total_handler (onJobDeleted E job)\<rparr>"

section \<open>Shared objects\<close>

text \<open>The caches of a reconciler hold the objects of its informer, whose fields the schedulers assign
  to, so that what is cached may change between two jobs.\<close>

definition change_objects :: "('k \<Rightarrow> 'o \<Rightarrow> 'o) \<Rightarrow> ('k \<Rightarrow> 'o \<Rightarrow> 'o) \<Rightarrow> ('k, 'o) Cache \<Rightarrow> ('k, 'o) Cache" where
  "change_objects f g r = r\<lparr>ca_old := map (\<lambda>(k, x). (k, f k x)) (ca_old r),
     ca_cache := map (\<lambda>(k, x). (k, g k x)) (ca_cache r)\<rparr>"

section \<open>The system\<close>

record sys =
  sy_world :: world
  sy_mt :: "(string, Maintenance) Core"
  sy_mj :: "(string, MaintenanceJob) Core"
  sy_job :: "(string, KJob) Core"

text \<open>After \<open>Start\<close>: the delayed jobs run, and \<open>ReconcileUntil\<close> has resumed the job queues.\<close>

definition started_core :: "('k, 'o) Core" where
  "started_core = (let c = NewCore
     in c\<lparr>co_scheduleQ := tq_Start (co_scheduleQ c), co_jobQ := Resume (co_jobQ c)\<rparr>)"

definition started_sys :: sys where
  "started_sys = \<lparr>sy_world = started_world, sy_mt = started_core, sy_mj = started_core, sy_job = started_core\<rparr>"

text \<open>An object of the controller: one it created or whose status it sent, with any metadata.\<close>

definition informed :: "world \<Rightarrow> MaintenanceJob \<Rightarrow> bool" where
  "informed w x \<longleftrightarrow> (\<exists>j m. x = j\<lparr>mj_Meta := m\<rparr> \<and>
     (MjCreate j \<in> set (writes (wd_Hist w)) \<or> MjUpdateStatus j \<in> set (writes (wd_Hist w))))"

text \<open>What happens to a core without its handlers: an event of its informer, whose objects satisfy \<open>P\<close>,
  a delayed job that is sorted out of the schedule queue or handed on, or cached objects that change.\<close>

inductive core_event :: "('o \<Rightarrow> ObjectMeta) \<Rightarrow> ('o \<Rightarrow> bool) \<Rightarrow> (string, 'o) Core \<Rightarrow> (string, 'o) Core \<Rightarrow> bool"
  for meta P where
  ev_added: "P x \<Longrightarrow> core_event meta P c (informer_add meta x c)"
| ev_updated: "P x \<Longrightarrow> P y \<Longrightarrow> core_event meta P c (informer_update meta x y c)"
| ev_deleted: "pred_option P x \<Longrightarrow> core_event meta P c (informer_delete key x c)"
| ev_sort: "swaps_in_range s (co_scheduleQ c) \<Longrightarrow>
    core_event meta P c (c\<lparr>co_scheduleQ := tq_sort s now (co_scheduleQ c)\<rparr>)"
| ev_take: "core_event meta P c (take_delayed c)"
| ev_change: "(\<And>k x. P x \<Longrightarrow> P (f k x) \<and> P (g k x)) \<Longrightarrow>
    core_event meta P c (c\<lparr>co_Cache := change_objects f g (co_Cache c)\<rparr>)"

inductive_cases core_eventE: "core_event meta P c c'"

text \<open>The goroutines that serve the two schedule queues of the controller.\<close>

inductive queue_step :: "env \<Rightarrow> world \<Rightarrow> world \<Rightarrow> bool" for E where
  q_mt_sort: "swaps_in_range s (wd_MtTQ w) \<Longrightarrow>
    queue_step E w (w\<lparr>wd_MtTQ := tq_sort s now (wd_MtTQ w)\<rparr>)"
| q_mj_sort: "swaps_in_range s (wd_MjTQ w) \<Longrightarrow>
    queue_step E w (w\<lparr>wd_MjTQ := tq_sort s now (wd_MjTQ w)\<rparr>)"
| q_mt_take: "tq_expired (wd_MtTQ w) = d # ds \<Longrightarrow>
    queue_step E w (snd (processMaintenanceSchedule E (td_Key d) (set_mt_expired ds w)))"
| q_mj_take: "tq_expired (wd_MjTQ w) = d # ds \<Longrightarrow>
    queue_step E w (snd (processMaintenanceJobSchedule E (td_Key d) (set_mj_expired ds w)))"

inductive_cases queue_stepE: "queue_step E w w'"

text \<open>The stores of the informers change on their own; the events come later, in any order.\<close>

inductive store_step :: "world \<Rightarrow> world \<Rightarrow> bool" where
  st_mt: "store_step w (w\<lparr>wd_Mt := mts\<rparr>)"
| st_mj: "informed w x \<Longrightarrow> store_step w (put_mj key x w)"
| st_mj_deleted: "store_step w (w\<lparr>wd_Mj := AList.delete key (wd_Mj w)\<rparr>)"

inductive_cases store_stepE: "store_step w w'"

inductive sys_step :: "env \<Rightarrow> sys \<Rightarrow> sys \<Rightarrow> bool" for E where
  sys_queue: "queue_step E (sy_world s) w \<Longrightarrow> sys_step E s (s\<lparr>sy_world := w\<rparr>)"
| sys_store: "store_step (sy_world s) w \<Longrightarrow> sys_step E s (s\<lparr>sy_world := w\<rparr>)"
| mt_event: "core_event mt_Meta (\<lambda>_. True) (sy_mt s) c \<Longrightarrow> sys_step E s (s\<lparr>sy_mt := c\<rparr>)"
| mj_event: "core_event mj_Meta (informed (sy_world s)) (sy_mj s) c \<Longrightarrow> sys_step E s (s\<lparr>sy_mj := c\<rparr>)"
| job_event: "core_event kj_Meta (\<lambda>_. True) (sy_job s) c \<Longrightarrow> sys_step E s (s\<lparr>sy_job := c\<rparr>)"
| mt_reconcile: "reconcile (mt_handlers E) t u (sy_mt s) (sy_world s) = (r, c, w) \<Longrightarrow>
    sys_step E s (s\<lparr>sy_mt := c, sy_world := w\<rparr>)"
| mj_reconcile: "reconcile (mj_handlers E) t u (sy_mj s) (sy_world s) = (r, c, w) \<Longrightarrow>
    sys_step E s (s\<lparr>sy_mj := c, sy_world := w\<rparr>)"
| job_reconcile: "reconcile (job_handlers E) t u (sy_job s) (sy_world s) = (r, c, w) \<Longrightarrow>
    sys_step E s (s\<lparr>sy_job := c, sy_world := w\<rparr>)"

inductive_cases sys_stepE: "sys_step E s s'"

abbreviation reachable_sys :: "env \<Rightarrow> sys \<Rightarrow> bool" where
  "reachable_sys E \<equiv> (sys_step E)\<^sup>*\<^sup>* started_sys"

section \<open>What is cached is known\<close>

definition cached_all :: "('o \<Rightarrow> bool) \<Rightarrow> ('k, 'o) Cache \<Rightarrow> bool" where
  "cached_all P r \<longleftrightarrow> (\<forall>k x. map_of (ca_old r) k = Some x \<or> map_of (ca_cache r) k = Some x \<longrightarrow> P x)"

lemma cached_all_update:
  "cached_all P r \<Longrightarrow> pred_option P old \<Longrightarrow> pred_option P new \<Longrightarrow> cached_all P (Cache_Update key old new r)"
  by (auto simp: cached_all_def Cache_Update_def Let_def update_conv' split: option.splits if_splits)

lemma cached_all_delete: "cached_all P r \<Longrightarrow> cached_all P (Cache_Delete key r)"
  by (auto simp: cached_all_def Cache_Delete_def delete_conv' split: if_splits)

lemma cached_all_freeze [simp]: "cached_all P (Freeze key b r) = cached_all P r"
  by (simp add: cached_all_def Freeze_def)

lemma cached_all_get: "cached_all P r \<Longrightarrow> Cache_Get k r = (Some x, Some y) \<Longrightarrow> P x \<and> P y"
  by (auto simp: cached_all_def Cache_Get_def)

lemma cached_all_mono: "cached_all P r \<Longrightarrow> (\<And>x. P x \<Longrightarrow> Q x) \<Longrightarrow> cached_all Q r"
  by (auto simp: cached_all_def)

lemma map_of_change: "map_of (map (\<lambda>(k, x). (k, f k x)) xs) k = map_option (f k) (map_of xs k)"
  by (induction xs) auto

definition core_known :: "('o \<Rightarrow> bool) \<Rightarrow> ('k, 'o) Core \<Rightarrow> bool" where
  "core_known P c \<longleftrightarrow> core_ok c \<and> cached_all P (co_Cache c)"

lemma core_event_known:
  assumes "core_known P c" and "core_event meta P c c'"
  shows "core_known P c'"
  using assms(2)
proof cases
  case (ev_sort s now)
  then show ?thesis using assms(1) by (auto simp: core_known_def core_ok_def swaps_in_range_def intro!: tq_inv_sort)
next
  case ev_take
  moreover have "co_Cache (take_delayed c) = co_Cache c" by (simp add: take_delayed_def split: list.split)
  ultimately show ?thesis using assms(1) by (simp add: core_known_def core_ok_take_delayed)
next
  case (ev_change f g)
  have "cached_all P (change_objects f g (co_Cache c))"
    using ev_change(2) assms(1)
    by (auto simp: core_known_def cached_all_def change_objects_def map_of_change)
  then show ?thesis using assms(1) ev_change(1) by (simp add: core_known_def)
qed (use assms(1) in \<open>auto simp: core_known_def core_ok_offer core_ok_cancel informer_add_def informer_update_def
    informer_delete_def Let_def Schedule_now intro!: cached_all_update\<close>)

text \<open>A reconciler calls one handler at most, with cached objects.\<close>

lemma cache_after [simp]:
  "co_Cache (handleResult jb res t u c) = co_Cache c"
  "co_Cache (finish_job jb r t u c) = co_Cache c"
proof -
  show h: "co_Cache (handleResult jb res t u c) = co_Cache c" for res
    by (simp add: handleResult_def next_step_def Let_def split_beta split: option.split)
  show "co_Cache (finish_job jb r t u c) = co_Cache c" by (simp add: finish_job_def h split: option.split)
qed

lemma after_handler_known: "cached_all P (co_Cache c) \<Longrightarrow> cached_all P (co_Cache (after_handler jb r c))"
  by (simp add: after_handler_def after_update_def after_cleanup_def cached_all_delete split: JobAction.split)

lemma handleJob_run:
  assumes "handleJob h jb t u c w = (r, c', w')" and "cached_all P (co_Cache c)"
  shows "cached_all P (co_Cache c') \<and>
    (w' = w \<or> (\<exists>x y. P x \<and> P y \<and> w' = snd (call_handler h (jb_Action jb) x y w)))"
proof (cases "jb_Action jb \<noteq> ActionInvalid \<and> (\<exists>x y. Cache_Get (jb_Key jb) (co_Cache c) = (Some x, Some y))")
  case True
  then obtain x y where xy: "Cache_Get (jb_Key jb) (co_Cache c) = (Some x, Some y)" by blast
  note cached_all_get [OF assms(2) xy] after_handler_known [OF assms(2)]
  moreover have "w' = snd (call_handler h (jb_Action jb) x y w)"
    using True xy assms(1) by (auto simp: handleJob_def split: prod.splits outcome.splits)
  moreover have "co_Cache c' = co_Cache c \<or> (\<exists>r. co_Cache c' = co_Cache (after_handler jb r c))"
    using True xy assms(1) by (auto simp: handleJob_def split: prod.splits outcome.splits)
  ultimately show ?thesis using assms(2) by metis
next
  case False
  then have "w' = w" "co_Cache c' = co_Cache c"
    using assms(1) by (auto simp: handleJob_def split: if_splits option.splits prod.splits)
  then show ?thesis using assms(2) by simp
qed

lemma reconcile_run:
  assumes "reconcile h t u c w = (r, c', w')" and "core_known P c"
  shows "core_known P c' \<and> (w' = w \<or> (\<exists>a x y. P x \<and> P y \<and> w' = snd (call_handler h a x y w)))"
proof -
  have ok: "core_ok c'" using core_ok_reconcile [of c h t u w] assms by (simp add: core_known_def)
  have k: "cached_all P (co_Cache (c\<lparr>co_jobQ := q\<rparr>))" for q using assms(2) by (simp add: core_known_def)
  show ?thesis
  proof (cases "Acquire (co_jobQ c)")
    case None
    then show ?thesis using assms by (simp add: reconcile_def)
  next
    case (Some a)
    obtain j m q where a: "a = ((j, m), q)" by (cases a; cases "fst a") auto
    show ?thesis
    proof (cases j)
      case None
      then show ?thesis using assms ok k Some a by (auto simp: reconcile_def core_known_def)
    next
      case (Some jb)
      then have "handleJob h jb t u (c\<lparr>co_jobQ := q\<rparr>) w = (r, c', w')"
        using assms(1) \<open>Acquire (co_jobQ c) = Some a\<close> a by (simp add: reconcile_def)
      from handleJob_run [OF this k] ok show ?thesis by (auto simp: core_known_def)
    qed
  qed
qed

section \<open>Histories grow\<close>

abbreviation grows :: "world \<Rightarrow> world \<Rightarrow> bool" where
  "grows \<equiv> extends (\<lambda>_. True)"

lemma grows_extends: "extends P w w' \<Longrightarrow> grows w w'"
  by (rule extends_mono) simp_all

lemma grows_mj_update [simp]: "grows w w' \<Longrightarrow> grows w (snd (snd (mj_UpdateStatus E j w')))"
  by (simp add: mj_UpdateStatus_def split: sum.split)

lemma grows_nodes [simp]:
  "grows w w' \<Longrightarrow> grows w (snd (drainNodes E j s w'))" "grows w w' \<Longrightarrow> grows w (snd (uncordonNodes E j s w'))"
  by (simp_all add: extends_trans [OF _ grows_extends [OF extends_drainNodes]]
      extends_trans [OF _ grows_extends [OF extends_uncordonNodes]])

lemma grows_update_stage [simp]:
  "grows w w' \<Longrightarrow> grows w (snd (update_stage E k b i f j w'))"
  "grows w w' \<Longrightarrow> grows w (snd (update_stage_err E k b i f j w'))"
proof -
  assume w: "grows w w'"
  then show u: "grows w (snd (update_stage E k b i f j w'))"
    by (simp add: update_stage_def Let_def split_beta)
  then show "grows w (snd (update_stage_err E k b i f j w'))"
    by (simp add: update_stage_err_def split_beta split: outcome.split)
qed

lemma grows_running_stage [simp]: "grows w w' \<Longrightarrow> grows w (snd (running_stage E k b i s spec j w'))"
  by (simp add: running_stage_def Let_def split_beta split: option.split outcome.split)

lemma grows_idle_stage [simp]: "grows w w' \<Longrightarrow> grows w (snd (idle_stage E k b i spec j w'))"
  by (simp add: idle_stage_def job_Create_def Let_def split_beta split: option.split outcome.split)

lemma grows_stage_body [simp]: "grows w w' \<Longrightarrow> grows w (snd (stage_body E k b i s j w'))"
  by (simp add: stage_body_def failed_stage_def succeeded_stage_def Let_def split_beta
      split: option.split outcome.split bool.split)

lemma grows_schedule_stages: "grows w w' \<Longrightarrow> grows w (snd (schedule_stages E k ss i j b w'))"
proof (induction ss arbitrary: i j b w')
  case (Cons s ss)
  then show ?case by (simp add: split_beta split: outcome.split stage_step.split)
qed simp

lemma grows_scheduleMaintenanceJob: "grows w (snd (scheduleMaintenanceJob E ns n w))"
  by (simp add: scheduleMaintenanceJob_def grows_schedule_stages split: sum.split)

lemma grows_process_mj: "grows w (snd (processMaintenanceJobSchedule E n w))"
proof -
  have "grows w (snd (enqueueMaintenanceJobForScheduling E ns n d w1)) = grows w w1" for ns d w1
    by (simp add: extends_def enqueue_job_frame)
  then show ?thesis using process_mj_run [of E n w] grows_scheduleMaintenanceJob by metis
qed

lemma grows_job_updated: "grows w (snd (onJobUpdated E k w))"
proof -
  have s: "grows w (snd (sync_job E k n j w))" for n j
    using sync_stages_never [of E k n "status_stages j" False w]
    by (cases "sync_stages E k n (status_stages j) False w") (simp add: sync_job_def Let_def extends_def)
  then show ?thesis by (simp add: onJobUpdated_def split: option.split)
qed

lemma grows_step:
  assumes "ctrl_step E w w'"
  shows "grows w w'"
  using assms
proof cases
  case (mt_added mt)
  then show ?thesis using grows_extends [OF ext_added] by simp
next
  case (mt_updated mt)
  then show ?thesis using grows_extends [OF ext_updated] by simp
next
  case (mt_deleting mt)
  then show ?thesis using grows_extends [OF ext_deleting] by simp
next
  case (mj_added j m)
  then show ?thesis by (simp add: extends_def onMaintenanceJobAdded_writes)
next
  case (job_updated k)
  then show ?thesis using grows_job_updated by simp
next
  case (mt_take d ds)
  have "grows w (set_mt_expired ds w)" by (simp add: extends_def set_mt_expired_def)
  then show ?thesis using mt_take extends_trans grows_extends [OF ext_process_mt] by metis
next
  case (mj_take d ds)
  have "grows w (set_mj_expired ds w)" by (simp add: extends_def set_mj_expired_def)
  then show ?thesis using mj_take extends_trans grows_process_mj by metis
qed (simp_all add: extends_def)

lemma grows_run: "(ctrl_step E)\<^sup>*\<^sup>* w w' \<Longrightarrow> grows w w'"
  by (induction rule: rtranclp_induct) (auto intro: extends_trans grows_step)

lemma informed_grows: "informed w x \<Longrightarrow> grows w w' \<Longrightarrow> informed w' x"
  by (auto simp: informed_def extends_def)

section \<open>The system is simulated by the controller\<close>

lemma informed_iff: "informed w x \<longleftrightarrow> (\<exists>j m. x = j\<lparr>mj_Meta := m\<rparr> \<and>
    (MjCreate j \<in> set (wd_Hist w) \<or> MjUpdateStatus j \<in> set (wd_Hist w)))"
  by (simp add: informed_def write_in_history)

text \<open>Every call of a handler is a step of the controller, or changes nothing.\<close>

lemma call_mt: "(ctrl_step E)\<^sup>*\<^sup>* w (snd (call_handler (mt_handlers E) a x y w))"
  using mt_added [of E w y] mt_updated [of E w y] mt_deleting [of E w y]
  by (cases a) (simp_all add: call_handler_def mt_handlers_def total_handler_def split_beta
      onMaintenanceDeleted_def r_into_rtranclp)

lemma call_mj: "informed w y \<Longrightarrow> (ctrl_step E)\<^sup>*\<^sup>* w (snd (call_handler (mj_handlers E) a x y w))"
  unfolding informed_iff using mj_added [of _ w E]
  by (cases a) (auto simp: call_handler_def mj_handlers_def total_handler_def split_beta
      onMaintenanceJobUpdated_def onMaintenanceJobDeleting_def onMaintenanceJobDeleted_def r_into_rtranclp)

lemma call_job: "(ctrl_step E)\<^sup>*\<^sup>* w (snd (call_handler (job_handlers E) a x y w))"
  using job_updated [of E w y]
  by (cases a) (simp_all add: call_handler_def job_handlers_def total_handler_def split_beta
      onJobAdded_def onJobDeleting_def onJobDeleted_def r_into_rtranclp)

lemma queue_step_ctrl: "queue_step E w w' \<Longrightarrow> (ctrl_step E)\<^sup>*\<^sup>* w w'"
  by (elim queue_stepE) (auto intro: ctrl_step.intros)

lemma store_step_ctrl: "store_step w w' \<Longrightarrow> (ctrl_step E)\<^sup>*\<^sup>* w w'"
  by (elim store_stepE) (auto simp: informed_iff intro: ctrl_step.intros)

definition sys_ok :: "sys \<Rightarrow> bool" where
  "sys_ok s \<longleftrightarrow> core_known (\<lambda>_. True) (sy_mt s) \<and> core_known (informed (sy_world s)) (sy_mj s) \<and>
     core_known (\<lambda>_. True) (sy_job s)"

lemma started_core_known: "core_known P (started_core :: ('k, 'o) Core)"
  using core_ok_new jq_inv_resume [OF jq_inv_new]
  by (auto simp: core_known_def core_ok_def started_core_def Let_def cached_all_def NewCore_def NewCache_def
      tq_inv_def tq_Start_def)

lemma sys_ok_start: "sys_ok started_sys"
  by (simp add: sys_ok_def started_sys_def started_core_known)

lemma sys_okD:
  assumes "sys_ok s"
  shows "core_known (\<lambda>_. True) (sy_mt s)" and "core_known (informed (sy_world s)) (sy_mj s)"
    and "core_known (\<lambda>_. True) (sy_job s)"
  using assms by (simp_all add: sys_ok_def)

lemma reconcile_sim:
  assumes "reconcile h t u c w = (r, c', w')" and "core_known P c"
    and "\<And>a x y. P x \<Longrightarrow> P y \<Longrightarrow> R\<^sup>*\<^sup>* w (snd (call_handler h a x y w))"
  shows "R\<^sup>*\<^sup>* w w'" and "core_known P c'"
  using reconcile_run [OF assms(1,2)] assms(3) by auto

lemma sys_step_run:
  assumes "sys_ok s" and "sys_step E s s'"
  shows "(ctrl_step E)\<^sup>*\<^sup>* (sy_world s) (sy_world s')"
  using assms(2)
proof cases
  case (mt_reconcile t u r c w)
  then show ?thesis using reconcile_sim(1) [OF mt_reconcile(2) sys_okD(1) [OF assms(1)] call_mt] by simp
next
  case (mj_reconcile t u r c w)
  then show ?thesis using reconcile_sim(1) [OF mj_reconcile(2) sys_okD(2) [OF assms(1)] call_mj] by simp
next
  case (job_reconcile t u r c w)
  then show ?thesis using reconcile_sim(1) [OF job_reconcile(2) sys_okD(3) [OF assms(1)] call_job] by simp
qed (simp_all add: queue_step_ctrl store_step_ctrl)

lemma core_known_grows:
  "core_known (informed w) c \<Longrightarrow> grows w w' \<Longrightarrow> core_known (informed w') c"
  unfolding core_known_def using cached_all_mono informed_grows by metis

lemma sys_ok_step:
  assumes "sys_ok s" and "sys_step E s s'"
  shows "sys_ok s'"
proof -
  note ok = sys_okD [OF assms(1)]
  note mj = core_known_grows [OF _ grows_run [OF sys_step_run [OF assms]]]
  show ?thesis using assms(2)
  proof cases
    case (mt_reconcile t u r c w)
    then show ?thesis using ok mj [OF ok(2)] reconcile_run [OF mt_reconcile(2) ok(1)] by (simp add: sys_ok_def)
  next
    case (mj_reconcile t u r c w)
    then show ?thesis using ok mj [OF reconcile_run [OF mj_reconcile(2) ok(2), THEN conjunct1]] by (simp add: sys_ok_def)
  next
    case (job_reconcile t u r c w)
    then show ?thesis using ok mj [OF ok(2)] reconcile_run [OF job_reconcile(2) ok(3)] by (simp add: sys_ok_def)
  next
    case (mt_event c)
    then show ?thesis using ok core_event_known [OF ok(1) mt_event(2)] by (simp add: sys_ok_def)
  next
    case (mj_event c)
    then show ?thesis using ok core_event_known [OF ok(2) mj_event(2)] by (simp add: sys_ok_def)
  next
    case (job_event c)
    then show ?thesis using ok core_event_known [OF ok(3) job_event(2)] by (simp add: sys_ok_def)
  qed (use ok mj [OF ok(2)] in \<open>simp_all add: sys_ok_def\<close>)
qed

interpretation refines: simulation "sys_step E" started_sys sys_ok "ctrl_step E" started_world sy_world for E
proof (unfold_locales, goal_cases)
  case 1
  show ?case by (rule sys_ok_start)
next
  case (2 s s')
  then show ?case by (rule sys_ok_step)
next
  case 3
  show ?case by (simp add: started_sys_def)
next
  case (4 s s')
  then show ?case by (rule sys_step_run)
qed

section \<open>Properties\<close>

text \<open>C2: The reconcilers, with their job queues, caches, retries and backoff, and the informers that feed them
  implement the controller: every world the whole system reaches is one the controller's step
  relation reaches, so that the properties of the reachable worlds hold for it; and the reconciler
  of the maintenance jobs only ever caches objects the controller created or updated. On the way the
  job queue and the queue of delayed jobs of each reconciler stay in order.\<close>

theorem system_refines_controller:
  assumes "reachable_sys E s"
  shows "reachable E (sy_world s) \<and> core_ok (sy_mt s) \<and> core_ok (sy_mj s) \<and> core_ok (sy_job s) \<and>
    (\<forall>key x. snd (Cache_Get key (co_Cache (sy_mj s))) = Some x \<longrightarrow> informed (sy_world s) x)"
proof -
  have "sys_ok s" using refines.reachable_inv [OF assms] .
  then show ?thesis using refines.reachable_abs [OF assms]
    by (auto simp: sys_ok_def core_known_def cached_all_def Cache_Get_def)
qed

text \<open>A maintenance arrives and is admitted.\<close>

definition sample_sys1 :: sys where
  "sample_sys1 = started_sys\<lparr>sy_mt := informer_add mt_Meta sample_maintenance (sy_mt started_sys)\<rparr>"

definition sample_sys2 :: sys where
  "sample_sys2 = (let (_, c, w) = reconcile (mt_handlers sample_env_rec) 0 0 (sy_mt sample_sys1) (sy_world sample_sys1)
     in sample_sys1\<lparr>sy_mt := c, sy_world := w\<rparr>)"

lemma sample_sys2_reachable: "reachable_sys sample_env_rec sample_sys2"
proof -
  have "sys_step sample_env_rec started_sys sample_sys1"
    unfolding sample_sys1_def by (intro mt_event ev_added) simp
  moreover have "sys_step sample_env_rec sample_sys1 sample_sys2"
    unfolding sample_sys2_def
    by (cases "reconcile (mt_handlers sample_env_rec) 0 0 (sy_mt sample_sys1) (sy_world sample_sys1)")
      (auto intro: mt_reconcile)
  ultimately show ?thesis by (meson rtranclp.simps)
qed

theorem system_refines_controller_witness:
  "reachable sample_env_rec (sy_world sample_sys2) \<and> core_ok (sy_mt sample_sys2)"
  using system_refines_controller [OF sample_sys2_reachable] by simp

text \<open>The next job of a core that is not paused.\<close>

lemma reconcile_job:
  assumes "core_ok c" and "pending_jobs c = jb # ws" and "\<not> jq_paused (co_jobQ c)"
  obtains q where "reconcile h t u c w = handleJob h jb t u (c\<lparr>co_jobQ := q\<rparr>) w"
    and "jq_inv q" and "jq_queue q = ws" and "\<not> jq_paused q" and "core_ok (c\<lparr>co_jobQ := q\<rparr>)"
proof -
  have inv: "jq_inv (co_jobQ c)" and comp: "compatible (jb # ws)" using assms by (simp_all add: core_ok_def)
  then have closed: "jq_closed (co_jobQ c)" using assms(2) by (simp add: jq_inv_def signal_ok_def)
  obtain q where a: "Acquire (co_jobQ c) = Some ((Some jb, True), q)"
    using closed assms(2,3) by (simp add: Acquire_def Let_def)
  then have "\<not> jq_paused q" using assms(2,3) closed by (auto simp: Acquire_def Let_def split: if_splits)
  moreover have "jq_queue q = ws" using acquire_first [OF inv a] assms(2) by simp
  moreover have "jq_inv q" by (rule jq_inv_acquire [OF inv a])
  moreover have "reconcile h t u c w = handleJob h jb t u (c\<lparr>co_jobQ := q\<rparr>) w"
    by (simp add: reconcile_def a)
  moreover have "core_ok (c\<lparr>co_jobQ := q\<rparr>)"
    using calculation assms(1) compatible_tl [OF comp] by (simp add: core_ok_def)
  ultimately show ?thesis using that by blast
qed

lemma paused_frames [simp]:
  "jq_paused (snd (jq_Remove w q)) = jq_paused q" "jq_paused (snd (jq_Offer w q)) = jq_paused q"
  by (simp_all add: jq_Remove_def jq_Offer_def Let_def jq_add_def split: JobAction.split)

lemma paused_informer [simp]:
  "jq_paused (co_jobQ (informer_add meta x c)) = jq_paused (co_jobQ c)"
  "jq_paused (co_jobQ (informer_update meta x y c)) = jq_paused (co_jobQ c)"
  by (simp_all add: informer_add_def informer_update_def Let_def Schedule_now)

lemma informer_add_cache:
  "co_Cache (informer_add meta x c) = Cache_Update (key_of meta x) None (Some x) (co_Cache c)"
  by (simp add: informer_add_def Let_def Schedule_now)

lemma cache_added:
  "\<exists>old. Cache_Get (key_of meta x) (co_Cache (informer_add meta x c)) = (Some old, Some x)"
  unfolding informer_add_cache
  by (auto simp: Cache_Get_def Cache_Update_def Let_def update_conv' split: option.split)

lemma cache_updated:
  "\<not> time_set (om_DeletionTimestamp (meta y)) \<Longrightarrow>
   \<exists>old. Cache_Get (key_of meta x) (co_Cache (informer_update meta x y c)) = (Some old, Some y)"
  by (auto simp: informer_update_cache cache_update_both split: option.split)

text \<open>A result that asks for another action at once.\<close>

lemma finish_next:
  assumes "core_ok c" and "a \<noteq> ActionInvalid"
  shows "pending_jobs (finish_job jb (Some (result_next a)) t u c) =
      snd (offer_spec (mk_job a (jb_Key jb)) (pending_jobs c))"
    and "core_ok (finish_job jb (Some (result_next a)) t u c)"
    and "jq_paused (co_jobQ (finish_job jb (Some (result_next a)) t u c)) = jq_paused (co_jobQ c)"
proof -
  have f: "finish_job jb (Some (result_next a)) t u c = snd (offer_job (mk_job a (jb_Key jb))
      (c\<lparr>co_backoff := snd (bo_Reset (jb_Key jb) (co_backoff c))\<rparr>))"
    using assms(2) by (simp add: finish_job_def handleResult_def next_step_def result_next_def)
  have "jq_inv (co_jobQ c)" using assms(1) by (simp add: core_ok_def)
  from jq.offer_table [OF this, of "mk_job a (jb_Key jb)"]
  show "pending_jobs (finish_job jb (Some (result_next a)) t u c) =
      snd (offer_spec (mk_job a (jb_Key jb)) (pending_jobs c))"
    unfolding f by (simp add: prod_eq_iff)
  show "core_ok (finish_job jb (Some (result_next a)) t u c)" unfolding f using assms(1) by (simp add: core_ok_offer)
  show "jq_paused (co_jobQ (finish_job jb (Some (result_next a)) t u c)) = jq_paused (co_jobQ c)"
    unfolding f by simp
qed

lemma added_admits:
  assumes "admissible E mt" and "\<And>h m. en_MtUpdateStatus E h m = Inr m"
  shows "fst (onMaintenanceAdded E mt w) = Some (result_next ActionUpdate)"
  using assms by (simp add: onMaintenanceAdded_def admissible_def Let_def mt_UpdateStatus_def time_Before_def)

text \<open>The first step: the job to add the object admits it, and asks for its update.\<close>

lemma admit_step:
  assumes "core_ok c" and "pending_jobs c = []" and "\<not> jq_paused (co_jobQ c)"
    and "admissible E mt" and "\<And>h m. en_MtUpdateStatus E h m = Inr m"
    and "reconcile (mt_handlers E) t u (informer_add mt_Meta mt c) w = (r, c1, w1)"
  shows "r = Returns ()" and "w1 = snd (onMaintenanceAdded E mt w)" and "core_ok c1"
    and "pending_jobs c1 = [mk_job ActionUpdate (key_of mt_Meta mt)]" and "\<not> jq_paused (co_jobQ c1)"
proof -
  let ?c = "informer_add mt_Meta mt c" and ?jb = "mk_job ActionAdd (key_of mt_Meta mt)"
  have p: "pending_jobs ?c = [?jb]" by (simp add: pending_informer [OF assms(1)] assms(2) Let_def)
  have np: "\<not> jq_paused (co_jobQ ?c)" using assms(3) by simp
  have ok: "core_ok ?c" using assms(1) by (rule core_ok_informer)
  obtain q where q: "reconcile (mt_handlers E) t u ?c w = handleJob (mt_handlers E) ?jb t u (?c\<lparr>co_jobQ := q\<rparr>) w"
      "jq_queue q = []" "\<not> jq_paused q" "core_ok (?c\<lparr>co_jobQ := q\<rparr>)"
    by (rule reconcile_job [OF ok p np])
  obtain old where "Cache_Get (key_of mt_Meta mt) (co_Cache ?c) = (Some old, Some mt)"
    using cache_added by metis
  then have "handleJob (mt_handlers E) ?jb t u (?c\<lparr>co_jobQ := q\<rparr>) w =
      (Returns (), finish_job ?jb (Some (result_next ActionUpdate)) t u (?c\<lparr>co_jobQ := q\<rparr>), snd (onMaintenanceAdded E mt w))"
    using added_admits [OF assms(4,5), of w]
    by (simp add: handleJob_def call_handler_def mt_handlers_def total_handler_def split_beta after_handler_def)
  with q(1) assms(6) have "r = Returns ()" "w1 = snd (onMaintenanceAdded E mt w)"
    and c1: "c1 = finish_job ?jb (Some (result_next ActionUpdate)) t u (?c\<lparr>co_jobQ := q\<rparr>)" by auto
  then show "r = Returns ()" "w1 = snd (onMaintenanceAdded E mt w)" by auto
  note f = finish_next [OF q(4), of ActionUpdate ?jb t u]
  show "core_ok c1" "pending_jobs c1 = [mk_job ActionUpdate (key_of mt_Meta mt)]" "\<not> jq_paused (co_jobQ c1)"
    using f q(2,3) by (simp_all add: c1)
qed

text \<open>The second step: the update enqueues the admitted object.\<close>

lemma enqueue_step:
  assumes "core_ok c" and "pending_jobs c = [mk_job ActionUpdate (key_of mt_Meta mt)]" and "\<not> jq_paused (co_jobQ c)"
    and "mt_Meta m = mt_Meta mt" and "\<not> time_set (om_DeletionTimestamp (mt_Meta mt))"
    and "onMaintenanceUpdated E m w = (Returns None, w2)"
    and "reconcile (mt_handlers E) t u (informer_update mt_Meta mt m c) w = (r, c1, w1)"
  shows "r = Returns () \<and> w1 = w2 \<and> pending_jobs c1 = [] \<and> core_ok c1"
proof -
  let ?c = "informer_update mt_Meta mt m c" and ?jb = "mk_job ActionUpdate (key_of mt_Meta mt)"
  have p: "pending_jobs ?c = [?jb]"
    using assms(4,5) by (auto simp: pending_informer [OF assms(1)] assms(2) Let_def)
  have np: "\<not> jq_paused (co_jobQ ?c)" using assms(3) by simp
  have ok: "core_ok ?c" using assms(1) by (rule core_ok_informer)
  obtain q where q: "reconcile (mt_handlers E) t u ?c w = handleJob (mt_handlers E) ?jb t u (?c\<lparr>co_jobQ := q\<rparr>) w"
      "jq_queue q = []" "core_ok (?c\<lparr>co_jobQ := q\<rparr>)"
    by (rule reconcile_job [OF ok p np])
  obtain old where "Cache_Get (key_of mt_Meta mt) (co_Cache ?c) = (Some old, Some m)"
    using cache_updated [of mt_Meta m mt c] assms(4,5) by auto
  then have "handleJob (mt_handlers E) ?jb t u (?c\<lparr>co_jobQ := q\<rparr>) w =
      (Returns (), after_update (key_of mt_Meta mt) None (?c\<lparr>co_jobQ := q\<rparr>), w2)"
    using assms(6)
    by (simp add: handleJob_def call_handler_def mt_handlers_def after_handler_def finish_job_def)
  with q assms(7) show ?thesis by (auto simp: after_update_def)
qed

lemma enqueued_writes_nothing:
  assumes "map_of (wd_Mt w) (mt_Name m) = Some m" and "\<not> Canceled m" and "\<not> Finished m"
    and "\<And>h. \<not> Expired m (en_Now E h)"
  shows "writes (wd_Hist (snd (onMaintenanceUpdated E m w))) = writes (wd_Hist w)"
  using onMaintenanceUpdated_run [of "\<lambda>w. writes (wd_Hist w)" E m w] assms
  by (auto simp: enqueue_active)

text \<open>C11: From its arrival to the schedule queue: a maintenance with a valid window that no reconcile job is
  pending for is admitted by a single status update; when the informer brings back the admitted
  object and it passes the checks of \<open>onMaintenanceUpdated\<close>, it is put into the schedule queue, once,
  with no further write, and no job is left.\<close>

theorem added_maintenance_reaches_queue:
  assumes "core_ok c" and "pending_jobs c = []" and "\<not> jq_paused (co_jobQ c)"
    and "admissible E mt" and "\<And>h m. en_MtUpdateStatus E h m = Inr m"
    and "\<not> time_set (om_DeletionTimestamp (mt_Meta mt))"
    and "tq_inv (wd_MtTQ w)" and "distinct (tq_keys (wd_MtTQ w))" and "accepts (mt_Name mt) (wd_MtTQ w)"
    and "m = admitted_now E (en_Now E (wd_Hist w)) mt" and "\<And>h. schedulable E (en_Now E h) m" and "\<not> Canceled m"
    and "reconcile (mt_handlers E) t1 u1 (informer_add mt_Meta mt c) w = (r1, c1, w1)"
    and "reconcile (mt_handlers E) t2 u2 (informer_update mt_Meta mt m c1) (put_mt (mt_Name mt) m w1) = (r2, c2, w2)"
  shows "r1 = Returns () \<and> r2 = Returns () \<and> pending_jobs c2 = [] \<and>
    writes (wd_Hist w2) = MtUpdateStatus m # writes (wd_Hist w) \<and>
    count (mset (tq_keys (wd_MtTQ w2))) (mt_Name mt) = 1"
proof -
  note s = admit_step [OF assms(1-5,13)]
  have w1: "writes (wd_Hist w1) = MtUpdateStatus m # writes (wd_Hist w)" "wd_MtTQ w1 = wd_MtTQ w"
    using assms(4,10) s(2) by (simp_all add: onMaintenanceAdded_writes)
  have m: "mt_Meta m = mt_Meta mt" "ad_ScheduleSince (admitted_of m) \<noteq> None"
    using admission_of_admitted_now [OF assms(4)] assms(10) by (auto simp: admission_of_def)
  let ?w = "put_mt (mt_Name mt) m w1"
  have "\<not> Finished m" "\<And>h. \<not> Expired m (en_Now E h)" using assms(11) by (auto simp: schedulable_def)
  then have u: "fst (onMaintenanceUpdated E m ?w) = Returns None \<and>
      count (mset (tq_keys (wd_MtTQ (snd (onMaintenanceUpdated E m ?w))))) (mt_Name m) = 1"
    using assms(7-9,11,12) m w1(2)
    by (intro updated_enqueues_schedulable [where c = m]) (simp_all add: tq.queue_ok_def)
  have "writes (wd_Hist (snd (onMaintenanceUpdated E m ?w))) = writes (wd_Hist ?w)"
    using assms(11,12) m \<open>\<not> Finished m\<close> \<open>\<And>h. \<not> Expired m (en_Now E h)\<close>
    by (intro enqueued_writes_nothing) simp_all
  moreover have "r2 = Returns () \<and> w2 = snd (onMaintenanceUpdated E m ?w) \<and> pending_jobs c2 = [] \<and> core_ok c2"
    using u by (intro enqueue_step [OF s(3-5) m(1) assms(6) _ assms(14)]) (metis prod.collapse)
  ultimately show ?thesis using s(1) u w1 m by simp
qed

definition sample_admitted_now :: Maintenance where
  "sample_admitted_now = admitted_now sample_env_rec 100 sample_maintenance"

definition sample_sys3 :: sys where
  "sample_sys3 = (let (_, c, w) = reconcile (mt_handlers sample_env_rec) 0 0
       (informer_update mt_Meta sample_maintenance sample_admitted_now (sy_mt sample_sys2))
       (put_mt ''mt'' sample_admitted_now (sy_world sample_sys2))
     in sample_sys2\<lparr>sy_mt := c, sy_world := w\<rparr>)"

theorem added_maintenance_reaches_queue_witness:
  "writes (wd_Hist (sy_world sample_sys3)) = [MtUpdateStatus sample_admitted_now] \<and>
   pending_jobs (sy_mt sample_sys3) = []"
proof -
  obtain r1 c1 w1 where 1: "reconcile (mt_handlers sample_env_rec) 0 0 (informer_add mt_Meta sample_maintenance started_core)
      started_world = (r1, c1, w1)" by (metis prod_cases3)
  obtain r2 c2 w2 where 2: "reconcile (mt_handlers sample_env_rec) 0 0
      (informer_update mt_Meta sample_maintenance sample_admitted_now c1) (put_mt ''mt'' sample_admitted_now w1) = (r2, c2, w2)"
    by (metis prod_cases3)
  have n: "mt_Name sample_maintenance = ''mt''" by (simp add: sample_maintenance_def)
  have w: "writes (wd_Hist w2) = MtUpdateStatus sample_admitted_now # writes (wd_Hist started_world) \<and> pending_jobs c2 = []"
  proof (rule conjI)
    have ok: "core_ok (started_core :: (string, Maintenance) Core)" using started_core_known by (auto simp: core_known_def)
    have p: "pending_jobs (started_core :: (string, Maintenance) Core) = []"
      "\<not> jq_paused (co_jobQ (started_core :: (string, Maintenance) Core))"
      by (simp_all add: started_core_def Let_def NewCore_def NewJobQueue_def Resume_def)
    have a: "admissible sample_env_rec sample_maintenance" by code_simp
    have q: "tq_inv (wd_MtTQ started_world)" "distinct (tq_keys (wd_MtTQ started_world))"
      "accepts (mt_Name sample_maintenance) (wd_MtTQ started_world)"
      using queues_ok_start by (simp_all add: queues_ok_def tq.queue_ok_def accepts_def started_world_def
          NewTimeoutQueue_def tq_Start_def)
    have e: "en_Now sample_env_rec h = 100" "en_MtUpdateStatus sample_env_rec h m = Inr m" for h m
      by (simp_all add: sample_env_rec_def)
    have s: "schedulable sample_env_rec 100 sample_admitted_now" "\<not> Canceled sample_admitted_now" by code_simp+
    have d: "\<not> time_set (om_DeletionTimestamp (mt_Meta sample_maintenance))"
      by (simp add: sample_maintenance_def zero_ObjectMeta_def)
    note r = added_maintenance_reaches_queue [OF ok p a e(2) d q _ _ s(2) 1, unfolded e n,
        OF sample_admitted_now_def s(1) 2]
    show "writes (wd_Hist w2) = MtUpdateStatus sample_admitted_now # writes (wd_Hist started_world)" "pending_jobs c2 = []"
      using r by simp_all
  qed
  moreover have "sy_world sample_sys3 = w2 \<and> sy_mt sample_sys3 = c2"
    using 1 2 by (simp add: sample_sys3_def sample_sys2_def sample_sys1_def started_sys_def)
  ultimately show ?thesis by (simp add: started_world_def)
qed

end
