(* ===== verification/StepWrites.thy ===== *)
theory StepWrites
  imports Controller
begin

text \<open>
  Where the writes of the controller come from: for every step of the running controller, the state it was
  made in, the readings of the clock that precede it, and the object it was made from.
\<close>

section \<open>Status updates of maintenances\<close>

text \<open>The admission of the object a handler was given, which was not admitted yet.\<close>

definition admits :: "env \<Rightarrow> world \<Rightarrow> world \<Rightarrow> Maintenance \<Rightarrow> bool" where
  "admits E w w' m \<longleftrightarrow> (\<exists>c t g. w' = snd (onMaintenanceAdded E c w) \<and> \<not> Admitted c \<and> CanBeScheduledIn c (jobNamespace E) \<and>
     admission_of E t c m \<and> wd_Hist w' = g @ MtUpdateStatus m # Clock t # wd_Hist w)"

text \<open>The snapshot of a cached object that was not scheduled yet, at a time of its window that was just read.\<close>

definition takes_snapshot :: "env \<Rightarrow> world \<Rightarrow> history \<Rightarrow> Maintenance \<Rightarrow> bool" where
  "takes_snapshot E w hist m \<longleftrightarrow> (\<exists>n c t now g. map_of (wd_Mt w) n = Some c \<and> \<not> Canceled c \<and> \<not> Scheduled c \<and>
     Started c now \<and> \<not> Expired c now \<and> snapshot_taken E t c m \<and>
     hist = g @ MtUpdateStatus m # Clock t # Clock now # wd_Hist w)"

text \<open>The end of a cached object that was not finished and whose window was over at the time just read. The same
  step may have taken its snapshot before.\<close>

definition ends_maintenance :: "env \<Rightarrow> world \<Rightarrow> history \<Rightarrow> Maintenance \<Rightarrow> bool" where
  "ends_maintenance E w hist m \<longleftrightarrow> (\<exists>n c d t now g h. map_of (wd_Mt w) n = Some c \<and> \<not> Canceled c \<and> \<not> Finished c \<and>
     Expired c now \<and> maybe_snapshot E c d \<and> m = set_finished t (en_ThisPod E) d \<and>
     hist = g @ MtUpdateStatus m # Clock t # Clock now # h @ wd_Hist w)"

lemma takes_snapshot_later: "takes_snapshot E w hist m \<Longrightarrow> takes_snapshot E w (g @ hist) m"
  unfolding takes_snapshot_def by (metis append_assoc)

lemma ends_later: "ends_maintenance E w hist m \<Longrightarrow> ends_maintenance E w (g @ hist) m"
  unfolding ends_maintenance_def by (metis append_assoc)

section \<open>The handlers\<close>

lemma added_step_admits:
  assumes "writes (wd_Hist (snd (onMaintenanceAdded E c w))) \<noteq> writes (wd_Hist w)"
  obtains m where "writes (wd_Hist (snd (onMaintenanceAdded E c w))) = MtUpdateStatus m # writes (wd_Hist w)"
    and "admits E w (snd (onMaintenanceAdded E c w)) m"
proof -
  have a: "admissible E c" using assms by (simp add: onMaintenanceAdded_writes split: if_splits)
  let ?t = "en_Now E (wd_Hist w)" let ?m = "admitted_now E ?t c"
  have "\<exists>g. wd_Hist (snd (onMaintenanceAdded E c w)) = g @ MtUpdateStatus ?m # Clock ?t # wd_Hist w"
    using a by (auto simp: onMaintenanceAdded_def admissible_def admitted_now_def Let_def mt_UpdateStatus_def time_Before_def
        split: sum.splits)
  then have "admits E w (snd (onMaintenanceAdded E c w)) ?m"
    using a admission_of_admitted_now [OF a] unfolding admits_def admissible_def by blast
  moreover have "writes (wd_Hist (snd (onMaintenanceAdded E c w))) = MtUpdateStatus ?m # writes (wd_Hist w)"
    using a by (simp add: onMaintenanceAdded_writes)
  ultimately show ?thesis using that by blast
qed

lemma doEnqueue_history: "\<exists>g. wd_Hist (snd (doEnqueue E mt now d w)) = g @ wd_Hist w"
  by (simp add: doEnqueue_def mtTQ_offer_time_def mtTQ_offer_delay_def Let_def split_beta split: option.split)

lemma enqueue_history: "\<exists>g. wd_Hist (snd (enqueueMaintenanceForScheduling E n d w)) = g @ wd_Hist w"
proof -
  have e: "\<exists>g. wd_Hist (snd (doEnqueue E mt now d u)) = g @ wd_Hist w" if "wd_Hist u = es @ wd_Hist w" for mt now u es
    using doEnqueue_history [of E mt now d u] that by auto
  show ?thesis
    by (auto simp: enqueueMaintenanceForScheduling_def mt_UpdateStatus_def Let_def split: sum.split intro: e)
qed

lemma enqueue_ends:
  assumes "map_of (wd_Mt v) n = Some d" and "maybe_snapshot E c d" and "map_of (wd_Mt w) n = Some c"
    and "wd_Hist v = h @ wd_Hist w"
  shows "\<exists>new. writes (wd_Hist (snd (enqueueMaintenanceForScheduling E n p v))) = new @ writes (wd_Hist v) \<and>
    (\<forall>e \<in> set new. \<exists>m. e = MtUpdateStatus m \<and>
       ends_maintenance E w (wd_Hist (snd (enqueueMaintenanceForScheduling E n p v))) m)"
proof -
  let ?now = "en_Now E (wd_Hist v)" and ?w' = "snd (enqueueMaintenanceForScheduling E n p v)"
  note ph = same_but_scheduled_phases [OF maybe_snapshot_same [OF assms(2)]]
  consider "Canceled d \<or> Finished d" | "\<not> Canceled d" "\<not> Finished d" "\<not> Expired d ?now"
    | "\<not> Canceled d" "\<not> Finished d" "Expired d ?now" by blast
  then show ?thesis
  proof cases
    case 1
    with enqueue_inactive [OF assms(1) 1] show ?thesis by (intro exI [of _ "[]"]) simp
  next
    case 2
    then show ?thesis by (intro exI [of _ "[]"]) (simp add: enqueue_active [OF assms(1)])
  next
    case 3
    let ?t = "en_Now E (Clock ?now # wd_Hist v)" let ?m = "set_finished ?t (en_ThisPod E) d"
    let ?v = "log_effect (MtUpdateStatus ?m) (put_mt n ?m (log_effect (Clock ?t) (log_effect (Clock ?now) v)))"
    have r: "?w' = (case en_MtUpdateStatus E (wd_Hist (log_effect (Clock ?t) (log_effect (Clock ?now) v))) ?m of
        Inl e \<Rightarrow> snd (doEnqueue E zero_Maintenance ?now p ?v)
      | Inr mt2 \<Rightarrow> log_effect (Event EventTypeNormal ''ScheduleFailed'' (mt_Name mt2)) ?v)"
      using 3 assms(1)
      by (simp add: enqueueMaintenanceForScheduling_def getMaintenanceFromCache_def mt_UpdateStatus_def Let_def split: sum.split)
    then have "\<exists>g. wd_Hist ?w' = g @ MtUpdateStatus ?m # Clock ?t # Clock ?now # h @ wd_Hist w"
      using doEnqueue_history [of E zero_Maintenance ?now p ?v] assms(4) by (auto split: sum.split)
    then have "ends_maintenance E w (wd_Hist ?w') ?m"
      using 3 ph assms(2,3) unfolding ends_maintenance_def by blast
    moreover have "writes (wd_Hist ?w') = MtUpdateStatus ?m # writes (wd_Hist v)"
      using r by (simp split: sum.split)
    ultimately show ?thesis by (intro exI [of _ "[MtUpdateStatus ?m]"]) simp
  qed
qed

lemma updated_ends:
  "\<exists>new. writes (wd_Hist (snd (onMaintenanceUpdated E mt w))) = new @ writes (wd_Hist w) \<and>
     (\<forall>e \<in> set new. \<exists>m. e = MtUpdateStatus m \<and> ends_maintenance E w (wd_Hist (snd (onMaintenanceUpdated E mt w))) m)"
proof (cases "schedulable E (en_Now E (wd_Hist w)) mt")
  case True
  let ?v = "log_effect (Clock (en_Now E (wd_Hist w))) w" and ?p = "sc_PollInterval (schedule_config E)"
  let ?w1 = "snd (enqueueMaintenanceForScheduling E (mt_Name mt) ?p ?v)"
  have "\<exists>es. wd_Hist (snd (onMaintenanceUpdated E mt w)) = es @ wd_Hist ?w1 \<and> writes es = []"
    by (cases "enqueueMaintenanceForScheduling E (mt_Name mt) ?p ?v")
      (simp add: onMaintenanceUpdated_schedulable [OF True] split: outcome.split option.split)
  then obtain es where es: "wd_Hist (snd (onMaintenanceUpdated E mt w)) = es @ wd_Hist ?w1" "writes es = []" by blast
  show ?thesis
  proof (cases "map_of (wd_Mt w) (mt_Name mt)")
    case None
    then have "?w1 = ?v" by (intro enqueue_not_cached) simp
    with es show ?thesis by (intro exI [of _ "[]"]) simp
  next
    case (Some c)
    have c: "map_of (wd_Mt ?v) (mt_Name mt) = Some c" "maybe_snapshot E c c" "wd_Hist ?v = [Clock (en_Now E (wd_Hist w))] @ wd_Hist w"
      using Some by (simp_all add: maybe_snapshot_def)
    from enqueue_ends [OF c(1,2) Some c(3), of ?p] obtain new where new: "writes (wd_Hist ?w1) = new @ writes (wd_Hist w)"
      "\<forall>e \<in> set new. \<exists>m. e = MtUpdateStatus m \<and> ends_maintenance E w (wd_Hist ?w1) m" by auto
    have "ends_maintenance E w (wd_Hist (snd (onMaintenanceUpdated E mt w))) m" if "ends_maintenance E w (wd_Hist ?w1) m" for m
      using ends_later [OF that] by (simp add: es(1))
    with new es show ?thesis by (intro exI [of _ new]) fastforce
  qed
next
  case False
  then have "writes (wd_Hist (snd (onMaintenanceUpdated E mt w))) = writes (wd_Hist w)"
    by (rule onMaintenanceUpdated_rejected(2))
  then show ?thesis by (intro exI [of _ "[]"]) simp
qed

text \<open>Maintenance jobs are created while a cached maintenance is due.\<close>

definition creation_justified :: "env \<Rightarrow> world \<Rightarrow> effect \<Rightarrow> bool" where
  "creation_justified E w e \<longleftrightarrow> (\<exists>j. e = MjCreate j) \<and> write_ok E e \<and> (\<exists>n c. map_of (wd_Mt w) n = Some c \<and> due_now E w c)"

lemma schedule_takes_snapshot:
  "\<exists>new. writes (wd_Hist (snd (scheduleMaintenance E n w))) = new @ writes (wd_Hist w) \<and>
     (\<forall>e \<in> set new. creation_justified E w e \<or>
        (\<exists>m. e = MtUpdateStatus m \<and> takes_snapshot E w (wd_Hist (snd (scheduleMaintenance E n w))) m))"
proof (cases "\<exists>c. map_of (wd_Mt w) n = Some c \<and> due_now E w c")
  case False
  then have "writes (wd_Hist (snd (scheduleMaintenance E n w))) = writes (wd_Hist w)"
    by (intro schedule_not_due) blast
  then show ?thesis by (intro exI [of _ "[]"]) simp
next
  case True
  then obtain c where c: "map_of (wd_Mt w) n = Some c" "due_now E w c" by blast
  let ?w1 = "log_effect (Clock (en_Now E (wd_Hist w))) w"
  let ?w2 = "snd (mark_scheduled E n c ?w1)" and ?w' = "snd (scheduleMaintenance E n w)"
  have w2: "writes (wd_Hist ?w2) = snapshot_writes E w c @ writes (wd_Hist w)"
    using mark_scheduled_run(1) [of E n c ?w1] by (cases "en_MarshalSpec E (mt_Spec c)") (simp_all add: snapshot_writes_def)
  have jobs: "\<exists>jobs. writes (wd_Hist (snd (schedule_jobs E m spec (snd (snapshot_spec E m ?w2))))) = map MjCreate jobs @ writes (wd_Hist ?w2) \<and>
      (\<forall>j \<in> set jobs. write_ok E (MjCreate j))" for m spec
  proof (cases "writes (wd_Hist (snd (schedule_jobs E m spec (snd (snapshot_spec E m ?w2))))) = writes (wd_Hist ?w2)")
    case False
    then have "writes (wd_Hist (snd (schedule_jobs E m spec (snd (snapshot_spec E m ?w2))))) \<noteq>
        writes (wd_Hist (snd (snapshot_spec E m ?w2)))" by simp
    then obtain u nodes js where "node_jobs E m spec u nodes = Returns (Inr js)"
        "snd (schedule_jobs E m spec (snd (snapshot_spec E m ?w2))) =
           create_jobs E js (log_effect (NodeList (spec_selector E spec)) (snd (snapshot_spec E m ?w2)))"
      by (rule schedule_jobs_created)
    then show ?thesis using write_ok_created
      by (intro exI [of _ "rev (created_jobs (log_effect (NodeList (spec_selector E spec)) (snd (snapshot_spec E m ?w2))) js)"])
        (auto simp: create_jobs_writes rev_map)
  qed (auto intro: exI [of _ "[]"])
  have "\<exists>jobs. writes (wd_Hist ?w') = map MjCreate jobs @ writes (wd_Hist ?w2) \<and> (\<forall>j \<in> set jobs. write_ok E (MjCreate j))"
    unfolding schedule_due [OF c] Let_def split_beta using jobs by (auto split: sum.split intro: exI [of _ "[]"])
  then obtain jobs where j: "writes (wd_Hist ?w') = map MjCreate jobs @ writes (wd_Hist ?w2)" "\<forall>j \<in> set jobs. write_ok E (MjCreate j)"
    by blast
  obtain g where g: "wd_Hist ?w' = g @ wd_Hist ?w2" using schedule_after_mark [OF c] by blast
  have "\<exists>m. e = MtUpdateStatus m \<and> takes_snapshot E w (wd_Hist ?w') m" if e: "e \<in> set (snapshot_writes E w c)" for e
  proof -
    from e obtain m where m: "e = MtUpdateStatus m" by (auto simp: snapshot_writes_def split: if_splits sum.splits)
    from e m obtain t where t: "snapshot_taken E t c m" "\<not> Scheduled c"
      "wd_Hist ?w2 = MtUpdateStatus m # Clock t # Clock (en_Now E (wd_Hist w)) # wd_Hist w"
      using snapshot_written [of m E w c n] by blast
    then have "wd_Hist ?w' = g @ MtUpdateStatus m # Clock t # Clock (en_Now E (wd_Hist w)) # wd_Hist w"
      by (simp add: g)
    with t(1,2) c have "takes_snapshot E w (wd_Hist ?w') m" unfolding takes_snapshot_def due_now_def by blast
    with m show ?thesis by blast
  qed
  moreover have "creation_justified E w (MjCreate j)" if "j \<in> set jobs" for j
    using that j(2) c by (auto simp: creation_justified_def)
  ultimately show ?thesis using j(1) w2 by (intro exI [of _ "map MjCreate jobs @ snapshot_writes E w c"]) auto
qed

lemma process_mt_writes:
  "\<exists>new. writes (wd_Hist (snd (processMaintenanceSchedule E n w))) = new @ writes (wd_Hist w) \<and>
     (\<forall>e \<in> set new. creation_justified E w e \<or>
        (\<exists>m. e = MtUpdateStatus m \<and> (takes_snapshot E w (wd_Hist (snd (processMaintenanceSchedule E n w))) m \<or>
           ends_maintenance E w (wd_Hist (snd (processMaintenanceSchedule E n w))) m)))"
proof -
  let ?w1 = "snd (scheduleMaintenance E n w)" and ?p = "sc_PollInterval (schedule_config E)"
  let ?w2 = "snd (enqueueMaintenanceForScheduling E n ?p ?w1)"
  obtain new where new: "writes (wd_Hist ?w1) = new @ writes (wd_Hist w)"
    "\<forall>e \<in> set new. creation_justified E w e \<or> (\<exists>m. e = MtUpdateStatus m \<and> takes_snapshot E w (wd_Hist ?w1) m)"
    using schedule_takes_snapshot by blast
  have "\<exists>new2 g. writes (wd_Hist ?w2) = new2 @ writes (wd_Hist ?w1) \<and> wd_Hist ?w2 = g @ wd_Hist ?w1 \<and>
      (\<forall>e \<in> set new2. \<exists>m. e = MtUpdateStatus m \<and> ends_maintenance E w (wd_Hist ?w2) m)"
  proof (cases "map_of (wd_Mt w) n")
    case None
    then have "?w1 = w" by (simp add: scheduleMaintenance_def getMaintenanceFromCache_def)
    with enqueue_not_cached [OF None] show ?thesis by (intro exI [of _ "[]"]) simp
  next
    case (Some c)
    obtain d where d: "map_of (wd_Mt ?w1) n = Some d" "maybe_snapshot E c d" using schedule_keeps_cached [OF Some] by blast
    obtain h where h: "wd_Hist ?w1 = h @ wd_Hist w" using schedule_history by blast
    from enqueue_history have "\<exists>g. wd_Hist ?w2 = g @ wd_Hist ?w1" .
    with enqueue_ends [OF d Some h, of ?p] show ?thesis by blast
  qed
  then obtain new2 g where n2: "writes (wd_Hist ?w2) = new2 @ writes (wd_Hist ?w1)" "wd_Hist ?w2 = g @ wd_Hist ?w1"
    "\<forall>e \<in> set new2. \<exists>m. e = MtUpdateStatus m \<and> ends_maintenance E w (wd_Hist ?w2) m" by blast
  from process_mt_run [of E n w] show ?thesis
  proof
    assume "snd (processMaintenanceSchedule E n w) = ?w1"
    with new show ?thesis by (intro exI [of _ new]) auto
  next
    assume "snd (processMaintenanceSchedule E n w) = ?w2"
    with new n2 takes_snapshot_later [of E w "wd_Hist ?w1" _ g] show ?thesis
      by (intro exI [of _ "new2 @ new"]) auto
  qed
qed

section \<open>Every write of a step\<close>

text \<open>A maintenance is deleted only by the handler of its deletion, and not while it is under execution. A Kubernetes job
  is made for a stage of a cached job whose turn it is.\<close>

definition write_justified :: "env \<Rightarrow> world \<Rightarrow> world \<Rightarrow> effect \<Rightarrow> bool" where
  "write_justified E w w' e = (case e of
     MtUpdateStatus m \<Rightarrow> admits E w w' m \<or> takes_snapshot E w (wd_Hist w') m \<or> ends_maintenance E w (wd_Hist w') m
   | MjCreate j \<Rightarrow> creation_justified E w e
   | MtDelete n \<Rightarrow> (\<exists>c. w' = snd (onMaintenanceDeleting E c w) \<and> mt_Name c = n \<and> CanBeScheduledIn c (jobNamespace E) \<and>
       (Scheduled c \<longrightarrow> Finished c))
   | JobCreate k \<Rightarrow> (\<exists>n c. map_of (wd_Mj w) (mj_key (jobNamespace E) n) = Some c \<and> stage_write c (JobCreate k))
   | _ \<Rightarrow> write_ok E e)"

lemma write_justified_simps [simp]:
  "write_justified E w w' (MtUpdateStatus m) \<longleftrightarrow>
     admits E w w' m \<or> takes_snapshot E w (wd_Hist w') m \<or> ends_maintenance E w (wd_Hist w') m"
  "write_justified E w w' (MjCreate j) = creation_justified E w (MjCreate j)"
  "write_justified E w w' (MjUpdateStatus j2) = pods_new j2"
  by (simp_all add: write_justified_def)

text \<open>A write of the schedule of maintenance jobs.\<close>

definition stage_justified :: "env \<Rightarrow> world \<Rightarrow> effect \<Rightarrow> bool" where
  "stage_justified E w e \<longleftrightarrow> (\<exists>n c. map_of (wd_Mj w) (mj_key (jobNamespace E) n) = Some c \<and> pods_new c \<and> stage_write c e)"

lemma stage_justified_write: "stage_justified E w e \<Longrightarrow> write_justified E w w' e"
  using pods_new_same by (cases e) (auto simp: stage_justified_def write_justified_def stage_write_def)

lemma process_mj_extends:
  assumes "echo E" and "calls_ok E w"
  shows "extends (stage_justified E w) w (snd (processMaintenanceJobSchedule E n w))"
proof -
  let ?w1 = "snd (scheduleMaintenanceJob E (jobNamespace E) n w)"
  have "extends (stage_justified E w) w ?w1"
  proof (cases "map_of (wd_Mj w) (mj_key (jobNamespace E) n)")
    case (Some c)
    then have "pods_new c" using assms(2) by (auto simp: calls_ok_def)
    then have "stage_justified E w e" if "stage_write c e" for e
      using that Some by (auto simp: stage_justified_def)
    with job_run [OF assms(1) Some] show ?thesis unfolding stage_run_def using extends_mono by blast
  qed (simp add: job_run_uncached)
  then show ?thesis
    using process_mj_run [of E n w] enqueue_job_frame(4) [of E "jobNamespace E" n "jc_PollInterval (jobs_config E)" ?w1]
    by (auto simp: extends_def)
qed

lemma unwritten: "writes (wd_Hist w') = writes (wd_Hist w) \<Longrightarrow> extends P w w'"
  by (simp add: extends_def)

lemma step_writes:
  assumes "echo E" and "calls_ok E w" and "ctrl_step E w w'"
  shows "extends (write_justified E w w') w w'"
  using assms(3)
proof cases
  case (mt_added mt)
  show ?thesis
  proof (cases "writes (wd_Hist w') = writes (wd_Hist w)")
    case False
    then obtain m where "writes (wd_Hist w') = MtUpdateStatus m # writes (wd_Hist w)" "admits E w w' m"
      using added_step_admits [of E mt w] unfolding mt_added by blast
    then show ?thesis by (simp add: extends_def)
  qed (rule unwritten)
next
  case (mt_updated mt)
  obtain new where "writes (wd_Hist w') = new @ writes (wd_Hist w)"
    "\<forall>e \<in> set new. \<exists>m. e = MtUpdateStatus m \<and> ends_maintenance E w (wd_Hist w') m"
    using updated_ends [of E mt w] unfolding mt_updated by blast
  then show ?thesis unfolding extends_def by (intro exI [of _ new]) auto
next
  case (mt_deleting mt)
  then show ?thesis
    by (auto simp: onMaintenanceDeleting_def mt_Delete_def write_justified_def extends_def Let_def split: option.split)
next
  case (mj_added j m)
  have "pods_new (j\<lparr>mj_Meta := m\<rparr>)" using pods_new_informed [OF assms(2) mj_added(2)] .
  then show ?thesis using mj_added
    unfolding extends_def by (auto simp: onMaintenanceJobAdded_writes pods_new_pad)
next
  case (job_updated k)
  have s: "writes (wd_Hist (snd (sync_job E k n j w))) = writes (wd_Hist w)" for n j
    using sync_stages_never [of E k n "status_stages j" False w]
    by (cases "sync_stages E k n (status_stages j) False w") (simp add: sync_job_def Let_def)
  then show ?thesis unfolding job_updated by (intro unwritten) (simp add: onJobUpdated_def split: option.split)
next
  case (mt_take d ds)
  let ?u = "set_mt_expired ds w"
  have u: "writes (wd_Hist ?u) = writes (wd_Hist w)" "takes_snapshot E ?u = takes_snapshot E w"
    "ends_maintenance E ?u = ends_maintenance E w" "creation_justified E ?u = creation_justified E w"
    by (simp_all add: set_mt_expired_def takes_snapshot_def ends_maintenance_def creation_justified_def due_now_def fun_eq_iff)
  obtain new where "writes (wd_Hist w') = new @ writes (wd_Hist w)"
    "\<forall>e \<in> set new. creation_justified E w e \<or> (\<exists>m. e = MtUpdateStatus m \<and>
       (takes_snapshot E w (wd_Hist w') m \<or> ends_maintenance E w (wd_Hist w') m))"
    using process_mt_writes [of E "td_Key d" ?u] unfolding mt_take(1) u by blast
  moreover have "write_justified E w w' e" if "creation_justified E w e" for e
    using that by (cases e) (simp_all add: write_justified_def, auto simp: creation_justified_def)
  ultimately show ?thesis unfolding extends_def by (intro exI [of _ new]) auto
next
  case (mj_take d ds)
  have c: "calls_ok E (set_mj_expired ds w)" using assms(2) by (simp add: calls_ok_def set_mj_expired_def)
  obtain new where new: "writes (wd_Hist w') = new @ writes (wd_Hist w)"
    "\<forall>e \<in> set new. stage_justified E w e"
    using process_mj_extends [OF assms(1) c, of "td_Key d"] unfolding mj_take(1) extends_def
    by (auto simp: set_mj_expired_def stage_justified_def)
  then show ?thesis unfolding extends_def by (intro exI [of _ new]) (auto intro: stage_justified_write)
qed (simp_all add: unwritten set_mt_expired_def)

end
