(* ===== verification/QueueThreads.thy ===== *)
theory QueueThreads
  imports TimeoutQueue Transitions
begin

text \<open>
  The goroutines of the timeout queue (\<open>Start\<close> in \<open>arhat.dev/pkg/queue/timeout_queue.go\<close>), its lock and
  its channels: the timer goroutine, which receives timer resets and sorts, the one that delivers expired
  entries, the consumer of \<open>TakeCh\<close>, and any other threads that use the queue. A step is what happens
  between two points at which a goroutine may have to wait. The clock is part of the state; a timer
  fires at its time or later. The stop channel stays open.
\<close>

section \<open>State\<close>

text \<open>Who may wait in \<open>OfferWithTime\<close> for the timer goroutine to receive, with the lock held.\<close>

datatype caller = TheConsumer | AnotherThread

datatype holder = TimerHolds | OfferHolds caller "64 word"

text \<open>The timer goroutine is in its select statement, or in \<open>sort\<close>: it waits for the lock, or it has it and
  knows the swaps and the clock reading of this run and the reset it still has to send. When it was
  called for a reset of the timer, that reset (\<open>newWait\<close>) follows the sort.\<close>

datatype timer_pc =
    TSelect
  | TWantSort "64 word option"
  | TSorting "64 word option" "64 word option" "(nat \<times> nat) list" gotime

text \<open>The consumer receives from the channel, works on what it received, or has called an operation of the
  queue that waits for the lock.\<close>

datatype consumer_pc = CReceive | CBusy | CCall

text \<open>\<open>th_armed\<close> is the time of a running timer, \<open>th_fired\<close> whether its channel holds a value;
  \<open>th_delivery\<close> is what the delivering goroutine has still to send, and \<open>th_signaled\<close> stands for
  \<open>expireSignaled\<close> and for \<open>hasExpiredData\<close> being closed.\<close>

record ('k, 'd) threads =
  th_q :: "('k, 'd) TimeoutQueue"
  th_now :: gotime
  th_holder :: "holder option"
  th_resetCh :: "64 word list"
  th_armed :: "gotime option"
  th_fired :: bool
  th_timeGot :: bool
  th_timer :: timer_pc
  th_signaled :: bool
  th_expiredData :: "('k, 'd) TimeoutData list"
  th_delivery :: "('k, 'd) TimeoutData list option"
  th_timeoutCh :: "('k, 'd) TimeoutData list"
  th_consumer :: consumer_pc

definition started_threads :: "gotime \<Rightarrow> ('k, 'd) threads" where
  "started_threads now = \<lparr>th_q = tq_Start NewTimeoutQueue, th_now = now, th_holder = None, th_resetCh = [],
     th_armed = None, th_fired = False, th_timeGot = True, th_timer = TSelect, th_signaled = False,
     th_expiredData = [], th_delivery = None, th_timeoutCh = [], th_consumer = CReceive\<rparr>"

section \<open>Steps\<close>

text \<open>\<open>q.timer.Reset\<close> and the end of a turn of the timer goroutine.\<close>

definition reset_timer :: "64 word \<Rightarrow> ('k, 'd) threads \<Rightarrow> ('k, 'd) threads" where
  "reset_timer newWait s = s\<lparr>th_timer := TSelect, th_armed := Some (th_now s + sint newWait), th_timeGot := False\<rparr>"

definition after_sort :: "64 word option \<Rightarrow> ('k, 'd) threads \<Rightarrow> ('k, 'd) threads" where
  "after_sort newWait s = (case newWait of None \<Rightarrow> s\<lparr>th_timer := TSelect\<rparr> | Some w \<Rightarrow> reset_timer w s)"

text \<open>The case of a timer reset: a timer that has fired without a sort since then is sorted for first;
  receiving from its channel may wait.\<close>

definition recv_reset :: "('k, 'd) threads \<Rightarrow> ('k, 'd) threads option" where
  "recv_reset s =
     (case (th_timer s, th_resetCh s) of
        (TSelect, newWait # rest) \<Rightarrow>
          (let s1 = s\<lparr>th_resetCh := rest, th_armed := None\<rparr>
           in if th_armed s \<noteq> None \<or> th_timeGot s then Some (reset_timer newWait s1)
              else if \<not> th_fired s then None
              else Some (s1\<lparr>th_fired := False, th_timeGot := True, th_timer := TWantSort (Some newWait)\<rparr>))
      | _ \<Rightarrow> None)"

definition recv_timer :: "('k, 'd) threads \<Rightarrow> ('k, 'd) threads option" where
  "recv_timer s =
     (if th_timer s = TSelect \<and> th_fired s
      then Some (s\<lparr>th_fired := False, th_timeGot := True, th_timer := TWantSort None\<rparr>) else None)"

text \<open>What a sort of \<open>q\<close> finds: the entries that are due, and the reset for the first one that is not.\<close>

definition sort_due :: "(nat \<times> nat) list \<Rightarrow> gotime \<Rightarrow> ('k, 'd) TimeoutQueue \<Rightarrow> ('k, 'd) TimeoutData list" where
  "sort_due swaps now q = takeWhile (due (UnixNano now)) (tq_data (tq_swaps swaps q))"

definition sort_reset :: "(nat \<times> nat) list \<Rightarrow> gotime \<Rightarrow> ('k, 'd) TimeoutQueue \<Rightarrow> 64 word option" where
  "sort_reset swaps now q =
     (case dropWhile (due (UnixNano now)) (tq_data (tq_swaps swaps q)) of
        [] \<Rightarrow> None | c # _ \<Rightarrow> Some (td_expireAt c - UnixNano now))"

text \<open>The lock is taken; without data the sort is over.\<close>

definition lock_sort :: "(nat \<times> nat) list \<Rightarrow> ('k, 'd) threads \<Rightarrow> ('k, 'd) threads option" where
  "lock_sort swaps s =
     (case th_timer s of
        TWantSort newWait \<Rightarrow>
          if th_holder s \<noteq> None then None
          else if tq_data (th_q s) = [] then Some (after_sort newWait s)
          else if \<not> swaps_in_range swaps (th_q s) then None
          else Some (s\<lparr>th_holder := Some TimerHolds,
            th_timer := TSorting newWait (sort_reset swaps (th_now s) (th_q s)) swaps (th_now s)\<rparr>)
      | _ \<Rightarrow> None)"

text \<open>\<open>q.resetCh <- c.expireAt - now\<close>, which needs room in the channel, and can only be received by the
  goroutine that sends it.\<close>

definition send_reset :: "('k, 'd) threads \<Rightarrow> ('k, 'd) threads option" where
  "send_reset s =
     (case th_timer s of
        TSorting newWait (Some w) swaps now \<Rightarrow>
          if th_resetCh s = [] then Some (s\<lparr>th_resetCh := [w], th_timer := TSorting newWait None swaps now\<rparr>) else None
      | _ \<Rightarrow> None)"

text \<open>Once the last expired data have been delivered, the new ones are handed over, and the lock is
  released. The queue is now as \<open>tq_sort\<close> says.\<close>

definition hand_over :: "('k, 'd) threads \<Rightarrow> ('k, 'd) threads option" where
  "hand_over s =
     (case th_timer s of
        TSorting newWait None swaps now \<Rightarrow>
          (let e = sort_due swaps now (th_q s);
               s1 = after_sort newWait (s\<lparr>th_q := tq_sort swaps now (th_q s), th_holder := None\<rparr>)
           in if e = [] then Some s1
              else if th_signaled s then None
              else Some (s1\<lparr>th_expiredData := e, th_signaled := True\<rparr>))
      | _ \<Rightarrow> None)"

text \<open>The delivering goroutine.\<close>

definition begin_delivery :: "('k, 'd) threads \<Rightarrow> ('k, 'd) threads option" where
  "begin_delivery s =
     (if th_delivery s = None \<and> th_signaled s then Some (s\<lparr>th_delivery := Some (th_expiredData s)\<rparr>) else None)"

definition deliver :: "('k, 'd) threads \<Rightarrow> ('k, 'd) threads option" where
  "deliver s =
     (case th_delivery s of
        Some (d # ds) \<Rightarrow> if th_timeoutCh s = [] then Some (s\<lparr>th_timeoutCh := [d], th_delivery := Some ds\<rparr>) else None
      | _ \<Rightarrow> None)"

definition end_delivery :: "('k, 'd) threads \<Rightarrow> ('k, 'd) threads option" where
  "end_delivery s =
     (if th_delivery s = Some []
      then Some (s\<lparr>th_delivery := None, th_expiredData := [], th_signaled := False\<rparr>) else None)"

text \<open>The consumer takes an entry, works on it, and may call operations of the queue on the way.\<close>

definition take_entry :: "('k, 'd) threads \<Rightarrow> ('k, 'd) threads option" where
  "take_entry s =
     (case (th_consumer s, th_timeoutCh s) of
        (CReceive, d # ds) \<Rightarrow> Some (s\<lparr>th_timeoutCh := ds, th_consumer := CBusy\<rparr>)
      | _ \<Rightarrow> None)"

definition consumer_call :: "('k, 'd) threads \<Rightarrow> ('k, 'd) threads option" where
  "consumer_call s = (if th_consumer s = CBusy then Some (s\<lparr>th_consumer := CCall\<rparr>) else None)"

definition consumer_done :: "('k, 'd) threads \<Rightarrow> ('k, 'd) threads option" where
  "consumer_done s = (if th_consumer s = CBusy then Some (s\<lparr>th_consumer := CReceive\<rparr>) else None)"

text \<open>A call that only reads (\<open>Find\<close>) needs the lock for a moment; the consumer goes on with its work.\<close>

definition consumer_find :: "('k, 'd) threads \<Rightarrow> ('k, 'd) threads option" where
  "consumer_find s =
     (if th_consumer s = CCall \<and> th_holder s = None then Some (s\<lparr>th_consumer := CBusy\<rparr>) else None)"

text \<open>\<open>OfferWithTime\<close>: when it has to reset the timer, it keeps the lock until the channel has room.\<close>

definition back_to :: "caller \<Rightarrow> ('k, 'd) threads \<Rightarrow> ('k, 'd) threads" where
  "back_to c s = (case c of TheConsumer \<Rightarrow> s\<lparr>th_consumer := CBusy\<rparr> | AnotherThread \<Rightarrow> s)"

definition start_offer :: "caller \<Rightarrow> 'k \<Rightarrow> 'd \<Rightarrow> gotime \<Rightarrow> ('k, 'd) threads \<Rightarrow> ('k, 'd) threads option" where
  "start_offer c key val at s =
     (if th_holder s \<noteq> None \<or> (c = TheConsumer \<and> th_consumer s \<noteq> CCall) then None
      else
        (let q = snd (OfferWithTime key val at (th_now s) (th_q s))
         in if length (tq_resets q) > length (tq_resets (th_q s))
            then Some (s\<lparr>th_q := q, th_holder := Some (OfferHolds c (hd (tq_resets q)))\<rparr>)
            else Some (back_to c (s\<lparr>th_q := q\<rparr>))))"

definition send_offer :: "('k, 'd) threads \<Rightarrow> ('k, 'd) threads option" where
  "send_offer s =
     (case th_holder s of
        Some (OfferHolds c w) \<Rightarrow>
          if th_resetCh s = [] then Some (back_to c (s\<lparr>th_resetCh := [w], th_holder := None\<rparr>)) else None
      | _ \<Rightarrow> None)"

text \<open>The operations that never wait with the lock held.\<close>

datatype 'k edit = ERemove 'k | EClear | EAllow 'k | EForbid 'k

fun edit_queue :: "'k edit \<Rightarrow> ('k, 'd) TimeoutQueue \<Rightarrow> ('k, 'd) TimeoutQueue" where
  "edit_queue (ERemove k) q = snd (tq_Remove k q)"
| "edit_queue EClear q = tq_Clear q"
| "edit_queue (EAllow k) q = tq_Allow k q"
| "edit_queue (EForbid k) q = tq_Forbid k q"

text \<open>All steps, by what makes them. The first group is what the goroutines do on their own.\<close>

datatype ('k, 'd) th_action =
    RecvReset | RecvTimer | LockSort "(nat \<times> nat) list" | SendReset | HandOver
  | BeginDelivery | Deliver | EndDelivery | TakeEntry | ConsumerDone | ConsumerFind | SendOffer
  | ConsumerCall | StartOffer caller 'k 'd gotime | Edit "'k edit" | Tick int | Fire

fun th_step :: "('k, 'd) th_action \<Rightarrow> ('k, 'd) threads \<Rightarrow> ('k, 'd) threads option" where
  "th_step RecvReset s = recv_reset s"
| "th_step RecvTimer s = recv_timer s"
| "th_step (LockSort swaps) s = lock_sort swaps s"
| "th_step SendReset s = send_reset s"
| "th_step HandOver s = hand_over s"
| "th_step BeginDelivery s = begin_delivery s"
| "th_step Deliver s = deliver s"
| "th_step EndDelivery s = end_delivery s"
| "th_step TakeEntry s = take_entry s"
| "th_step ConsumerDone s = consumer_done s"
| "th_step ConsumerFind s = consumer_find s"
| "th_step SendOffer s = send_offer s"
| "th_step ConsumerCall s = consumer_call s"
| "th_step (StartOffer c k v at) s = start_offer c k v at s"
| "th_step (Edit e) s = (if th_holder s \<noteq> None then None else Some (s\<lparr>th_q := edit_queue e (th_q s)\<rparr>))"
| "th_step (Tick n) s = (if n < 0 then None else Some (s\<lparr>th_now := th_now s + n\<rparr>))"
| "th_step Fire s =
     (case th_armed s of
        Some t \<Rightarrow> if t \<le> th_now s then Some (s\<lparr>th_armed := None, th_fired := True\<rparr>) else None
      | None \<Rightarrow> None)"

fun internal :: "('k, 'd) th_action \<Rightarrow> bool" where
  "internal (StartOffer _ _ _ _) = False"
| "internal ConsumerCall = False"
| "internal (Edit _) = False"
| "internal (Tick _) = False"
| "internal Fire = False"
| "internal _ = True"

definition th_moves :: "('k, 'd) threads \<Rightarrow> ('k, 'd) threads \<Rightarrow> bool" where
  "th_moves s s' \<longleftrightarrow> (\<exists>a. th_step a s = Some s')"

fun th_run :: "('k, 'd) th_action list \<Rightarrow> ('k, 'd) threads \<Rightarrow> ('k, 'd) threads option" where
  "th_run [] s = Some s"
| "th_run (a # as) s = (case th_step a s of None \<Rightarrow> None | Some s' \<Rightarrow> th_run as s')"

abbreviation th_reachable :: "('k, 'd) threads \<Rightarrow> bool" where
  "th_reachable s \<equiv> \<exists>now. th_moves\<^sup>*\<^sup>* (started_threads now) s"

lemma th_run_moves: "th_run as s = Some s' \<Longrightarrow> th_moves\<^sup>*\<^sup>* s s'"
proof (induction as arbitrary: s)
  case (Cons a as)
  then obtain s1 where "th_step a s = Some s1" "th_run as s1 = Some s'" by (auto split: option.splits)
  with Cons.IH show ?case by (meson converse_rtranclp_into_rtranclp th_moves_def)
qed simp


section \<open>Invariant\<close>

text \<open>There is something that will make the timer goroutine sort.\<close>

definition waking :: "('k, 'd) threads \<Rightarrow> bool" where
  "waking s \<longleftrightarrow> th_armed s \<noteq> None \<or> th_fired s \<or> th_resetCh s \<noteq> [] \<or>
     th_holder s \<noteq> None \<or> th_timer s \<noteq> TSelect"

definition channels_ok :: "('k, 'd) threads \<Rightarrow> bool" where
  "channels_ok s \<longleftrightarrow> length (th_resetCh s) \<le> 1 \<and> length (th_timeoutCh s) \<le> 1 \<and>
     (th_delivery s \<noteq> None \<longrightarrow> th_signaled s) \<and> (\<not> th_signaled s \<longrightarrow> th_expiredData s = [])"

text \<open>The timer is running or has fired exactly when no sort has taken note of it, not both,
  and neither while the timer goroutine sorts.\<close>

definition timer_ok :: "('k, 'd) threads \<Rightarrow> bool" where
  "timer_ok s \<longleftrightarrow> (\<not> th_timeGot s \<longleftrightarrow> th_armed s \<noteq> None \<or> th_fired s) \<and>
     \<not> (th_armed s \<noteq> None \<and> th_fired s) \<and> (th_timer s \<noteq> TSelect \<longrightarrow> th_timeGot s)"

definition sorting_ok :: "('k, 'd) threads \<Rightarrow> bool" where
  "sorting_ok s \<longleftrightarrow> (case th_timer s of
     TSorting newWait r swaps now \<Rightarrow> th_holder s = Some TimerHolds \<and> swaps_in_range swaps (th_q s) \<and>
       (r = None \<longrightarrow> sort_reset swaps now (th_q s) = None \<or> th_resetCh s \<noteq> [])
   | _ \<Rightarrow> th_holder s \<noteq> Some TimerHolds)"

definition th_inv :: "('k, 'd) threads \<Rightarrow> bool" where
  "th_inv s \<longleftrightarrow> tq_inv (th_q s) \<and> tq_started (th_q s) \<and> \<not> tq_stopped (th_q s) \<and> channels_ok s \<and> timer_ok s \<and>
     sorting_ok s \<and> (tq_data (th_q s) \<noteq> [] \<longrightarrow> waking s)"

lemma sorting_ok_frame [simp]:
  "sorting_ok (s\<lparr>th_now := a\<rparr>) = sorting_ok s" "sorting_ok (s\<lparr>th_armed := b\<rparr>) = sorting_ok s"
  "sorting_ok (s\<lparr>th_fired := c\<rparr>) = sorting_ok s" "sorting_ok (s\<lparr>th_timeGot := c\<rparr>) = sorting_ok s"
  "sorting_ok (s\<lparr>th_signaled := c\<rparr>) = sorting_ok s" "sorting_ok (s\<lparr>th_expiredData := d\<rparr>) = sorting_ok s"
  "sorting_ok (s\<lparr>th_delivery := e\<rparr>) = sorting_ok s" "sorting_ok (s\<lparr>th_timeoutCh := d\<rparr>) = sorting_ok s"
  "sorting_ok (s\<lparr>th_consumer := f\<rparr>) = sorting_ok s"
  by (simp_all add: sorting_ok_def split: timer_pc.split)

lemmas th_inv_defs = th_inv_def waking_def channels_ok_def timer_ok_def

lemmas timer_step_defs = recv_reset_def recv_timer_def lock_sort_def send_reset_def hand_over_def
  reset_timer_def after_sort_def

lemmas other_step_defs = begin_delivery_def deliver_def end_delivery_def take_entry_def consumer_call_def
  consumer_done_def consumer_find_def send_offer_def back_to_def

lemma th_inv_start: "th_inv (started_threads now)"
  by (simp add: th_inv_defs sorting_ok_def started_threads_def NewTimeoutQueue_def tq_Start_def tq_inv_def index_ok_def)

lemma sort_queue:
  assumes "\<not> tq_stopped q"
  shows "tq_started (tq_sort sw now q) = tq_started q" "\<not> tq_stopped (tq_sort sw now q)"
    and "tq_data (tq_sort sw now q) = [] \<longleftrightarrow> sort_reset sw now q = None"
proof -
  have "tq_started (tq_swaps s q) = tq_started q" for s
    by (induction s q rule: tq_swaps.induct) (auto simp: tq_Swap_def Let_def)
  then show "tq_started (tq_sort sw now q) = tq_started q" "\<not> tq_stopped (tq_sort sw now q)"
    using assms by (auto simp: tq_sort_def Let_def split: list.split)
  show "tq_data (tq_sort sw now q) = [] \<longleftrightarrow> sort_reset sw now q = None"
    unfolding tq_sort_split(2) [OF assms] sort_reset_def
    by (cases "dropWhile (due (UnixNano now)) (tq_data (tq_swaps sw q))") (simp_all del: dropWhile_eq_Nil_conv)
qed

lemma edit_queue_frame:
  "tq_started (edit_queue e q) = tq_started q" "tq_stopped (edit_queue e q) = tq_stopped q"
  by (cases e; simp add: tq_Remove_def tq_Clear_def tq_Allow_def tq_Forbid_def Let_def split: option.split)+

lemma edit_queue_inv:
  assumes "tq_inv q"
  shows "tq_inv (edit_queue e q)" and "tq_data (edit_queue e q) \<noteq> [] \<Longrightarrow> tq_data q \<noteq> []"
proof -
  show "tq_inv (edit_queue e q)" using assms by (cases e) (simp_all add: tq_inv_remove)
  have "tq_data (snd (tq_Remove k q)) = []" if "tq_data q = []" for k
    using that by (simp add: tq_Remove_def Let_def split: option.split)
  then show "tq_data (edit_queue e q) \<noteq> [] \<Longrightarrow> tq_data q \<noteq> []"
    by (cases e) (auto simp: tq_Clear_def tq_Allow_def tq_Forbid_def)
qed

lemma offer_queue:
  "tq_started (snd (OfferWithTime k v at now q)) = tq_started q"
  "tq_stopped (snd (OfferWithTime k v at now q)) = tq_stopped q"
  by (simp_all add: OfferWithTime_def Let_def)

lemma offer_wakes:
  assumes "\<not> length (tq_resets (snd (OfferWithTime k v at now q))) > length (tq_resets q)"
    and "tq_data (snd (OfferWithTime k v at now q)) \<noteq> []"
  shows "tq_data q \<noteq> []"
  using assms by (auto simp: OfferWithTime_def Let_def split: if_splits)


lemma th_inv_after_sort:
  assumes "tq_inv (th_q s) \<and> tq_started (th_q s) \<and> \<not> tq_stopped (th_q s)" and "channels_ok s"
    and "th_holder s = None" and "th_timeGot s" "th_armed s = None" "\<not> th_fired s"
    and "tq_data (th_q s) \<noteq> [] \<longrightarrow> th_resetCh s \<noteq> []"
  shows "th_inv (after_sort newWait s)"
  using assms
  by (cases newWait) (simp_all add: after_sort_def reset_timer_def th_inv_def channels_ok_def timer_ok_def
      sorting_ok_def waking_def)

lemma th_inv_recv_reset:
  assumes "th_inv s" and "recv_reset s = Some s'"
  shows "th_inv s'"
proof -
  obtain w rest where c: "th_timer s = TSelect" "th_resetCh s = w # rest"
    using assms(2) by (auto simp: recv_reset_def split: timer_pc.splits list.splits)
  then have t: "th_holder s \<noteq> Some TimerHolds" "rest = []" and ok: "channels_ok s" "timer_ok s"
    and q: "tq_inv (th_q s) \<and> tq_started (th_q s) \<and> \<not> tq_stopped (th_q s)"
    using assms(1) by (simp_all add: th_inv_def sorting_ok_def channels_ok_def)
  show ?thesis
  proof (cases "th_armed s \<noteq> None \<or> th_timeGot s")
    case True
    then have "s' = reset_timer w (s\<lparr>th_resetCh := rest, th_armed := None\<rparr>)"
      using assms(2) c by (simp add: recv_reset_def Let_def)
    moreover have "\<not> th_fired s" using True ok(2) by (auto simp: timer_ok_def)
    ultimately show ?thesis using t ok q
      by (simp add: th_inv_def reset_timer_def channels_ok_def timer_ok_def sorting_ok_def waking_def)
  next
    case False
    then have "s' = s\<lparr>th_resetCh := rest, th_armed := None, th_fired := False, th_timeGot := True,
        th_timer := TWantSort (Some w)\<rparr>"
      using assms(2) c by (simp add: recv_reset_def Let_def split: if_splits)
    then show ?thesis using t ok q
      by (simp add: th_inv_def channels_ok_def timer_ok_def sorting_ok_def waking_def)
  qed
qed

lemma th_inv_recv_timer:
  assumes "th_inv s" and "recv_timer s = Some s'"
  shows "th_inv s'"
proof -
  have "th_timer s = TSelect" "th_fired s"
    and "s' = s\<lparr>th_fired := False, th_timeGot := True, th_timer := TWantSort None\<rparr>"
    using assms(2) by (simp_all add: recv_timer_def split: if_splits)
  then show ?thesis
    using assms(1) by (simp add: th_inv_def channels_ok_def timer_ok_def sorting_ok_def waking_def)
qed


lemma th_inv_lock_sort:
  assumes "th_inv s" and "lock_sort swaps s = Some s'"
  shows "th_inv s'"
proof -
  obtain nw where c: "th_timer s = TWantSort nw" "th_holder s = None"
    using assms(2) by (auto simp: lock_sort_def split: timer_pc.splits if_splits)
  show ?thesis
  proof (cases "tq_data (th_q s) = []")
    case True
    then have "s' = after_sort nw s" using assms(2) c by (simp add: lock_sort_def)
    then show ?thesis
      using assms(1) c True by (cases nw) (auto simp: th_inv_defs after_sort_def reset_timer_def sorting_ok_def)
  next
    case False
    then have "swaps_in_range swaps (th_q s)" and "s' = s\<lparr>th_holder := Some TimerHolds,
        th_timer := TSorting nw (sort_reset swaps (th_now s) (th_q s)) swaps (th_now s)\<rparr>"
      using assms(2) c by (simp_all add: lock_sort_def split: if_splits)
    moreover have "th_armed s = None \<and> \<not> th_fired s" using assms(1) c by (auto simp: th_inv_def timer_ok_def)
    ultimately show ?thesis using assms(1) c by (simp add: th_inv_defs sorting_ok_def)
  qed
qed

lemma th_inv_send_reset:
  assumes "th_inv s" and "send_reset s = Some s'"
  shows "th_inv s'"
proof -
  obtain nw w sw now where c: "th_timer s = TSorting nw (Some w) sw now" "th_resetCh s = []"
    and s': "s' = s\<lparr>th_resetCh := [w], th_timer := TSorting nw None sw now\<rparr>"
    using assms(2) by (auto simp: send_reset_def split: timer_pc.splits option.splits if_splits)
  then show ?thesis using assms(1) by (auto simp: th_inv_defs sorting_ok_def)
qed

lemma th_inv_hand_over:
  assumes "th_inv s" and "hand_over s = Some s'"
  shows "th_inv s'"
proof -
  obtain nw sw now where c: "th_timer s = TSorting nw None sw now"
    using assms(2) by (auto simp: hand_over_def split: timer_pc.splits option.splits)
  let ?e = "sort_due sw now (th_q s)"
  let ?s = "s\<lparr>th_q := tq_sort sw now (th_q s), th_holder := None\<rparr>"
  have i: "tq_inv (th_q s)" "tq_started (th_q s)" "\<not> tq_stopped (th_q s)" "channels_ok s" "timer_ok s"
    "swaps_in_range sw (th_q s)" "sort_reset sw now (th_q s) = None \<or> th_resetCh s \<noteq> []"
    using assms(1) c by (simp_all add: th_inv_def sorting_ok_def)
  have q: "tq_inv (tq_sort sw now (th_q s)) \<and> tq_started (tq_sort sw now (th_q s)) \<and> \<not> tq_stopped (tq_sort sw now (th_q s))"
    using i sort_queue [OF i(3)] tq_inv_sort [OF i(1)] by (simp add: swaps_in_range_def)
  have r: "tq_data (tq_sort sw now (th_q s)) \<noteq> [] \<longrightarrow> th_resetCh s \<noteq> []"
    using i(7) sort_queue(3) [OF i(3)] by metis
  have e: "s' = after_sort nw ?s \<or> \<not> th_signaled s \<and> s' = (after_sort nw ?s)\<lparr>th_expiredData := ?e, th_signaled := True\<rparr>"
    using assms(2) c by (auto simp: hand_over_def Let_def split: if_splits)
  have t: "th_timeGot s" "th_armed s = None" "\<not> th_fired s" using i(5) c by (auto simp: timer_ok_def)
  have "th_inv (after_sort nw ?s)"
    using i(4) t q r by (intro th_inv_after_sort) (simp_all add: channels_ok_def)
  moreover have "th_inv (t\<lparr>th_expiredData := d, th_signaled := True\<rparr>)" if "th_inv t" for t :: "('a, 'b) threads" and d
    using that by (simp add: th_inv_defs)
  ultimately show ?thesis using e by blast
qed

lemma th_inv_offer:
  assumes "th_inv s" and "start_offer c k v at s = Some s'"
  shows "th_inv s'"
proof -
  let ?q = "snd (OfferWithTime k v at (th_now s) (th_q s))"
  have q: "tq_inv ?q" "tq_started ?q" "\<not> tq_stopped ?q"
    using assms(1) by (simp_all add: th_inv_def tq_inv_offer offer_queue)
  have h: "th_holder s = None" using assms(2) by (simp add: start_offer_def split: if_splits)
  then have o: "sorting_ok (s\<lparr>th_q := ?q, th_holder := x\<rparr>)" if "x \<noteq> Some TimerHolds" for x
    using assms(1) that by (simp add: th_inv_def sorting_ok_def split: timer_pc.splits)
  show ?thesis
  proof (cases "length (tq_resets ?q) > length (tq_resets (th_q s))")
    case True
    then have "s' = s\<lparr>th_q := ?q, th_holder := Some (OfferHolds c (hd (tq_resets ?q)))\<rparr>"
      using assms(2) h by (simp add: start_offer_def Let_def split: if_splits)
    then show ?thesis using q o [of "Some (OfferHolds c (hd (tq_resets ?q)))"] assms(1) by (simp add: th_inv_defs)
  next
    case False
    have "s\<lparr>th_q := ?q\<rparr> = s\<lparr>th_q := ?q, th_holder := None\<rparr>" using h by simp
    then have so: "sorting_ok (s\<lparr>th_q := ?q\<rparr>)" using o [of None] by (metis option.distinct(1))
    have "s' = back_to c (s\<lparr>th_q := ?q\<rparr>)"
      using False assms(2) h by (simp add: start_offer_def Let_def split: if_splits)
    then show ?thesis using q so assms(1) offer_wakes [OF False]
      by (cases c) (simp_all add: th_inv_defs back_to_def)
  qed
qed

lemma th_inv_edit:
  assumes "th_inv s" and "th_holder s = None"
  shows "th_inv (s\<lparr>th_q := edit_queue e (th_q s)\<rparr>)"
proof -
  have "sorting_ok (s\<lparr>th_q := edit_queue e (th_q s)\<rparr>)"
    using assms by (simp add: th_inv_def sorting_ok_def split: timer_pc.splits)
  moreover have i: "tq_inv (th_q s)" using assms(1) by (simp add: th_inv_def)
  moreover note edit_queue_inv(1) [OF i] edit_queue_inv(2) [OF i, of e]
  moreover have "waking (s\<lparr>th_q := edit_queue e (th_q s)\<rparr>) = waking s" by (simp add: waking_def)
  ultimately show ?thesis using assms by (simp add: th_inv_def channels_ok_def timer_ok_def edit_queue_frame)
qed

lemma th_inv_send_offer:
  assumes "th_inv s" and "send_offer s = Some s'"
  shows "th_inv s'"
proof -
  obtain c w where h: "th_holder s = Some (OfferHolds c w)" and s': "s' = back_to c (s\<lparr>th_resetCh := [w], th_holder := None\<rparr>)"
    using assms(2) by (auto simp: send_offer_def split: option.splits holder.splits if_splits)
  have "sorting_ok (s\<lparr>th_resetCh := [w], th_holder := None\<rparr>)"
    using assms(1) h by (simp add: th_inv_def sorting_ok_def split: timer_pc.splits)
  then show ?thesis using assms(1) s' by (cases c) (simp_all add: th_inv_defs back_to_def)
qed

lemma th_inv_consumer_frame: "th_inv (s\<lparr>th_consumer := c\<rparr>) = th_inv s"
  by (simp add: th_inv_defs)

lemma th_inv_consumer:
  assumes "th_inv s"
  shows "take_entry s = Some s' \<Longrightarrow> th_inv s'" "consumer_call s = Some s' \<Longrightarrow> th_inv s'"
    and "consumer_done s = Some s' \<Longrightarrow> th_inv s'" "consumer_find s = Some s' \<Longrightarrow> th_inv s'"
proof -
  have "th_inv (s\<lparr>th_timeoutCh := ds\<rparr>)" if "th_timeoutCh s = d # ds" for d ds
    using assms that by (simp add: th_inv_defs)
  then have "th_inv (s\<lparr>th_timeoutCh := ds, th_consumer := CBusy\<rparr>)" if "th_timeoutCh s = d # ds" for d ds
    using that th_inv_consumer_frame by blast
  then show "take_entry s = Some s' \<Longrightarrow> th_inv s'"
    by (auto simp: take_entry_def split: list.splits consumer_pc.splits)
qed (use assms in \<open>auto simp: consumer_call_def consumer_done_def consumer_find_def th_inv_consumer_frame
  split: if_splits\<close>)

lemma th_inv_delivery:
  assumes "th_inv s"
  shows "begin_delivery s = Some s' \<Longrightarrow> th_inv s'" "deliver s = Some s' \<Longrightarrow> th_inv s'"
    and "end_delivery s = Some s' \<Longrightarrow> th_inv s'"
proof -
  assume "begin_delivery s = Some s'"
  then have "th_signaled s" "s' = s\<lparr>th_delivery := Some (th_expiredData s)\<rparr>"
    by (simp_all add: begin_delivery_def split: if_splits)
  with assms show "th_inv s'" by (simp add: th_inv_defs)
next
  assume "deliver s = Some s'"
  then obtain d ds where "th_delivery s = Some (d # ds)" "s' = s\<lparr>th_timeoutCh := [d], th_delivery := Some ds\<rparr>"
    by (auto simp: deliver_def split: if_splits option.splits list.splits)
  with assms show "th_inv s'" by (simp add: th_inv_defs)
next
  assume "end_delivery s = Some s'"
  then have "s' = s\<lparr>th_delivery := None, th_expiredData := [], th_signaled := False\<rparr>"
    by (simp add: end_delivery_def split: if_splits)
  with assms show "th_inv s'" by (simp add: th_inv_defs)
qed

lemma th_inv_clock:
  assumes "th_inv s"
  shows "th_inv (s\<lparr>th_now := n\<rparr>)" and "th_armed s = Some t \<Longrightarrow> th_inv (s\<lparr>th_armed := None, th_fired := True\<rparr>)"
proof -
  show "th_inv (s\<lparr>th_now := n\<rparr>)" using assms by (simp add: th_inv_defs)
  assume "th_armed s = Some t"
  moreover from this assms have "th_timer s = TSelect" by (auto simp: th_inv_def timer_ok_def)
  ultimately show "th_inv (s\<lparr>th_armed := None, th_fired := True\<rparr>)" using assms by (simp add: th_inv_defs)
qed

lemma th_inv_step:
  assumes "th_inv s" and "th_moves s s'"
  shows "th_inv s'"
proof -
  obtain a where a: "th_step a s = Some s'" using assms(2) by (auto simp: th_moves_def)
  note rules = th_inv_recv_reset th_inv_recv_timer th_inv_lock_sort th_inv_send_reset th_inv_hand_over
    th_inv_offer th_inv_send_offer th_inv_consumer th_inv_delivery th_inv_clock
  show ?thesis
  proof (cases a)
    case (Edit e)
    then show ?thesis using a th_inv_edit [OF assms(1)] by (auto split: if_splits)
  next
    case Fire
    then show ?thesis using a th_inv_clock(2) [OF assms(1)] by (auto split: option.splits if_splits)
  next
    case (Tick n)
    then show ?thesis using a th_inv_clock(1) [OF assms(1)] by (auto split: if_splits)
  qed (use rules [OF assms(1)] a in simp_all)
qed

interpretation th: step_invariant th_moves "started_threads now" th_inv for now
  by unfold_locales (auto intro: th_inv_start th_inv_step)


section \<open>The threads implement the queue\<close>

text \<open>The queue as its users see it: one operation at a time, a sort at any time, and the entries handed
  over but not yet taken in \<open>tq_expired\<close>.\<close>

definition undelivered :: "('k, 'd) threads \<Rightarrow> ('k, 'd) TimeoutData list" where
  "undelivered s = th_timeoutCh s @
     (case th_delivery s of Some ds \<Rightarrow> ds | None \<Rightarrow> if th_signaled s then th_expiredData s else [])"

definition abs_queue :: "('k, 'd) threads \<Rightarrow> ('k, 'd) TimeoutQueue" where
  "abs_queue s = (th_q s)\<lparr>tq_expired := undelivered s\<rparr>"

inductive tq_moves :: "('k, 'd) TimeoutQueue \<Rightarrow> ('k, 'd) TimeoutQueue \<Rightarrow> bool" where
  tq_offer: "tq_moves q (snd (OfferWithTime k v at now q))"
| tq_edit: "tq_moves q (edit_queue e q)"
| tq_sorted: "swaps_in_range s q \<Longrightarrow> tq_moves q (tq_sort s now q)"
| tq_take: "tq_expired q = d # ds \<Longrightarrow> tq_moves q (q\<lparr>tq_expired := ds\<rparr>)"

text \<open>Operations do not look at the entries handed over.\<close>

lemma swap_expired: "tq_Swap i j (q\<lparr>tq_expired := x\<rparr>) = (tq_Swap i j q)\<lparr>tq_expired := x\<rparr>"
  by (cases q) (simp add: tq_Swap_def Let_def)

lemma swaps_expired: "tq_swaps sw (q\<lparr>tq_expired := x\<rparr>) = (tq_swaps sw q)\<lparr>tq_expired := x\<rparr>"
  by (induction sw q rule: tq_swaps.induct) (simp_all add: swap_expired)

lemma expired_frame:
  "snd (OfferWithTime k v at now (q\<lparr>tq_expired := x\<rparr>)) = (snd (OfferWithTime k v at now q))\<lparr>tq_expired := x\<rparr>"
  "edit_queue e (q\<lparr>tq_expired := x\<rparr>) = (edit_queue e q)\<lparr>tq_expired := x\<rparr>"
  by (cases q; simp add: OfferWithTime_def Let_def)
    (cases q; cases e; simp add: tq_Remove_def tq_Clear_def tq_Allow_def tq_Forbid_def Let_def split: option.split)

lemma sort_expired_frame:
  assumes "\<not> tq_stopped q"
  shows "tq_sort sw now (q\<lparr>tq_expired := x\<rparr>) = (tq_sort sw now q)\<lparr>tq_expired := x @
     (if tq_data q = [] then [] else sort_due sw now q)\<rparr>"
proof -
  obtain r where r: "tq_swaps sw q = r" by blast
  then have "\<not> tq_stopped r" using assms swaps_frame(1) by metis
  then show ?thesis
    unfolding tq_sort_def swaps_expired sort_due_def Let_def r
    by (cases r; cases "takeWhile (due (UnixNano now)) (tq_data r)"; cases "dropWhile (due (UnixNano now)) (tq_data r)")
      (simp_all del: dropWhile_eq_Nil_conv takeWhile_eq_Nil_iff)
qed

lemma abs_queue_hand_over:
  assumes "th_inv s" and "hand_over s = Some s'"
  shows "tq_moves (abs_queue s) (abs_queue s')"
proof -
  obtain nw sw now where c: "th_timer s = TSorting nw None sw now"
    using assms(2) by (auto simp: hand_over_def split: timer_pc.splits option.splits)
  have i: "\<not> tq_stopped (th_q s)" "swaps_in_range sw (th_q s)" "channels_ok s"
    using assms(1) c by (simp_all add: th_inv_def sorting_ok_def)
  let ?e = "sort_due sw now (th_q s)"
  have f: "th_q (after_sort nw t) = th_q t" "undelivered (after_sort nw t) = undelivered t" for t :: "('a, 'b) threads"
    by (cases nw; simp add: after_sort_def reset_timer_def undelivered_def split: option.split)+
  have e0: "tq_data (th_q s) = [] \<Longrightarrow> ?e = []"
    unfolding sort_due_def by (metis length_0_conv swaps_frame(3) takeWhile.simps(1))
  have "th_q s' = tq_sort sw now (th_q s)"
    using assms(2) c f by (auto simp: hand_over_def Let_def split: if_splits)
  moreover have "undelivered s' = undelivered s @ ?e"
  proof (cases "?e = []")
    case True
    then have "s' = after_sort nw (s\<lparr>th_q := tq_sort sw now (th_q s), th_holder := None\<rparr>)"
      using assms(2) c by (simp add: hand_over_def Let_def)
    with True f show ?thesis by (simp add: undelivered_def split: option.split)
  next
    case False
    then have "\<not> th_signaled s" "s' = (after_sort nw (s\<lparr>th_q := tq_sort sw now (th_q s), th_holder := None\<rparr>))
        \<lparr>th_expiredData := ?e, th_signaled := True\<rparr>"
      using assms(2) c by (simp_all add: hand_over_def Let_def split: if_splits)
    then show ?thesis using i(3)
      by (cases nw) (auto simp: channels_ok_def undelivered_def after_sort_def reset_timer_def split: option.splits)
  qed
  ultimately have "abs_queue s' = tq_sort sw now (abs_queue s)"
    using sort_expired_frame [OF i(1)] e0 by (auto simp: abs_queue_def)
  moreover have "swaps_in_range sw (abs_queue s)" using i(2) by (simp add: abs_queue_def swaps_in_range_def)
  ultimately show ?thesis by (metis tq_sorted)
qed

lemma abs_queue_same:
  assumes "th_q s' = th_q s" and "th_timeoutCh s' = th_timeoutCh s" and "th_delivery s' = th_delivery s"
    and "th_signaled s' = th_signaled s" and "th_expiredData s' = th_expiredData s"
  shows "abs_queue s' = abs_queue s"
  using assms by (simp add: abs_queue_def undelivered_def split: option.split)

lemma abs_queue_timer:
  "recv_reset s = Some s' \<Longrightarrow> abs_queue s' = abs_queue s" "recv_timer s = Some s' \<Longrightarrow> abs_queue s' = abs_queue s"
  "lock_sort sw s = Some s' \<Longrightarrow> abs_queue s' = abs_queue s" "send_reset s = Some s' \<Longrightarrow> abs_queue s' = abs_queue s"
  "send_offer s = Some s' \<Longrightarrow> abs_queue s' = abs_queue s"
  by (auto simp: timer_step_defs send_offer_def back_to_def Let_def intro!: abs_queue_same
      split: timer_pc.splits list.splits if_splits option.splits holder.splits caller.splits)

lemma abs_queue_consumer:
  "consumer_call s = Some s' \<Longrightarrow> abs_queue s' = abs_queue s" "consumer_done s = Some s' \<Longrightarrow> abs_queue s' = abs_queue s"
  "consumer_find s = Some s' \<Longrightarrow> abs_queue s' = abs_queue s"
  by (auto simp: consumer_call_def consumer_done_def consumer_find_def intro!: abs_queue_same split: if_splits)

lemma abs_queue_delivery:
  assumes "channels_ok s"
  shows "begin_delivery s = Some s' \<Longrightarrow> abs_queue s' = abs_queue s" "deliver s = Some s' \<Longrightarrow> abs_queue s' = abs_queue s"
    "end_delivery s = Some s' \<Longrightarrow> abs_queue s' = abs_queue s"
  using assms by (auto simp: begin_delivery_def deliver_def end_delivery_def abs_queue_def undelivered_def
      split: if_splits option.splits list.splits)

lemma abs_queue_take:
  assumes "take_entry s = Some s'"
  shows "tq_moves (abs_queue s) (abs_queue s')"
proof -
  obtain d ds where "th_timeoutCh s = d # ds" "s' = s\<lparr>th_timeoutCh := ds, th_consumer := CBusy\<rparr>"
    using assms by (auto simp: take_entry_def split: list.splits consumer_pc.splits)
  then have "tq_expired (abs_queue s) = d # undelivered s'" and "abs_queue s' = (abs_queue s)\<lparr>tq_expired := undelivered s'\<rparr>"
    by (simp_all add: abs_queue_def undelivered_def split: option.split)
  then show ?thesis by (metis tq_take)
qed

lemma abs_queue_step:
  assumes "th_inv s" and "th_moves s s'"
  shows "tq_moves\<^sup>*\<^sup>* (abs_queue s) (abs_queue s')"
proof -
  obtain a where a: "th_step a s = Some s'" using assms(2) by (auto simp: th_moves_def)
  have ch: "channels_ok s" using assms(1) by (simp add: th_inv_def)
  have "abs_queue s' = abs_queue s \<or> tq_moves (abs_queue s) (abs_queue s')"
  proof (cases a)
    case (StartOffer c k v at)
    have "th_q s' = snd (OfferWithTime k v at (th_now s) (th_q s))" and "undelivered s' = undelivered s"
      using a StartOffer by (auto simp: start_offer_def back_to_def undelivered_def Let_def split: if_splits caller.splits option.splits)
    then have "abs_queue s' = snd (OfferWithTime k v at (th_now s) (abs_queue s))"
      by (simp add: abs_queue_def expired_frame)
    then show ?thesis by (metis tq_offer)
  next
    case (Edit e)
    then have "abs_queue s' = edit_queue e (abs_queue s)"
      using a by (auto simp: abs_queue_def undelivered_def expired_frame split: if_splits option.splits)
    then show ?thesis by (metis tq_edit)
  next
    case Fire
    then show ?thesis using a by (auto intro!: abs_queue_same split: option.splits if_splits)
  next
    case (Tick n)
    then show ?thesis using a by (auto intro!: abs_queue_same split: if_splits)
  qed (use a in \<open>simp_all add: abs_queue_timer abs_queue_consumer abs_queue_delivery [OF ch] abs_queue_take
      abs_queue_hand_over [OF assms(1)]\<close>)
  then show ?thesis by auto
qed

lemma abs_queue_start: "abs_queue (started_threads now) = tq_Start NewTimeoutQueue"
  by (simp add: abs_queue_def undelivered_def started_threads_def NewTimeoutQueue_def tq_Start_def)

interpretation implements: simulation th_moves "started_threads now" th_inv tq_moves "tq_Start NewTimeoutQueue" abs_queue
  for now
  by unfold_locales (fact abs_queue_start, erule (1) abs_queue_step)


section \<open>Deadlocks\<close>

text \<open>The sort waits, with the lock, for the last expired data to be delivered, while the consumer has
  called an operation that waits for the lock, and more is to be delivered than the channel holds.\<close>

definition stuck_delivery :: "('k, 'd) threads \<Rightarrow> bool" where
  "stuck_delivery s \<longleftrightarrow> (case th_timer s of
     TSorting newWait r swaps now \<Rightarrow> sort_due swaps now (th_q s) \<noteq> [] \<and> th_signaled s \<and>
       length (undelivered s) \<ge> 2 \<and> th_consumer s = CCall
   | _ \<Rightarrow> False)"

text \<open>The sort waits for room in the channel that only its own goroutine receives from.\<close>

definition stuck_self :: "('k, 'd) threads \<Rightarrow> bool" where
  "stuck_self s \<longleftrightarrow> (case th_timer s of
     TSorting newWait (Some w) swaps now \<Rightarrow> th_resetCh s \<noteq> [] | _ \<Rightarrow> False)"

text \<open>The sort waits for the lock, and an offer that has it waits for room in that channel.\<close>

definition stuck_offer :: "('k, 'd) threads \<Rightarrow> bool" where
  "stuck_offer s \<longleftrightarrow> (case (th_timer s, th_holder s) of
     (TWantSort newWait, Some (OfferHolds c w)) \<Rightarrow> th_resetCh s \<noteq> [] | _ \<Rightarrow> False)"

definition stuck :: "('k, 'd) threads \<Rightarrow> bool" where
  "stuck s \<longleftrightarrow> stuck_delivery s \<or> stuck_self s \<or> stuck_offer s"

lemmas stuck_defs = stuck_delivery_def stuck_self_def stuck_offer_def

lemma stuck_holder: "th_inv s \<Longrightarrow> stuck s \<Longrightarrow> th_holder s \<noteq> None \<and> th_timer s \<noteq> TSelect"
  by (auto simp: stuck_def stuck_defs th_inv_def sorting_ok_def split: timer_pc.splits option.splits)

text \<open>With the lock held and the timer goroutine in a sort, only these steps are left.\<close>

lemma held_step:
  assumes "th_inv s" and "th_holder s \<noteq> None" and "th_timer s \<noteq> TSelect" and "th_step a s = Some s'"
    and "send_offer s = None" and "hand_over s = None"
  shows "th_q s' = th_q s \<and> th_holder s' = th_holder s \<and> (th_timer s' = th_timer s \<and> th_resetCh s' = th_resetCh s \<or> send_reset s = Some s')"
proof (cases a)
  case (StartOffer c k v at)
  with assms(2,4) show ?thesis by (simp add: start_offer_def)
next
  case Fire
  with assms(4) show ?thesis by (auto split: option.splits if_splits)
next
  case TakeEntry
  with assms(4) show ?thesis by (auto simp: take_entry_def split: consumer_pc.splits list.splits)
next
  case Deliver
  with assms(4) show ?thesis by (auto simp: deliver_def split: option.splits list.splits if_splits)
next
  case RecvReset
  with assms(3,4) show ?thesis by (simp add: recv_reset_def split: timer_pc.splits)
next
  case (LockSort sw)
  with assms(2,4) show ?thesis by (simp add: lock_sort_def split: timer_pc.splits)
next
  case SendReset
  with assms(4) show ?thesis by (auto simp: send_reset_def split: timer_pc.splits option.splits if_splits)
qed (use assms(2-6) in \<open>auto simp: recv_timer_def begin_delivery_def end_delivery_def
    consumer_call_def consumer_done_def consumer_find_def split: if_splits\<close>)

lemma stuck_blocked:
  assumes "th_inv s" and "stuck s"
  shows "send_offer s = None" and "hand_over s = None"
proof -
  have "th_holder s = Some TimerHolds \<or> th_resetCh s \<noteq> []"
    using assms
    by (auto simp: stuck_def stuck_defs th_inv_def sorting_ok_def split: timer_pc.splits option.splits holder.splits)
  then show "send_offer s = None" by (auto simp: send_offer_def split: option.split holder.split)
  show "hand_over s = None"
    using assms(2) by (auto simp: stuck_def stuck_defs hand_over_def Let_def split: timer_pc.splits option.splits)
qed

text \<open>In the first deadlock the entries that are not delivered remain.\<close>

lemma stuck_undelivered:
  assumes "th_inv s" and "th_signaled s" "length (undelivered s) \<ge> 2" "th_consumer s = CCall" "th_holder s \<noteq> None"
    and "th_step a s = Some s'" "send_offer s = None" "hand_over s = None"
  shows "th_signaled s' \<and> length (undelivered s') \<ge> 2 \<and> th_consumer s' = CCall"
proof -
  have ch: "length (th_timeoutCh s) \<le> 1" using assms(1) by (simp add: th_inv_def channels_ok_def)
  note simps = undelivered_def reset_timer_def Let_def
  show ?thesis
  proof (cases a)
    case EndDelivery
    then have "undelivered s = th_timeoutCh s"
      using assms(6) by (simp add: end_delivery_def undelivered_def split: if_splits)
    with ch assms(3) show ?thesis by simp
  next
    case TakeEntry
    with assms(4,6) show ?thesis by (simp add: take_entry_def)
  next
    case Deliver
    with assms(2-6) show ?thesis
      by (auto simp: deliver_def undelivered_def split: option.splits list.splits if_splits)
  next
    case (StartOffer c k v at)
    with assms(5,6) show ?thesis by (simp add: start_offer_def)
  next
    case RecvReset
    with assms(2-6) show ?thesis by (auto simp: recv_reset_def simps split: timer_pc.splits list.splits if_splits option.splits)
  next
    case (LockSort sw)
    with assms(5,6) assms(2-4) show ?thesis
      by (auto simp: lock_sort_def split: timer_pc.splits if_splits)
  next
    case SendReset
    with assms(2-6) show ?thesis
      by (auto simp: send_reset_def undelivered_def split: timer_pc.splits option.splits if_splits)
  next
    case Fire
    with assms(2-6) show ?thesis by (auto simp: undelivered_def split: option.splits if_splits)
  qed (use assms(2-8) in \<open>auto simp: recv_timer_def begin_delivery_def consumer_call_def consumer_done_def
      consumer_find_def undelivered_def split: if_splits option.splits\<close>)
qed

lemma stuck_step:
  assumes "th_inv s" and "stuck s" and "th_moves s s'"
  shows "stuck s' \<and> th_q s' = th_q s"
proof -
  obtain a where a: "th_step a s = Some s'" using assms(3) by (auto simp: th_moves_def)
  note h = stuck_holder [OF assms(1,2)] and b = stuck_blocked [OF assms(1,2)]
  have k: "th_q s' = th_q s" "th_holder s' = th_holder s"
    "th_timer s' = th_timer s \<and> th_resetCh s' = th_resetCh s \<or> send_reset s = Some s'"
    using held_step [OF assms(1) _ _ a b] h by blast+
  consider "stuck_delivery s" | "stuck_self s" | "stuck_offer s" using assms(2) by (auto simp: stuck_def)
  then have "stuck s'"
  proof cases
    case 1
    then obtain nw r sw n where t: "th_timer s = TSorting nw r sw n" "sort_due sw n (th_q s) \<noteq> []"
      and u: "th_signaled s" "length (undelivered s) \<ge> 2" "th_consumer s = CCall"
      by (auto simp: stuck_delivery_def split: timer_pc.splits)
    have "\<exists>r'. th_timer s' = TSorting nw r' sw n"
      using k(3) t(1) by (auto simp: send_reset_def split: option.splits if_splits)
    with t(2) k(1) stuck_undelivered [OF assms(1) u _ a b] h show ?thesis
      by (auto simp: stuck_def stuck_delivery_def)
  next
    case 2
    then have "send_reset s = None" by (auto simp: stuck_self_def send_reset_def split: timer_pc.splits option.splits)
    with 2 k have "stuck_self s'" by (auto simp: stuck_self_def split: timer_pc.splits option.splits)
    then show ?thesis by (simp add: stuck_def)
  next
    case 3
    then have "send_reset s = None" by (auto simp: stuck_offer_def send_reset_def split: timer_pc.splits option.splits)
    with 3 k have "stuck_offer s'" by (auto simp: stuck_offer_def split: timer_pc.splits option.splits holder.splits)
    then show ?thesis by (simp add: stuck_def)
  qed
  with k(1) show ?thesis by simp
qed

lemma stuck_forever:
  assumes "th_moves\<^sup>*\<^sup>* s s'" and "th_inv s" and "stuck s"
  shows "th_inv s' \<and> stuck s' \<and> th_q s' = th_q s"
  using assms by (induction rule: rtranclp_induct) (auto dest: stuck_step th_inv_step)

lemma blocked_stuck:
  assumes "th_inv s" and "th_holder s \<noteq> None \<or> th_timer s \<noteq> TSelect" and "\<And>a. internal a \<Longrightarrow> th_step a s = None"
  shows "stuck s"
proof -
  have none: "recv_reset s = None" "lock_sort [] s = None" "send_reset s = None" "hand_over s = None"
    "begin_delivery s = None" "deliver s = None" "end_delivery s = None" "take_entry s = None"
    "consumer_done s = None" "send_offer s = None"
    using assms(3) [of RecvReset] assms(3) [of "LockSort []"] assms(3) [of SendReset] assms(3) [of HandOver]
      assms(3) [of BeginDelivery] assms(3) [of Deliver] assms(3) [of EndDelivery] assms(3) [of TakeEntry]
      assms(3) [of ConsumerDone] assms(3) [of SendOffer] by simp_all
  have i: "sorting_ok s" "timer_ok s" using assms(1) by (simp_all add: th_inv_def)
  have full: "th_resetCh s \<noteq> []" if "th_holder s = Some (OfferHolds c w)" for c w
    using none(10) that by (simp add: send_offer_def split: if_splits)
  show ?thesis
  proof (cases "th_timer s")
    case TSelect
    then obtain c w where "th_holder s = Some (OfferHolds c w)"
      using assms(2) i(1) by (cases "th_holder s"; cases "the (th_holder s)") (auto simp: sorting_ok_def)
    from full [OF this] TSelect none(1) i(2) have False
      by (auto simp: recv_reset_def timer_ok_def Let_def split: list.splits if_splits)
    then show ?thesis ..
  next
    case (TWantSort nw)
    with none(2) have "th_holder s \<noteq> None" by (auto simp: lock_sort_def swaps_in_range_def split: if_splits)
    then obtain c w where h: "th_holder s = Some (OfferHolds c w)"
      using i(1) TWantSort by (cases "th_holder s"; cases "the (th_holder s)") (auto simp: sorting_ok_def)
    with full [OF this] TWantSort show ?thesis by (simp add: stuck_def stuck_offer_def)
  next
    case (TSorting nw r sw n)
    show ?thesis
    proof (cases r)
      case (Some w)
      with none(3) TSorting show ?thesis by (simp add: stuck_def stuck_self_def send_reset_def split: if_splits)
    next
      case None
      with none(4) TSorting have due: "sort_due sw n (th_q s) \<noteq> []" "th_signaled s"
        by (auto simp: hand_over_def Let_def split: if_splits)
      obtain d ds where del: "th_delivery s = Some (d # ds)"
        using none(5,7) due(2) by (cases "th_delivery s"; cases "the (th_delivery s)")
          (auto simp: begin_delivery_def end_delivery_def split: if_splits)
      with none(6) obtain e es where ch: "th_timeoutCh s = e # es"
        by (cases "th_timeoutCh s") (auto simp: deliver_def split: if_splits)
      with none(8,9) have "th_consumer s = CCall"
        by (cases "th_consumer s") (auto simp: take_entry_def consumer_done_def)
      with due del ch TSorting show ?thesis by (simp add: stuck_def stuck_delivery_def undelivered_def)
    qed
  qed
qed


section \<open>Properties\<close>

text \<open>C16: The goroutines, the lock and the channels implement the queue its users see, on which single
  operations act, which may be sorted at any time, and from which expired entries are taken one by one in
  the order they were handed over: what any interleaving reaches, those operations reach. No wake-up
  is lost: while there are entries, the timer is running or has fired, or a reset of it is waiting or
  about to be sent, or a sort is under way.\<close>

theorem threads_implement_queue:
  assumes "th_moves\<^sup>*\<^sup>* (started_threads now) s"
  shows "tq_moves\<^sup>*\<^sup>* (tq_Start NewTimeoutQueue) (abs_queue s) \<and> tq_inv (th_q s) \<and>
    (tq_data (th_q s) \<noteq> [] \<longrightarrow> waking s)"
  using implements.reachable_abs [OF assms] th.reachable_inv [OF assms] by (simp add: th_inv_def)

text \<open>Three entries that expire at the same time, as three maintenances with the same start do. The
  consumer works on the first when a fourth entry expires.\<close>

definition offer_other :: "string \<Rightarrow> int \<Rightarrow> (string, unit) th_action list" where
  "offer_other k t = [StartOffer AnotherThread k () (unix_epoch + t), SendOffer, RecvReset]"

definition run_delivery :: "(string, unit) th_action list" where
  "run_delivery = offer_other ''a'' 10000000 @
     [StartOffer AnotherThread ''b'' () (unix_epoch + 10000000), StartOffer AnotherThread ''c'' () (unix_epoch + 10000000),
      Tick 10000000, Fire, RecvTimer, LockSort [], HandOver, BeginDelivery, Deliver, TakeEntry, Deliver] @
     offer_other ''d'' 15000000 @ [Tick 5000000, Fire, RecvTimer, LockSort [], ConsumerCall]"

text \<open>An entry that expires earlier than the first is offered when the timer is about to fire.\<close>

definition run_self :: "(string, unit) th_action list" where
  "run_self = offer_other ''a'' 10000000 @
     [StartOffer AnotherThread ''b'' () (unix_epoch + 60000000), Tick 9000000,
      StartOffer AnotherThread ''c'' () (unix_epoch + 9500000), SendOffer, Tick 1000000, Fire, RecvTimer,
      LockSort [(1, 2), (0, 1)]]"

text \<open>Two such entries are offered.\<close>

definition run_offer :: "(string, unit) th_action list" where
  "run_offer = offer_other ''a'' 10000000 @
     [Tick 9000000, StartOffer AnotherThread ''b'' () (unix_epoch + 9800000), SendOffer,
      StartOffer AnotherThread ''c'' () (unix_epoch + 9500000), Tick 1000000, Fire, RecvTimer]"

definition ends_in :: "((string, unit) threads \<Rightarrow> bool) \<Rightarrow> (string, unit) th_action list \<Rightarrow> bool" where
  "ends_in p as = (case th_run as (started_threads unix_epoch) of None \<Rightarrow> False | Some s \<Rightarrow> p s)"

lemma ends_in_reached:
  assumes "ends_in p as"
  obtains s where "th_moves\<^sup>*\<^sup>* (started_threads unix_epoch) s" and "p s"
  using assms th_run_moves by (auto simp: ends_in_def split: option.splits)

lemma runs_stuck: "ends_in stuck_delivery run_delivery" "ends_in stuck_self run_self" "ends_in stuck_offer run_offer"
  by code_simp+

theorem threads_implement_queue_witness:
  "\<exists>s :: (string, unit) threads. th_reachable s \<and> tq_data (th_q s) \<noteq> [] \<and> waking s"
proof -
  have "ends_in (\<lambda>s. tq_data (th_q s) \<noteq> []) run_self" by code_simp
  then show ?thesis by (rule ends_in_reached) (use threads_implement_queue in blast)
qed

text \<open>C4: The timeout queue can block for ever, in three ways, each of which an ordinary run reaches: the
  sort keeps the lock while it waits for the last expired entries to be taken by a consumer that waits for
  the lock; the sort sends a timer reset to a full channel that only its own goroutine reads; an
  offer keeps the lock while it waits for that channel and its reader waits for the lock. From then on
  no operation ever gets the lock: the queue does not change any more.\<close>

theorem queue_deadlocks:
  "\<forall>dead \<in> {stuck_delivery, stuck_self, stuck_offer}. \<exists>s :: (string, unit) threads. th_reachable s \<and> dead s \<and>
     (\<forall>s'. th_moves\<^sup>*\<^sup>* s s' \<longrightarrow> stuck s' \<and> th_holder s' \<noteq> None \<and> th_q s' = th_q s)"
proof
  fix dead :: "(string, unit) threads \<Rightarrow> bool"
  assume d: "dead \<in> {stuck_delivery, stuck_self, stuck_offer}"
  then have "\<exists>as. ends_in dead as" using runs_stuck by auto
  then obtain s where m: "th_moves\<^sup>*\<^sup>* (started_threads unix_epoch) s" and s: "dead s"
    using ends_in_reached by metis
  have "stuck s" using d s by (auto simp: stuck_def)
  moreover have "th_inv s" by (rule th.reachable_inv [OF m])
  ultimately have "stuck s' \<and> th_holder s' \<noteq> None \<and> th_q s' = th_q s" if "th_moves\<^sup>*\<^sup>* s s'" for s'
    using stuck_forever [OF that] stuck_holder by blast
  with m s show "\<exists>s. th_reachable s \<and> dead s \<and>
      (\<forall>s'. th_moves\<^sup>*\<^sup>* s s' \<longrightarrow> stuck s' \<and> th_holder s' \<noteq> None \<and> th_q s' = th_q s)" by blast
qed

theorem queue_deadlocks_witness:
  "\<exists>s :: (string, unit) threads. th_reachable s \<and> stuck_self s"
  using queue_deadlocks by blast

text \<open>C22: There are no other deadlocks: in every state that is reached, as long as the lock is held or a sort is
  under way, some goroutine can go on, the consumer included, or the state is one of the three.\<close>

theorem deadlocks_known:
  assumes "th_moves\<^sup>*\<^sup>* (started_threads now) s" and "th_holder s \<noteq> None \<or> th_timer s \<noteq> TSelect"
  shows "stuck s \<or> (\<exists>a s'. internal a \<and> th_step a s = Some s')"
proof (rule ccontr)
  assume a: "\<not> ?thesis"
  then have "\<And>a. internal a \<Longrightarrow> th_step a s = None" by (meson not_Some_eq)
  from blocked_stuck [OF th.reachable_inv [OF assms(1)] assms(2) this] a show False by blast
qed

theorem deadlocks_known_witness:
  "\<exists>s :: (string, unit) threads. th_reachable s \<and> th_timer s \<noteq> TSelect \<and>
     (stuck s \<or> (\<exists>a s'. internal a \<and> th_step a s = Some s'))"
proof -
  have "ends_in (\<lambda>s. th_timer s \<noteq> TSelect) (offer_other ''a'' 10000000 @ [Tick 10000000, Fire, RecvTimer])"
    by code_simp
  then show ?thesis by (rule ends_in_reached) (use deadlocks_known in blast)
qed

end
