(* ===== verification/QueueStop.thy ===== *)
theory QueueStop
  imports QueueThreads
begin

text \<open>
  The end of a timeout queue (\<open>timeout_queue.go\<close>): the goroutines of \<open>QueueThreads\<close> with the stop channel
  they were started with, which may be closed at any time. A select statement with several cases that are ready takes
  any of them; one with a default takes the case of the closed channel.
\<close>

section \<open>State\<close>

text \<open>The timer goroutine has taken the case of the stop channel: it receives from the channel of the timer
  if \<open>Stop\<close> said that the timer was not running, and then it ends.\<close>

datatype timer_life = Runs | Drains | Ended

text \<open>Whether the stop channel is closed is \<open>tq_stopped\<close> of the queue. \<open>st_spinning\<close> says that a sort has passed
  its check of the stop channel and waits for \<open>expireSignaled\<close>; \<open>st_delivers\<close> that the delivering goroutine has not ended.\<close>

record ('k, 'd) stoppable =
  st_threads :: "('k, 'd) threads"
  st_spinning :: bool
  st_life :: timer_life
  st_delivers :: bool

definition started_stoppable :: "gotime \<Rightarrow> ('k, 'd) stoppable" where
  "started_stoppable now = \<lparr>st_threads = started_threads now, st_spinning = False, st_life = Runs, st_delivers = True\<rparr>"

definition set_stopped :: "bool \<Rightarrow> ('k, 'd) threads \<Rightarrow> ('k, 'd) threads" where
  "set_stopped b t = t\<lparr>th_q := (th_q t)\<lparr>tq_stopped := b\<rparr>\<rparr>"

definition closed :: "('k, 'd) stoppable \<Rightarrow> bool" where
  "closed s = tq_stopped (th_q (st_threads s))"

section \<open>Steps\<close>

text \<open>The sort under way has sent its reset and found expired entries.\<close>

definition found_expired :: "('k, 'd) threads \<Rightarrow> bool" where
  "found_expired t = (case th_timer t of
     TSorting newWait None swaps now \<Rightarrow> sort_due swaps now (th_q t) \<noteq> [] | _ \<Rightarrow> False)"

text \<open>The sort returns in a case of the stop channel: with the data sorted, and nothing handed over.\<close>

definition return_from_sort :: "('k, 'd) threads \<Rightarrow> ('k, 'd) threads" where
  "return_from_sort t = (case th_timer t of
     TSorting newWait r swaps now \<Rightarrow>
       after_sort newWait (t\<lparr>th_q := tq_sort swaps now (th_q t), th_holder := None\<rparr>)
   | _ \<Rightarrow> t)"

text \<open>\<open>select\<close> with the case of the stop channel and a default, before the expired entries are handed over.\<close>

definition check_stop :: "('k, 'd) stoppable \<Rightarrow> ('k, 'd) stoppable option" where
  "check_stop s =
     (if st_spinning s \<or> \<not> found_expired (st_threads s) then None
      else if closed s then Some (s\<lparr>st_threads := return_from_sort (st_threads s)\<rparr>)
      else Some (s\<lparr>st_spinning := True\<rparr>))"

text \<open>A sort that waits to send its reset may take the case of the stop channel instead, and so may an offer.
  The offer then returns an error, but its entry stays in the queue.\<close>

definition give_up_reset :: "('k, 'd) stoppable \<Rightarrow> ('k, 'd) stoppable option" where
  "give_up_reset s =
     (case th_timer (st_threads s) of
        TSorting newWait (Some w) swaps now \<Rightarrow>
          if closed s then Some (s\<lparr>st_threads := return_from_sort (st_threads s)\<rparr>) else None
      | _ \<Rightarrow> None)"

definition give_up_offer :: "('k, 'd) stoppable \<Rightarrow> ('k, 'd) stoppable option" where
  "give_up_offer s =
     (case th_holder (st_threads s) of
        Some (OfferHolds c w) \<Rightarrow>
          if closed s then Some (s\<lparr>st_threads := back_to c ((st_threads s)\<lparr>th_holder := None\<rparr>)\<rparr>) else None
      | _ \<Rightarrow> None)"

text \<open>The delivering goroutine returns where it may wait: for expired data, or for room in the channel.\<close>

definition stop_delivery :: "('k, 'd) stoppable \<Rightarrow> ('k, 'd) stoppable option" where
  "stop_delivery s =
     (if closed s \<and> st_delivers s \<and> th_delivery (st_threads s) \<noteq> Some [] then Some (s\<lparr>st_delivers := False\<rparr>) else None)"

text \<open>The timer goroutine stops its timer, and waits for a value of the timer when it was not running.\<close>

definition stop_timer :: "('k, 'd) stoppable \<Rightarrow> ('k, 'd) stoppable option" where
  "stop_timer s =
     (let t = st_threads s in
      if closed s \<and> st_life s = Runs \<and> th_timer t = TSelect
      then Some (s\<lparr>st_threads := t\<lparr>th_armed := None\<rparr>, st_life := if th_armed t \<noteq> None then Ended else Drains\<rparr>)
      else None)"

definition drain_timer :: "('k, 'd) stoppable \<Rightarrow> ('k, 'd) stoppable option" where
  "drain_timer s =
     (if st_life s = Drains \<and> th_fired (st_threads s)
      then Some (s\<lparr>st_threads := (st_threads s)\<lparr>th_fired := False\<rparr>, st_life := Ended\<rparr>) else None)"

text \<open>The other steps are those of \<open>QueueThreads\<close>, for goroutines that have not ended. Expired entries are
  handed over by a sort that has passed its check, whether or not the channel has been closed since.\<close>

fun goes_on_with :: "('k, 'd) th_action \<Rightarrow> ('k, 'd) stoppable \<Rightarrow> bool" where
  "goes_on_with RecvReset s = (st_life s = Runs)"
| "goes_on_with RecvTimer s = (st_life s = Runs)"
| "goes_on_with BeginDelivery s = st_delivers s"
| "goes_on_with Deliver s = st_delivers s"
| "goes_on_with EndDelivery s = st_delivers s"
| "goes_on_with HandOver s = (found_expired (st_threads s) \<longrightarrow> st_spinning s)"
| "goes_on_with _ s = True"

fun other_step :: "('k, 'd) th_action \<Rightarrow> ('k, 'd) threads \<Rightarrow> ('k, 'd) threads option" where
  "other_step HandOver t = map_option (set_stopped (tq_stopped (th_q t))) (hand_over (set_stopped False t))"
| "other_step a t = th_step a t"

datatype ('k, 'd) st_action =
    Other "('k, 'd) th_action" | CloseStop | CheckStop | GiveUpReset | GiveUpOffer | StopDelivery | StopTimer | DrainTimer

fun st_step :: "('k, 'd) st_action \<Rightarrow> ('k, 'd) stoppable \<Rightarrow> ('k, 'd) stoppable option" where
  "st_step (Other a) s =
     (if goes_on_with a s
      then map_option (\<lambda>t. s\<lparr>st_threads := t, st_spinning := (case a of HandOver \<Rightarrow> False | _ \<Rightarrow> st_spinning s)\<rparr>)
        (other_step a (st_threads s))
      else None)"
| "st_step CloseStop s = Some (s\<lparr>st_threads := set_stopped True (st_threads s)\<rparr>)"
| "st_step CheckStop s = check_stop s"
| "st_step GiveUpReset s = give_up_reset s"
| "st_step GiveUpOffer s = give_up_offer s"
| "st_step StopDelivery s = stop_delivery s"
| "st_step StopTimer s = stop_timer s"
| "st_step DrainTimer s = drain_timer s"

fun st_run :: "('k, 'd) st_action list \<Rightarrow> ('k, 'd) stoppable \<Rightarrow> ('k, 'd) stoppable option" where
  "st_run [] s = Some s"
| "st_run (a # as) s = (case st_step a s of None \<Rightarrow> None | Some s' \<Rightarrow> st_run as s')"

definition st_moves :: "('k, 'd) stoppable \<Rightarrow> ('k, 'd) stoppable \<Rightarrow> bool" where
  "st_moves s s' \<longleftrightarrow> (\<exists>a. st_step a s = Some s')"

lemma st_run_moves: "st_run as s = Some s' \<Longrightarrow> st_moves\<^sup>*\<^sup>* s s'"
proof (induction as arbitrary: s)
  case (Cons a as)
  then obtain s1 where "st_step a s = Some s1" "st_run as s1 = Some s'" by (auto split: option.splits)
  with Cons.IH show ?case by (meson converse_rtranclp_into_rtranclp st_moves_def)
qed simp

section \<open>Invariant\<close>

text \<open>The lock belongs to the timer goroutine exactly while it sorts.\<close>

definition lock_ok :: "('k, 'd) threads \<Rightarrow> bool" where
  "lock_ok t \<longleftrightarrow> (case th_timer t of
     TSorting newWait r swaps now \<Rightarrow> th_holder t = Some TimerHolds \<and> swaps_in_range swaps (th_q t)
   | _ \<Rightarrow> th_holder t \<noteq> Some TimerHolds)"

definition st_inv :: "('k, 'd) stoppable \<Rightarrow> bool" where
  "st_inv s \<longleftrightarrow> lock_ok (st_threads s) \<and> (st_spinning s \<longrightarrow> found_expired (st_threads s)) \<and>
     (\<not> st_delivers s \<longrightarrow> closed s) \<and>
     (st_life s \<noteq> Runs \<longrightarrow> closed s \<and> th_timer (st_threads s) = TSelect \<and> th_armed (st_threads s) = None)"

lemma set_stopped_simps [simp]:
  "tq_stopped (th_q (set_stopped b t)) = b" "tq_data (th_q (set_stopped b t)) = tq_data (th_q t)"
  "th_timer (set_stopped b t) = th_timer t" "th_holder (set_stopped b t) = th_holder t" "th_armed (set_stopped b t) = th_armed t"
  "th_fired (set_stopped b t) = th_fired t" "th_signaled (set_stopped b t) = th_signaled t"
  "th_delivery (set_stopped b t) = th_delivery t"
  by (simp_all add: set_stopped_def)

lemma swaps_stopped: "tq_swaps sw (q\<lparr>tq_stopped := b\<rparr>) = (tq_swaps sw q)\<lparr>tq_stopped := b\<rparr>"
proof (induction sw q rule: tq_swaps.induct)
  case (2 i j s q)
  have "tq_Swap i j (q\<lparr>tq_stopped := b\<rparr>) = (tq_Swap i j q)\<lparr>tq_stopped := b\<rparr>"
    by (cases q) (simp add: tq_Swap_def Let_def)
  with 2 show ?case by simp
qed simp

lemma stopped_frame [simp]:
  "lock_ok (set_stopped b t) = lock_ok t" "found_expired (set_stopped b t) = found_expired t"
  by (auto simp: lock_ok_def found_expired_def swaps_in_range_def sort_due_def set_stopped_def swaps_stopped
      split: timer_pc.split option.split)

text \<open>While the goroutine sorts, only it moves the queue on.\<close>

lemma sorting_frame:
  assumes "lock_ok t" and "th_timer t = TSorting nw r sw now" and "th_step a t = Some t'"
    and "a \<noteq> HandOver" and "a \<noteq> SendReset"
  shows "th_timer t' = th_timer t \<and> th_q t' = th_q t \<and> th_holder t' = th_holder t"
  using assms
  by (cases a) (auto simp: lock_ok_def timer_step_defs other_step_defs start_offer_def Let_def
      split: if_splits option.splits list.splits consumer_pc.splits holder.splits caller.splits)

lemma after_sort_frame [simp]:
  "th_timer (after_sort nw t) = TSelect" "th_holder (after_sort nw t) = th_holder t" "th_q (after_sort nw t) = th_q t"
  "undelivered (after_sort nw t) = undelivered t" "th_signaled (after_sort nw t) = th_signaled t"
  by (cases nw; simp add: after_sort_def reset_timer_def undelivered_def split: option.split)+

lemma hand_over_frame:
  assumes "hand_over t = Some t'"
  shows "th_timer t' = TSelect \<and> th_holder t' = None"
  using assms
  by (auto simp: hand_over_def Let_def split: timer_pc.splits option.splits if_splits)

lemma lock_ok_step:
  assumes "lock_ok t" and "th_step a t = Some t'"
  shows "lock_ok t'"
proof (cases "\<exists>nw r sw now. th_timer t = TSorting nw r sw now \<and> a \<noteq> HandOver \<and> a \<noteq> SendReset")
  case True
  with sorting_frame [OF assms(1) _ assms(2)] assms(1) show ?thesis by (auto simp: lock_ok_def)
next
  case False
  show ?thesis
  proof (cases a)
    case HandOver
    with assms(2) have "th_timer t' = TSelect \<and> th_holder t' = None" by (intro hand_over_frame) simp
    then show ?thesis by (simp add: lock_ok_def)
  next
    case SendReset
    with assms show ?thesis by (auto simp: send_reset_def lock_ok_def split: timer_pc.splits option.splits if_splits)
  next
    case (LockSort sw)
    with assms show ?thesis
      by (auto simp: lock_sort_def lock_ok_def split: timer_pc.splits if_splits)
  qed (use assms False in \<open>auto simp: lock_ok_def recv_reset_def recv_timer_def reset_timer_def other_step_defs
      start_offer_def Let_def split: timer_pc.splits if_splits option.splits list.splits consumer_pc.splits holder.splits caller.splits\<close>)
qed

lemma other_step_else: "a \<noteq> HandOver \<Longrightarrow> other_step a t = th_step a t"
  by (cases a) simp_all

lemma other_lock_ok:
  assumes "lock_ok t" and "other_step a t = Some t'"
  shows "lock_ok t'"
proof (cases "a = HandOver")
  case True
  with assms(2) obtain u where "hand_over (set_stopped False t) = Some u" "t' = set_stopped (tq_stopped (th_q t)) u" by auto
  with lock_ok_step [of "set_stopped False t" HandOver u] assms(1) show ?thesis by simp
qed (use assms lock_ok_step in \<open>auto simp: other_step_else\<close>)

lemma spinning_frame:
  assumes "lock_ok t" and "found_expired t" and "th_step a t = Some t'" and "a \<noteq> HandOver"
  shows "found_expired t'"
proof -
  from assms(2) obtain nw sw now where s: "th_timer t = TSorting nw None sw now"
    by (auto simp: found_expired_def split: timer_pc.splits option.splits)
  with assms(3) have "a \<noteq> SendReset" by (auto simp: send_reset_def)
  from sorting_frame [OF assms(1) s assms(3,4) this] assms(2) s show ?thesis by (simp add: found_expired_def)
qed

lemma ended_frame:
  assumes "th_timer t = TSelect" and "th_armed t = None" and "th_step a t = Some t'" and "a \<noteq> RecvReset" and "a \<noteq> RecvTimer"
  shows "th_timer t' = TSelect \<and> th_armed t' = None \<and> (th_fired t' \<longrightarrow> th_fired t)"
  using assms
  by (cases a) (auto simp: lock_sort_def send_reset_def hand_over_def other_step_defs start_offer_def Let_def
      split: if_splits option.splits list.splits consumer_pc.splits holder.splits caller.splits)

lemma stopped_step: "th_step a t = Some t' \<Longrightarrow> a \<noteq> HandOver \<Longrightarrow> tq_stopped (th_q t') = tq_stopped (th_q t)"
  by (cases a) (auto simp: recv_reset_def recv_timer_def lock_sort_def send_reset_def reset_timer_def other_step_defs
      start_offer_def offer_queue edit_queue_frame Let_def
      split: timer_pc.splits if_splits option.splits list.splits consumer_pc.splits holder.splits caller.splits)

lemma other_stopped:
  assumes "other_step a t = Some t'"
  shows "tq_stopped (th_q t') = tq_stopped (th_q t)"
proof (cases "a = HandOver")
  case True
  with assms show ?thesis by auto
qed (use assms stopped_step in \<open>auto simp: other_step_else\<close>)

lemma undelivered_frame [simp]:
  "undelivered (t\<lparr>th_q := q\<rparr>) = undelivered t" "undelivered (t\<lparr>th_holder := h\<rparr>) = undelivered t"
  "undelivered (t\<lparr>th_timer := p\<rparr>) = undelivered t" "undelivered (t\<lparr>th_consumer := c\<rparr>) = undelivered t"
  by (simp_all add: undelivered_def split: option.split)

lemma return_from_sort_frame:
  assumes "th_timer t = TSorting nw r sw now"
  shows "th_timer (return_from_sort t) = TSelect" "th_holder (return_from_sort t) = None"
    "th_q (return_from_sort t) = tq_sort sw now (th_q t)" "undelivered (return_from_sort t) = undelivered t"
  using assms by (simp_all add: return_from_sort_def)

lemma stopped_sort:
  assumes "tq_stopped q" and "swaps_in_range sw q"
  shows "tq_stopped (tq_sort sw now q)" and "mset (tq_data (tq_sort sw now q)) = mset (tq_data q)"
  using assms mset_swaps [of sw q] by (auto simp: tq_sort_def swaps_in_range_def Let_def split: list.split)

lemma st_inv_returned:
  assumes "st_inv s" and "closed s" and "th_timer (st_threads s) = TSorting nw r sw now" and "\<not> st_spinning s"
  shows "st_inv (s\<lparr>st_threads := return_from_sort (st_threads s)\<rparr>)"
  using assms return_from_sort_frame [OF assms(3)] stopped_sort(1)
  by (auto simp: st_inv_def closed_def lock_ok_def)

lemma check_stop_cases:
  assumes "check_stop s = Some s'"
  obtains nw sw now where "th_timer (st_threads s) = TSorting nw None sw now" "\<not> st_spinning s" "closed s"
      "s' = s\<lparr>st_threads := return_from_sort (st_threads s)\<rparr>"
  | "found_expired (st_threads s)" "\<not> closed s" "s' = s\<lparr>st_spinning := True\<rparr>"
  using assms by (auto simp: check_stop_def found_expired_def split: if_splits timer_pc.splits option.splits)

lemma st_inv_other:
  assumes "st_inv s" and "st_step (Other a) s = Some s'"
  shows "st_inv s'"
proof -
  let ?t = "st_threads s"
  obtain t where t: "other_step a ?t = Some t" "goes_on_with a s"
    and s': "s' = s\<lparr>st_threads := t, st_spinning := (case a of HandOver \<Rightarrow> False | _ \<Rightarrow> st_spinning s)\<rparr>"
    using assms(2) by (auto split: if_splits)
  have lock: "lock_ok ?t" using assms(1) by (simp add: st_inv_def)
  have c: "closed s' = closed s" using other_stopped [OF t(1)] by (simp add: closed_def s')
  have spin: "st_spinning s' \<longrightarrow> found_expired t"
  proof (cases "a = HandOver")
    case False
    then have "st_spinning s' \<longrightarrow> found_expired ?t" using assms(1) by (simp add: s' st_inv_def split: th_action.splits)
    with spinning_frame [OF lock] t(1) False show ?thesis by (auto simp: other_step_else)
  qed (simp add: s')
  have "th_timer t = TSelect \<and> th_armed t = None" if l: "st_life s \<noteq> Runs"
  proof -
    have i: "th_timer ?t = TSelect" "th_armed ?t = None" using l assms(1) by (simp_all add: st_inv_def)
    have n: "a \<noteq> RecvReset" "a \<noteq> RecvTimer" using l t(2) by auto
    have "a \<noteq> HandOver" using t(1) i(1) by (auto simp: hand_over_def)
    with ended_frame [OF i _ n] t(1) show ?thesis by (auto simp: other_step_else)
  qed
  then show ?thesis using assms(1) other_lock_ok [OF lock t(1)] spin c by (simp add: st_inv_def s')
qed

lemma st_inv_step:
  assumes "st_inv s" and "st_moves s s'"
  shows "st_inv s'"
proof -
  obtain a where a: "st_step a s = Some s'" using assms(2) by (auto simp: st_moves_def)
  have spun: "st_spinning s \<Longrightarrow> \<exists>nw sw now. th_timer (st_threads s) = TSorting nw None sw now"
    using assms(1) by (auto simp: st_inv_def found_expired_def split: timer_pc.splits option.splits)
  show ?thesis
  proof (cases a)
    case (Other b)
    with st_inv_other [OF assms(1)] a show ?thesis by blast
  next
    case CloseStop
    with assms(1) a show ?thesis by (auto simp: st_inv_def closed_def)
  next
    case CheckStop
    with a have "check_stop s = Some s'" by simp
    then show ?thesis
      by (cases rule: check_stop_cases) (use assms(1) st_inv_returned [OF assms(1)] in \<open>auto simp: st_inv_def closed_def\<close>)
  next
    case GiveUpReset
    with a obtain nw w sw now where "th_timer (st_threads s) = TSorting nw (Some w) sw now" "closed s"
      "s' = s\<lparr>st_threads := return_from_sort (st_threads s)\<rparr>"
      by (auto simp: give_up_reset_def split: timer_pc.splits option.splits if_splits)
    with st_inv_returned [OF assms(1)] spun show ?thesis by auto
  next
    case GiveUpOffer
    with a obtain c w where "th_holder (st_threads s) = Some (OfferHolds c w)" "closed s"
      "s' = s\<lparr>st_threads := back_to c ((st_threads s)\<lparr>th_holder := None\<rparr>)\<rparr>"
      by (auto simp: give_up_offer_def split: option.splits holder.splits if_splits)
    with assms(1) show ?thesis
      by (cases c) (auto simp: st_inv_def closed_def lock_ok_def found_expired_def back_to_def split: timer_pc.splits option.splits)
  next
    case StopDelivery
    with assms(1) a show ?thesis by (auto simp: stop_delivery_def st_inv_def closed_def split: if_splits)
  next
    case StopTimer
    with assms(1) a show ?thesis
      by (auto simp: stop_timer_def st_inv_def closed_def lock_ok_def found_expired_def Let_def split: if_splits)
  next
    case DrainTimer
    with assms(1) a show ?thesis
      by (auto simp: drain_timer_def st_inv_def closed_def lock_ok_def found_expired_def split: if_splits)
  qed
qed

lemma st_inv_start: "st_inv (started_stoppable now)"
  by (simp add: st_inv_def started_stoppable_def started_threads_def lock_ok_def)

interpretation st: step_invariant st_moves "started_stoppable now" st_inv for now
  by unfold_locales (auto intro: st_inv_start st_inv_step)

section \<open>What a stop sets free\<close>

text \<open>The lock is free, no sort is under way, and no entry was lost or handed over on the way.\<close>

definition set_free :: "('k, 'd) stoppable \<Rightarrow> ('k, 'd) stoppable \<Rightarrow> bool" where
  "set_free s s' \<longleftrightarrow> th_holder (st_threads s') = None \<and> th_timer (st_threads s') = TSelect \<and>
     mset (tq_data (th_q (st_threads s'))) = mset (tq_data (th_q (st_threads s))) \<and>
     undelivered (st_threads s') = undelivered (st_threads s)"

text \<open>The steps that lead there: those of the goroutines that hold the lock or wait for it to sort.\<close>

definition freeing :: "('k, 'd) st_action set" where
  "freeing = {GiveUpOffer, GiveUpReset, CheckStop, Other (LockSort []), Other HandOver}"

lemma free_returned:
  assumes "st_inv s" and "closed s" and "th_timer (st_threads s) = TSorting nw r sw now"
  shows "set_free s (s\<lparr>st_threads := return_from_sort (st_threads s)\<rparr>)"
proof -
  have "swaps_in_range sw (th_q (st_threads s))" using assms(1,3) by (simp add: st_inv_def lock_ok_def)
  with assms(2) have "mset (tq_data (tq_sort sw now (th_q (st_threads s)))) = mset (tq_data (th_q (st_threads s)))"
    by (intro stopped_sort(2)) (simp_all add: closed_def)
  then show ?thesis using return_from_sort_frame [OF assms(3)] by (simp add: set_free_def)
qed

lemma sort_nothing_due:
  assumes "sort_due sw now q = []" and "swaps_in_range sw q"
  shows "mset (tq_data (tq_sort sw now q)) = mset (tq_data q)"
  using assms mset_swaps [of sw q]
  by (auto simp: tq_sort_def sort_due_def swaps_in_range_def Let_def simp del: takeWhile_eq_Nil_iff split: list.split)

lemma free_nothing_due:
  assumes "st_inv s" and "th_timer (st_threads s) = TSorting nw None sw now"
    and "sort_due sw now (th_q (st_threads s)) = []"
  shows "\<exists>s'. st_step (Other HandOver) s = Some s' \<and> set_free s s'"
proof -
  let ?t = "set_stopped False (st_threads s)"
  let ?u = "after_sort nw (?t\<lparr>th_q := tq_sort sw now (th_q ?t), th_holder := None\<rparr>)"
  have due: "sort_due sw now (th_q ?t) = []" using assms(3) by (simp add: sort_due_def set_stopped_def swaps_stopped)
  have "swaps_in_range sw (th_q ?t)"
    using assms(1,2) by (simp add: st_inv_def lock_ok_def swaps_in_range_def)
  from sort_nothing_due [OF due this] have m: "mset (tq_data (th_q ?u)) = mset (tq_data (th_q (st_threads s)))" by simp
  have "\<not> found_expired (st_threads s)" using assms(2,3) by (simp add: found_expired_def)
  then have "st_step (Other HandOver) s = Some (s\<lparr>st_threads := set_stopped (closed s) ?u, st_spinning := False\<rparr>)"
    using assms(2) due by (simp add: hand_over_def closed_def Let_def)
  moreover have "set_free s (s\<lparr>st_threads := set_stopped (closed s) ?u, st_spinning := False\<rparr>)"
    using m by (simp add: set_free_def) (simp add: set_stopped_def)
  ultimately show ?thesis by blast
qed

lemma free_sorting:
  assumes "st_inv s" and "closed s" and "\<not> st_spinning s" and "th_timer (st_threads s) = TSorting nw r sw now"
  shows "\<exists>a s'. a \<in> freeing \<and> st_step a s = Some s' \<and> set_free s s'"
proof (cases r)
  case (Some w)
  with assms(2,4) have "st_step GiveUpReset s = Some (s\<lparr>st_threads := return_from_sort (st_threads s)\<rparr>)"
    by (simp add: give_up_reset_def)
  with free_returned [OF assms(1,2,4)] show ?thesis unfolding freeing_def by blast
next
  case None
  show ?thesis
  proof (cases "sort_due sw now (th_q (st_threads s)) = []")
    case True
    from free_nothing_due [OF assms(1) _ True] None assms(4) show ?thesis unfolding freeing_def by blast
  next
    case False
    with None assms(2-4) have "st_step CheckStop s = Some (s\<lparr>st_threads := return_from_sort (st_threads s)\<rparr>)"
      by (simp add: check_stop_def found_expired_def)
    with free_returned [OF assms(1,2,4)] show ?thesis unfolding freeing_def by blast
  qed
qed

lemma set_free_trans: "set_free s1 s' \<Longrightarrow> mset (tq_data (th_q (st_threads s1))) = mset (tq_data (th_q (st_threads s))) \<Longrightarrow>
    undelivered (st_threads s1) = undelivered (st_threads s) \<Longrightarrow> set_free s s'"
  by (simp add: set_free_def)

text \<open>A sort that waits for the lock, with the lock free.\<close>

lemma free_wanting:
  assumes "st_inv s" and "closed s" and "\<not> st_spinning s" and "th_holder (st_threads s) = None"
  shows "\<exists>as s'. set as \<subseteq> freeing \<and> length as \<le> 2 \<and> st_run as s = Some s' \<and> set_free s s'"
proof (cases "th_timer (st_threads s)")
  case TSelect
  with assms(4) show ?thesis by (intro exI [of _ "[]"]) (simp add: set_free_def)
next
  case (TSorting nw r sw now)
  with assms(1,4) show ?thesis by (simp add: st_inv_def lock_ok_def)
next
  case (TWantSort nw)
  let ?a = "Other (LockSort []) :: ('a, 'b) st_action"
  obtain t where t: "lock_sort [] (st_threads s) = Some t" using TWantSort assms(4)
    by (cases "tq_data (th_q (st_threads s)) = []") (simp_all add: lock_sort_def swaps_in_range_def)
  let ?s = "s\<lparr>st_threads := t\<rparr>"
  have step: "st_step ?a s = Some ?s" using t by simp
  then have i: "st_inv ?s" by (intro st_inv_step [OF assms(1)]) (unfold st_moves_def, blast)
  have same: "tq_data (th_q t) = tq_data (th_q (st_threads s))" "undelivered t = undelivered (st_threads s)" "closed ?s"
    using t assms(2) TWantSort by (auto simp: lock_sort_def closed_def split: if_splits)
  show ?thesis
  proof (cases "th_timer t")
    case TSelect
    then have "th_holder t = None" using t TWantSort by (auto simp: lock_sort_def split: if_splits)
    with TSelect same t show ?thesis
      by (intro exI [of _ "[?a]"] exI [of _ ?s]) (simp add: freeing_def set_free_def)
  next
    case (TSorting nw' r sw now)
    then have "th_timer (st_threads ?s) = TSorting nw' r sw now" by simp
    with free_sorting [OF i same(3)] assms(3) obtain a s' where a: "a \<in> freeing" "st_step a ?s = Some s'" "set_free ?s s'"
      by fastforce
    from set_free_trans [OF a(3)] same have "set_free s s'" by simp
    with a t show ?thesis by (intro exI [of _ "[?a, a]"] exI [of _ s']) (simp add: freeing_def)
  next
    case (TWantSort nw')
    with t \<open>th_timer (st_threads s) = TWantSort nw\<close> show ?thesis by (auto simp: lock_sort_def split: if_splits)
  qed
qed

section \<open>What a stop leaves hanging\<close>

text \<open>A sort waits for entries to be delivered, which nobody delivers any more.\<close>

definition spins :: "('k, 'd) stoppable \<Rightarrow> bool" where
  "spins s \<longleftrightarrow> st_spinning s \<and> \<not> st_delivers s \<and> th_signaled (st_threads s)"

lemma spins_sorting:
  assumes "st_inv s" and "spins s"
  shows "th_holder (st_threads s) = Some TimerHolds" and "st_life s = Runs" and "closed s"
    and "\<exists>nw sw now. th_timer (st_threads s) = TSorting nw None sw now \<and> sort_due sw now (th_q (st_threads s)) \<noteq> []"
  using assms by (auto simp: spins_def st_inv_def found_expired_def lock_ok_def split: timer_pc.splits option.splits)

lemma back_to_signaled [simp]: "th_signaled (back_to c t) = th_signaled t"
  by (cases c) (simp_all add: back_to_def)

lemma signaled_frame:
  assumes "th_step a t = Some t'" and "a \<noteq> HandOver" and "a \<noteq> EndDelivery"
  shows "th_signaled t' = th_signaled t"
proof (cases a)
  case RecvReset
  with assms(1) show ?thesis
    by (auto simp: recv_reset_def reset_timer_def Let_def split: timer_pc.splits list.splits if_splits)
next
  case (LockSort sw)
  with assms(1) show ?thesis by (auto simp: lock_sort_def split: timer_pc.splits if_splits)
next
  case SendReset
  with assms(1) show ?thesis by (auto simp: send_reset_def split: timer_pc.splits option.splits if_splits)
next
  case Deliver
  with assms(1) show ?thesis by (auto simp: deliver_def split: option.splits list.splits if_splits)
next
  case TakeEntry
  with assms(1) show ?thesis by (auto simp: take_entry_def split: consumer_pc.splits list.splits)
next
  case SendOffer
  with assms(1) obtain c w where "t' = back_to c (t\<lparr>th_resetCh := [w], th_holder := None\<rparr>)"
    by (auto simp: send_offer_def split: option.splits holder.splits if_splits)
  then show ?thesis by simp
next
  case (StartOffer c k v at)
  let ?q = "snd (OfferWithTime k v at (th_now t) (th_q t))"
  from StartOffer assms(1) have "t' = t\<lparr>th_q := ?q, th_holder := Some (OfferHolds c (hd (tq_resets ?q)))\<rparr> \<or> t' = back_to c (t\<lparr>th_q := ?q\<rparr>)"
    by (simp add: start_offer_def Let_def split: if_splits)
  then show ?thesis by auto
next
  case Fire
  with assms(1) show ?thesis by (auto split: option.splits if_splits)
qed (use assms in \<open>auto simp: recv_timer_def begin_delivery_def consumer_call_def consumer_done_def consumer_find_def
    split: if_splits\<close>)

lemma spins_step:
  assumes "st_inv s" and "spins s" and "st_moves s s'"
  shows "spins s' \<and> th_q (st_threads s') = th_q (st_threads s)"
proof -
  obtain a where a: "st_step a s = Some s'" using assms(3) by (auto simp: st_moves_def)
  note h = spins_sorting [OF assms(1,2)]
  from h(4) obtain nw sw now where p: "th_timer (st_threads s) = TSorting nw None sw now"
    "sort_due sw now (th_q (st_threads s)) \<noteq> []" by blast
  show ?thesis
  proof (cases a)
    case (Other b)
    have nh: "b \<noteq> HandOver"
    proof
      assume "b = HandOver"
      with a Other obtain t where "hand_over (set_stopped False (st_threads s)) = Some t" by (auto split: if_splits)
      moreover have "sort_due sw now (th_q (set_stopped False (st_threads s))) \<noteq> []"
        using p(2) by (simp add: sort_due_def set_stopped_def swaps_stopped)
      ultimately show False using p(1) assms(2) by (auto simp: hand_over_def spins_def Let_def)
    qed
    have "b \<noteq> EndDelivery" using a Other assms(2) by (auto simp: spins_def)
    moreover have "b \<noteq> SendReset" using a Other p(1) by (auto simp: send_reset_def)
    moreover obtain t where t: "th_step b (st_threads s) = Some t" "s' = s\<lparr>st_threads := t\<rparr>"
      using a Other nh by (cases b) (auto split: if_splits)
    ultimately show ?thesis
      using sorting_frame [OF _ p(1) t(1) nh] signaled_frame [OF t(1) nh] assms(1,2) by (simp add: spins_def st_inv_def)
  next
    case CloseStop
    have "set_stopped True (st_threads s) = st_threads s" using h(3) by (simp add: set_stopped_def closed_def)
    with CloseStop a assms(2) show ?thesis by (auto simp: spins_def)
  qed (use a h p(1) assms(2) in \<open>auto simp: check_stop_def give_up_reset_def give_up_offer_def stop_delivery_def
      stop_timer_def drain_timer_def spins_def\<close>)
qed

lemma spins_forever:
  assumes "st_moves\<^sup>*\<^sup>* s s'" and "st_inv s" and "spins s"
  shows "st_inv s' \<and> spins s' \<and> th_q (st_threads s') = th_q (st_threads s)"
  using assms by (induction rule: rtranclp_induct) (auto dest: spins_step st_inv_step)

text \<open>The timer goroutine waits for its timer, which is neither running nor has fired.\<close>

definition drains :: "('k, 'd) stoppable \<Rightarrow> bool" where
  "drains s \<longleftrightarrow> st_life s = Drains \<and> \<not> th_fired (st_threads s)"

lemma drains_step:
  assumes "st_inv s" and "drains s" and "st_moves s s'"
  shows "drains s'"
proof -
  obtain a where a: "st_step a s = Some s'" using assms(3) by (auto simp: st_moves_def)
  have i: "th_timer (st_threads s) = TSelect" "th_armed (st_threads s) = None"
    using assms(1,2) by (simp_all add: drains_def st_inv_def)
  show ?thesis
  proof (cases a)
    case (Other b)
    then have n: "b \<noteq> RecvReset" "b \<noteq> RecvTimer" using a assms(2) by (auto simp: drains_def)
    have "b \<noteq> HandOver" using a Other i(1) by (auto simp: hand_over_def split: if_splits)
    then obtain t where "th_step b (st_threads s) = Some t" "s' = s\<lparr>st_threads := t\<rparr>"
      using a Other by (cases b) (auto split: if_splits)
    with ended_frame [OF i _ n] assms(2) show ?thesis by (auto simp: drains_def)
  qed (use a i(1) assms(2) in \<open>auto simp: check_stop_def give_up_reset_def give_up_offer_def stop_delivery_def back_to_def
      stop_timer_def drain_timer_def drains_def found_expired_def split: option.splits holder.splits caller.splits if_splits\<close>)
qed

lemma drains_forever:
  assumes "st_moves\<^sup>*\<^sup>* s s'" and "st_inv s" and "drains s"
  shows "st_inv s' \<and> drains s'"
  using assms by (induction rule: rtranclp_induct) (auto dest: drains_step st_inv_step)

lemma timer_goroutine_end:
  assumes "st_inv s" and "st_step StopTimer s = Some s1"
  shows "(\<exists>s2. st_moves\<^sup>*\<^sup>* s1 s2 \<and> st_life s2 = Ended) \<longleftrightarrow> th_armed (st_threads s) \<noteq> None \<or> th_fired (st_threads s)"
proof -
  have i: "st_inv s1" using st_inv_step [OF assms(1)] assms(2) st_moves_def by blast
  have s1: "st_life s1 = (if th_armed (st_threads s) \<noteq> None then Ended else Drains)" "th_fired (st_threads s1) = th_fired (st_threads s)"
    using assms(2) by (auto simp: stop_timer_def Let_def split: if_splits)
  consider "th_armed (st_threads s) \<noteq> None" | "th_armed (st_threads s) = None" "th_fired (st_threads s)"
    | "th_armed (st_threads s) = None" "\<not> th_fired (st_threads s)" by blast
  then show ?thesis
  proof cases
    case 1
    with s1 show ?thesis by auto
  next
    case 2
    let ?s2 = "s1\<lparr>st_threads := (st_threads s1)\<lparr>th_fired := False\<rparr>, st_life := Ended\<rparr>"
    have "st_step DrainTimer s1 = Some ?s2" using 2 s1 by (simp add: drain_timer_def)
    then have "st_moves\<^sup>*\<^sup>* s1 ?s2" by (intro r_into_rtranclp) (unfold st_moves_def, blast)
    with 2 show ?thesis by (intro iffI exI [of _ ?s2]) simp_all
  next
    case 3
    then have "drains s1" using s1 by (simp add: drains_def)
    have "st_life s2 \<noteq> Ended" if "st_moves\<^sup>*\<^sup>* s1 s2" for s2
      using drains_forever [OF that i \<open>drains s1\<close>] by (simp add: drains_def)
    with 3 show ?thesis by blast
  qed
qed

section \<open>Properties\<close>

text \<open>C23: After a stop the goroutines that hold the lock of the queue let go of it, within three steps of
  theirs and without the consumer: no sort is then under way, no entry was lost, and none was handed over. The stop ends two of the three
  deadlocks of the queue. The exception is a sort that had expired entries before the stop and waits for the last ones
  to be delivered.\<close>

theorem stop_frees_queue:
  assumes "st_moves\<^sup>*\<^sup>* (started_stoppable now) s" and "closed s" and "\<not> st_spinning s"
  shows "\<exists>as s'. set as \<subseteq> freeing \<and> length as \<le> 3 \<and> st_run as s = Some s' \<and> set_free s s'"
proof -
  have i: "st_inv s" by (rule st.reachable_inv [OF assms(1)])
  consider "th_holder (st_threads s) = None" | "th_holder (st_threads s) = Some TimerHolds"
    | c w where "th_holder (st_threads s) = Some (OfferHolds c w)"
    by (cases "th_holder (st_threads s)"; cases "the (th_holder (st_threads s))") auto
  then show ?thesis
  proof cases
    case 1
    from free_wanting [OF i assms(2,3) this] obtain as s' where
      "set as \<subseteq> freeing" "length as \<le> 2" "st_run as s = Some s'" "set_free s s'" by blast
    then show ?thesis by (intro exI [of _ as] exI [of _ s']) simp
  next
    case 2
    then obtain nw r sw n where "th_timer (st_threads s) = TSorting nw r sw n"
      using i by (auto simp: st_inv_def lock_ok_def split: timer_pc.splits)
    from free_sorting [OF i assms(2,3) this] obtain a s' where "a \<in> freeing" "st_step a s = Some s'" "set_free s s'" by blast
    then show ?thesis by (intro exI [of _ "[a]"] exI [of _ s']) simp
  next
    case 3
    let ?a = "GiveUpOffer :: ('a, 'b) st_action"
    let ?s = "s\<lparr>st_threads := back_to c ((st_threads s)\<lparr>th_holder := None\<rparr>)\<rparr>"
    have step: "st_step ?a s = Some ?s" using 3 assms(2) by (simp add: give_up_offer_def)
    then have "st_inv ?s" by (intro st_inv_step [OF i]) (unfold st_moves_def, blast)
    moreover have same: "closed ?s" "\<not> st_spinning ?s" "th_holder (st_threads ?s) = None"
      "tq_data (th_q (st_threads ?s)) = tq_data (th_q (st_threads s))" "undelivered (st_threads ?s) = undelivered (st_threads s)"
      using assms(2,3) by (cases c; simp add: back_to_def closed_def)+
    ultimately obtain as s' where as: "set as \<subseteq> freeing" "length as \<le> 2" "st_run as ?s = Some s'" "set_free ?s s'"
      using free_wanting by blast
    from set_free_trans [OF as(4)] same(4,5) have "set_free s s'" by simp
    with as step show ?thesis by (intro exI [of _ "?a # as"] exI [of _ s']) (simp add: freeing_def)
  qed
qed

text \<open>The deadlock of an offer that waits for the channel while the timer goroutine waits for the lock, and a stop.\<close>

definition run_stopped :: "(string, unit) st_action list" where
  "run_stopped = map Other run_offer @ [CloseStop]"

definition run_spin :: "(string, unit) st_action list" where
  "run_spin = map Other (offer_other ''a'' 10000000 @ [Tick 10000000, Fire, RecvTimer, LockSort []]) @ [CheckStop] @
     map Other (HandOver # offer_other ''b'' 15000000 @ [Tick 5000000, Fire, RecvTimer, LockSort []]) @
     [CheckStop, CloseStop, StopDelivery]"

definition stops_in :: "((string, unit) stoppable \<Rightarrow> bool) \<Rightarrow> (string, unit) st_action list \<Rightarrow> bool" where
  "stops_in p as = (case st_run as (started_stoppable unix_epoch) of None \<Rightarrow> False | Some s \<Rightarrow> p s)"

lemma stops_in_reached:
  assumes "stops_in p as"
  obtains s where "st_moves\<^sup>*\<^sup>* (started_stoppable unix_epoch) s" and "p s"
  using assms st_run_moves by (auto simp: stops_in_def split: option.splits)

theorem stop_frees_queue_witness:
  "\<exists>s s' :: (string, unit) stoppable. stuck_offer (st_threads s) \<and> st_moves\<^sup>*\<^sup>* s s' \<and> set_free s s'"
proof -
  have "stops_in (\<lambda>s. stuck_offer (st_threads s) \<and> closed s \<and> \<not> st_spinning s) run_stopped" by code_simp
  then show ?thesis by (rule stops_in_reached) (use stop_frees_queue st_run_moves in blast)
qed

text \<open>C24: A stop can leave the queue hanging. When the delivering goroutine takes the stop before a
  sort that has found expired entries could hand them over, that sort keeps the lock for ever and no operation of the queue gets
  through any more: this is reached by an ordinary run. And once the timer goroutine has taken the stop, it ends if and
  only if the timer was running or had fired, and otherwise waits for ever for a value of the timer.\<close>

theorem stopped_queue_hangs:
  "(\<exists>s :: (string, unit) stoppable. st_moves\<^sup>*\<^sup>* (started_stoppable unix_epoch) s \<and> closed s \<and>
      (\<forall>s'. st_moves\<^sup>*\<^sup>* s s' \<longrightarrow> th_holder (st_threads s') = Some TimerHolds \<and> th_q (st_threads s') = th_q (st_threads s))) \<and>
   (\<forall>now (s :: (string, unit) stoppable) s1.
      st_moves\<^sup>*\<^sup>* (started_stoppable now) s \<and> st_step StopTimer s = Some s1 \<longrightarrow>
      ((\<exists>s2. st_moves\<^sup>*\<^sup>* s1 s2 \<and> st_life s2 = Ended) \<longleftrightarrow> th_armed (st_threads s) \<noteq> None \<or> th_fired (st_threads s)))"
proof
  have "stops_in spins run_spin" by code_simp
  then obtain s :: "(string, unit) stoppable" where
    s: "st_moves\<^sup>*\<^sup>* (started_stoppable unix_epoch) s" "spins s" by (rule stops_in_reached)
  have i: "st_inv s" by (rule st.reachable_inv [OF s(1)])
  have "th_holder (st_threads s') = Some TimerHolds \<and> th_q (st_threads s') = th_q (st_threads s)" if "st_moves\<^sup>*\<^sup>* s s'" for s'
    using spins_forever [OF that i s(2)] spins_sorting(1) by blast
  with s(1) spins_sorting(3) [OF i s(2)]
  show "\<exists>s :: (string, unit) stoppable. st_moves\<^sup>*\<^sup>* (started_stoppable unix_epoch) s \<and> closed s \<and>
      (\<forall>s'. st_moves\<^sup>*\<^sup>* s s' \<longrightarrow> th_holder (st_threads s') = Some TimerHolds \<and> th_q (st_threads s') = th_q (st_threads s))"
    by blast
qed (use timer_goroutine_end st.reachable_inv in blast)

text \<open>A queue that is stopped without ever holding an entry leaves its timer goroutine waiting.\<close>

theorem stopped_queue_hangs_witness:
  "\<exists>s1 :: (string, unit) stoppable. st_run [CloseStop, StopTimer] (started_stoppable unix_epoch) = Some s1 \<and>
     (\<nexists>s2. st_moves\<^sup>*\<^sup>* s1 s2 \<and> st_life s2 = Ended)"
proof -
  let ?start = "started_stoppable unix_epoch :: (string, unit) stoppable"
  have "stops_in (\<lambda>_. True) [CloseStop, StopTimer]" by code_simp
  then obtain s s1 where s: "st_step CloseStop ?start = Some s" "st_step StopTimer s = Some s1"
    by (auto simp: stops_in_def split: option.splits)
  have "th_armed (st_threads s) = None" "\<not> th_fired (st_threads s)"
    using s(1) by (auto simp: started_stoppable_def started_threads_def)
  moreover have "st_moves\<^sup>*\<^sup>* ?start s" using s(1) by (intro r_into_rtranclp) (unfold st_moves_def, blast)
  ultimately have "\<nexists>s2. st_moves\<^sup>*\<^sup>* s1 s2 \<and> st_life s2 = Ended"
    using stopped_queue_hangs s(2) by blast
  with s show ?thesis by (simp del: st_step.simps)
qed

end
