(* ===== verification/EnvExpand.thy ===== *)
theory EnvExpand
  imports Prelude "HOL-Library.Char_ord"
begin

text \<open>
  The expansion of environment variables in the configuration file
  (\<open>arhat.dev/pkg/envhelper/expansion.go\<close>, \<open>env_kube.go\<close>, \<open>constant/env.go\<close>). A Go string is a
  sequence of bytes, here a list of characters; indexing follows the loops of the code.
\<close>

section \<open>\<open>expansion.go\<close>\<close>

definition isShellSpecialVar :: "char \<Rightarrow> bool" where
  "isShellSpecialVar c \<longleftrightarrow> c \<in> set ''*#$@!?-0123456789''"

definition isAlphaNum :: "char \<Rightarrow> bool" where
  "isAlphaNum c \<longleftrightarrow> c = CHR ''_'' \<or> (CHR ''0'' \<le> c \<and> c \<le> CHR ''9'') \<or>
     (CHR ''a'' \<le> c \<and> c \<le> CHR ''z'') \<or> (CHR ''A'' \<le> c \<and> c \<le> CHR ''Z'')"

text \<open>The scan to the closing brace, from index 1 on.\<close>

function scan_close :: "char \<Rightarrow> string \<Rightarrow> nat \<Rightarrow> string \<times> nat" where
  "scan_close closing s i =
     (if i < length s
      then if s ! i = closing then (if i = 1 then ([], 2) else (drop 1 (take i s), i + 1))
           else scan_close closing s (i + 1)
      else ([], 1))"
  by pat_completeness auto
termination by (relation "measure (\<lambda>(_, s, i). length s - i)") auto

function scan_name :: "string \<Rightarrow> nat \<Rightarrow> nat" where
  "scan_name s i = (if i < length s \<and> isAlphaNum (s ! i) then scan_name s (i + 1) else i)"
  by pat_completeness auto
termination by (relation "measure (\<lambda>(s, i). length s - i)") auto

declare scan_close.simps [simp del] scan_name.simps [simp del]

text \<open>Called with what follows a dollar sign, which is not empty.\<close>

definition getShellName :: "string \<Rightarrow> string \<times> nat" where
  "getShellName s =
     (if s ! 0 = CHR ''(''
      then if length s > 2 \<and> isShellSpecialVar (s ! 1) \<and> s ! 2 = CHR '')'' then ([s ! 1], 3)
           else scan_close CHR '')'' s 1
      else if s ! 0 = CHR ''{''
      then if length s > 2 \<and> isShellSpecialVar (s ! 1) \<and> s ! 2 = CHR ''}'' then ([s ! 1], 3)
           else scan_close CHR ''}'' s 1
      else if isShellSpecialVar (s ! 0) then ([s ! 0], 1)
      else (let i = scan_name s 0 in (take i s, i)))"

text \<open>The mapping is given the name and the text it stands for. \<open>w\<close>, the number of bytes after the
  dollar sign, never exceeds what is left, which the recursion does not rely on.\<close>

type_synonym mapping_fun = "string \<Rightarrow> string \<Rightarrow> string"

definition expansion :: "mapping_fun \<Rightarrow> string \<Rightarrow> nat \<Rightarrow> string \<Rightarrow> nat \<Rightarrow> string" where
  "expansion mapping s j name w =
     (if name = [] \<and> w > 0 then []
      else if name = [] then [s ! j]
      else mapping name (take (w + 1) (drop j s)))"

function expand_loop :: "mapping_fun \<Rightarrow> string \<Rightarrow> string option \<Rightarrow> nat \<Rightarrow> nat \<Rightarrow> string" where
  "expand_loop mapping s buf i j =
     (if j < length s
      then if s ! j = CHR ''$'' \<and> j + 1 < length s
           then (let buf1 = (case buf of None \<Rightarrow> [] | Some b \<Rightarrow> b) @ drop i (take j s);
                     (name, w) = getShellName (drop (j + 1) s)
                 in expand_loop mapping s (Some (buf1 @ expansion mapping s j name w)) (j + w + 1) (j + w + 1))
           else expand_loop mapping s buf i (j + 1)
      else (case buf of None \<Rightarrow> s | Some b \<Rightarrow> b @ drop i s))"
  by pat_completeness auto
termination by (relation "measure (\<lambda>(_, s, _, _, j). length s - j)") auto

declare expand_loop.simps [simp del]

definition Expand :: "string \<Rightarrow> mapping_fun \<Rightarrow> string" where
  "Expand s mapping = expand_loop mapping s None 0 0"

section \<open>The environment of the process\<close>

type_synonym environ = "string \<Rightarrow> string option"

definition Getenv :: "environ \<Rightarrow> string \<Rightarrow> string" where
  "Getenv os key = (case os key of Some v \<Rightarrow> v | None \<Rightarrow> [])"

definition ThisPodNS :: "environ \<Rightarrow> string" where
  "ThisPodNS os = (case os ''POD_NAMESPACE'' of Some ns \<Rightarrow> ns | None \<Rightarrow> ''default'')"

abbreviation EnvKeyPodUID :: string where
  "EnvKeyPodUID \<equiv> ''POD_UID''"

abbreviation EnvKeyWatchNamespace :: string where
  "EnvKeyWatchNamespace \<equiv> ''WATCH_NAMESPACE''"

abbreviation EnvKeyJobNamespace :: string where
  "EnvKeyJobNamespace \<equiv> ''JOB_NAMESPACE''"

text \<open>The variables of the package, set when the program starts, and what reads them.\<close>

record env_vars =
  ev_podUID :: string
  ev_watchNS :: string
  ev_jobNS :: string

definition init_env_vars :: "environ \<Rightarrow> env_vars" where
  "init_env_vars os = \<lparr>ev_podUID = Getenv os EnvKeyPodUID,
     ev_watchNS = (case os EnvKeyWatchNamespace of Some ns \<Rightarrow> ns | None \<Rightarrow> ThisPodNS os),
     ev_jobNS = Getenv os EnvKeyJobNamespace\<rparr>"

definition ThisPodUID :: "environ \<Rightarrow> string" where
  "ThisPodUID os = ev_podUID (init_env_vars os)"

definition WatchNS :: "environ \<Rightarrow> string" where
  "WatchNS os = ev_watchNS (init_env_vars os)"

definition JobNS :: "environ \<Rightarrow> string" where
  "JobNS os = ev_jobNS (init_env_vars os)"

lemma JobNS_Getenv: "JobNS os = Getenv os EnvKeyJobNamespace"
  by (simp add: JobNS_def init_env_vars_def)

text \<open>The mapping \<open>ReadConfig\<close> gives to \<open>Expand\<close>: a variable that is not set is left as it is written.\<close>

definition env_mapping :: "environ \<Rightarrow> mapping_fun" where
  "env_mapping os s origin = (case os s of Some v \<Rightarrow> v | None \<Rightarrow> origin)"

section \<open>A reference for the expansion\<close>

text \<open>Without indices: the text is read once, and each reference is replaced where it stands.\<close>

function expand_ref :: "mapping_fun \<Rightarrow> string \<Rightarrow> string" where
  "expand_ref mapping [] = []"
| "expand_ref mapping (c # cs) =
     (if c \<noteq> CHR ''$'' \<or> cs = [] then c # expand_ref mapping cs
      else (case getShellName cs of
              (name, w) \<Rightarrow> (if name \<noteq> [] then mapping name (c # take w cs) else if w > 0 then [] else [c])
                @ expand_ref mapping (drop w cs)))"
  by pat_completeness auto
termination by (relation "measure (\<lambda>(_, s). length s)") auto

text \<open>The references of a text, read in the same way: for each dollar sign that begins one, the name and the number
  of bytes after the dollar sign. A reference without a name is cut out of the text when it has any: it is \<open>$()\<close>,
  \<open>${}\<close>, or one never closed.\<close>

function references :: "string \<Rightarrow> (string \<times> nat) list" where
  "references [] = []"
| "references (c # cs) =
     (if c \<noteq> CHR ''$'' \<or> cs = [] then references cs
      else getShellName cs # references (drop (snd (getShellName cs)) cs))"
  by pat_completeness auto
termination by (relation "measure length") auto

definition left_alone :: "environ \<Rightarrow> string \<times> nat \<Rightarrow> bool" where
  "left_alone os r \<longleftrightarrow> (case r of (name, w) \<Rightarrow> if name = [] then w = 0 else os name = None)"

section \<open>Lemmas\<close>

lemma scan_close_le:
  assumes "s \<noteq> []"
  shows "snd (scan_close c s i) \<le> length s"
  using assms
proof (induction c s i rule: scan_close.induct)
  case (1 c s i)
  then have "Suc 0 \<le> length s" by (simp add: Suc_le_eq)
  with 1 show ?case by (subst scan_close.simps) auto
qed

lemma scan_name_le: "i \<le> length s \<Longrightarrow> scan_name s i \<le> length s"
  by (induction s i rule: scan_name.induct) (subst scan_name.simps, simp)

lemma getShellName_width: "s \<noteq> [] \<Longrightarrow> snd (getShellName s) \<le> length s"
  using scan_name_le [of 0 s] by (simp add: getShellName_def Let_def scan_close_le Suc_le_eq)

lemma expand_loop_ref:
  assumes "i \<le> j" and "j \<le> length s" and "buf = None \<Longrightarrow> i = 0"
  shows "expand_loop mapping s buf i j =
    (case buf of None \<Rightarrow> [] | Some b \<Rightarrow> b) @ drop i (take j s) @ expand_ref mapping (drop j s)"
  using assms
proof (induction mapping s buf i j rule: expand_loop.induct)
  case (1 mapping s buf i j)
  show ?case
  proof (cases "j < length s")
    case False
    with 1 show ?thesis by (subst expand_loop.simps) (auto split: option.split)
  next
    case True
    note d = Cons_nth_drop_Suc [OF True, symmetric]
    show ?thesis
    proof (cases "s ! j = CHR ''$'' \<and> j + 1 < length s")
      case False
      have t: "drop i (take (j + 1) s) = drop i (take j s) @ [s ! j]"
        using 1(3) True by (simp add: take_Suc_conv_app_nth)
      have "expand_ref mapping (drop j s) = s ! j # expand_ref mapping (drop (j + 1) s)"
        using False True unfolding d by auto
      moreover have "expand_loop mapping s buf i j = expand_loop mapping s buf i (j + 1)"
        using True False by (subst expand_loop.simps) auto
      ultimately show ?thesis using 1(2) [OF True False] 1(3,5) True t by simp
    next
      case dollar: True
      obtain name w where nw: "getShellName (drop (j + 1) s) = (name, w)" by force
      have w: "j + w + 1 \<le> length s" using getShellName_width [of "drop (j + 1) s"] nw dollar by auto
      let ?buf = "(case buf of None \<Rightarrow> [] | Some b \<Rightarrow> b) @ drop i (take j s)"
      have "expand_loop mapping s buf i j =
          expand_loop mapping s (Some (?buf @ expansion mapping s j name w)) (j + w + 1) (j + w + 1)"
        using True dollar nw by (subst expand_loop.simps) (simp add: Let_def)
      moreover have "expand_loop mapping s (Some (?buf @ expansion mapping s j name w)) (j + w + 1) (j + w + 1) =
          ?buf @ expansion mapping s j name w @ expand_ref mapping (drop (j + w + 1) s)"
        using 1(1) [OF True dollar refl nw [symmetric] refl] w by simp
      moreover have "expand_ref mapping (drop j s) =
          expansion mapping s j name w @ expand_ref mapping (drop (j + w + 1) s)"
        using dollar nw by (auto simp: expansion_def d add.commute)
      ultimately show ?thesis by simp
    qed
  qed
qed

lemma expand_ref_unset: "list_all (left_alone os) (references s) \<Longrightarrow> expand_ref (env_mapping os) s = s"
proof (induction s rule: references.induct)
  case (2 c cs)
  show ?case
  proof (cases "c \<noteq> CHR ''$'' \<or> cs = []")
    case False
    obtain name w where nw: "getShellName cs = (name, w)" by force
    with 2(3) False have "left_alone os (name, w)" "list_all (left_alone os) (references (drop w cs))" by auto
    moreover from this 2(2) [OF False] nw have "expand_ref (env_mapping os) (drop w cs) = drop w cs" by simp
    ultimately show ?thesis using False nw append_take_drop_id [of w cs]
      by (auto simp: left_alone_def env_mapping_def [of os name])
  qed (use 2(1,3) in auto)
qed simp

section \<open>Properties\<close>

text \<open>C38: The expansion loop, with its buffer and its two indices, ends on every text and replaces each
  reference where it stands, reading the text once from left to right; what a variable expands to is
  not expanded again.\<close>

theorem Expand_is_reference: "Expand s mapping = expand_ref mapping s"
  by (simp add: Expand_def expand_loop_ref)

text \<open>C39: A configuration file in which no variable that is set is named comes through the expansion
  unchanged, dollar signs and references included, whatever other variables the environment holds, as long as no
  reference is empty or left open: those are cut out of the text.\<close>

theorem Expand_unset_roundtrip:
  assumes "list_all (left_alone os) (references s)"
  shows "Expand s (env_mapping os) = s"
  using expand_ref_unset [OF assms] by (simp add: Expand_def expand_loop_ref)

definition sample_environ :: environ where
  "sample_environ = [''HOME'' \<mapsto> ''/root'']"

theorem Expand_unset_roundtrip_witness:
  "Expand ''a$b$(HOM)$$HOME$'' (env_mapping sample_environ) = ''a$b$(HOM)$$HOME$'' \<and>
   Expand ''a$HOME'' (env_mapping sample_environ) = ''a/root'' \<and> Expand ''a$(b'' (env_mapping sample_environ) = ''ab''"
proof (intro conjI)
  have "list_all (left_alone sample_environ) (references ''a$b$(HOM)$$HOME$'')" by code_simp
  then show "Expand ''a$b$(HOM)$$HOME$'' (env_mapping sample_environ) = ''a$b$(HOM)$$HOME$''"
    by (rule Expand_unset_roundtrip)
  show "Expand ''a$HOME'' (env_mapping sample_environ) = ''a/root''" "Expand ''a$(b'' (env_mapping sample_environ) = ''ab''"
    by code_simp+
qed

end
