(* ===== verification/Startup.thy ===== *)
theory Startup
  imports World EnvExpand
begin

text \<open>
  From the command line to the running controller: flags and configuration file
  (\<open>cmd/vihara.go\<close>, \<open>conf\<close>), the job namespace, the steps of \<open>run\<close>, leader election, the start of
  the controller (\<open>controller.go\<close>, \<open>util/manager\<close>), signals, and the version command. What libraries do
  (decoding YAML, creating clients and providers, acquiring the lease) is a parameter; so is the
  result of parsing a command line to a list of flag settings. The flags that configure those
  libraries only are \<open>Other\<close> flags.
\<close>

section \<open>Configuration\<close>

record LogConfig =
  lg_Level :: string
  lg_Format :: string
  lg_KubeLog :: bool
  lg_File :: string

record ViharaConfig =
  vc_Log :: "LogConfig list"
  vc_Maintenance :: MaintenanceConfig

definition GetLogConfig :: "ViharaConfig \<Rightarrow> LogConfig list" where
  "GetLogConfig c = vc_Log c"

definition SetLogConfig :: "LogConfig list \<Rightarrow> ViharaConfig \<Rightarrow> ViharaConfig" where
  "SetLogConfig l c = c\<lparr>vc_Log := l\<rparr>"

section \<open>Flags\<close>

datatype setting =
    SchedulePollInterval | ScheduleDefaultDelay | ScheduleDefaultDuration
  | JobsPollInterval | JobsDefaultStageTimeout

datatype flag =
    ConfigFile string
  | LogLevel string
  | LogFormat string
  | LogFile string
  | Setting setting duration
  | JobsNamespace string
  | Help bool
  | Other string string

fun setting_flag :: "setting \<Rightarrow> string" where
  "setting_flag SchedulePollInterval = ''mt.schedule.pollInterval''"
| "setting_flag ScheduleDefaultDelay = ''mt.schedule.defaultDelay''"
| "setting_flag ScheduleDefaultDuration = ''mt.schedule.defaultDuration''"
| "setting_flag JobsPollInterval = ''mt.jobs.pollInterval''"
| "setting_flag JobsDefaultStageTimeout = ''mt.jobs.defaultStageTimeout''"

fun flag_name :: "flag \<Rightarrow> string" where
  "flag_name (ConfigFile _) = ''config''"
| "flag_name (LogLevel _) = ''log.level''"
| "flag_name (LogFormat _) = ''log.format''"
| "flag_name (LogFile _) = ''log.file''"
| "flag_name (Setting s _) = setting_flag s"
| "flag_name (JobsNamespace _) = ''mt.jobs.namespace''"
| "flag_name (Help _) = ''help''"
| "flag_name (Other name _) = name"

fun get_setting :: "setting \<Rightarrow> MaintenanceConfig \<Rightarrow> duration" where
  "get_setting SchedulePollInterval c = sc_PollInterval (mc_Schedule c)"
| "get_setting ScheduleDefaultDelay c = sc_DefaultDelay (mc_Schedule c)"
| "get_setting ScheduleDefaultDuration c = sc_DefaultDuration (mc_Schedule c)"
| "get_setting JobsPollInterval c = jc_PollInterval (mc_Jobs c)"
| "get_setting JobsDefaultStageTimeout c = jc_DefaultStageTimeout (mc_Jobs c)"

fun set_setting :: "setting \<Rightarrow> duration \<Rightarrow> MaintenanceConfig \<Rightarrow> MaintenanceConfig" where
  "set_setting SchedulePollInterval v c = c\<lparr>mc_Schedule := (mc_Schedule c)\<lparr>sc_PollInterval := v\<rparr>\<rparr>"
| "set_setting ScheduleDefaultDelay v c = c\<lparr>mc_Schedule := (mc_Schedule c)\<lparr>sc_DefaultDelay := v\<rparr>\<rparr>"
| "set_setting ScheduleDefaultDuration v c = c\<lparr>mc_Schedule := (mc_Schedule c)\<lparr>sc_DefaultDuration := v\<rparr>\<rparr>"
| "set_setting JobsPollInterval v c = c\<lparr>mc_Jobs := (mc_Jobs c)\<lparr>jc_PollInterval := v\<rparr>\<rparr>"
| "set_setting JobsDefaultStageTimeout v c = c\<lparr>mc_Jobs := (mc_Jobs c)\<lparr>jc_DefaultStageTimeout := v\<rparr>\<rparr>"

definition get_namespace :: "MaintenanceConfig \<Rightarrow> string" where
  "get_namespace c = jc_Namespace (mc_Jobs c)"

definition set_namespace :: "string \<Rightarrow> MaintenanceConfig \<Rightarrow> MaintenanceConfig" where
  "set_namespace ns c = c\<lparr>mc_Jobs := (mc_Jobs c)\<lparr>jc_Namespace := ns\<rparr>\<rparr>"

text \<open>The variables the flags are bound to.\<close>

record cli =
  cl_configFile :: string
  cl_log :: LogConfig
  cl_config :: ViharaConfig

definition on_maintenance :: "(MaintenanceConfig \<Rightarrow> MaintenanceConfig) \<Rightarrow> cli \<Rightarrow> cli" where
  "on_maintenance f c = c\<lparr>cl_config := (cl_config c)\<lparr>vc_Maintenance := f (vc_Maintenance (cl_config c))\<rparr>\<rparr>"

fun apply_flag :: "flag \<Rightarrow> cli \<Rightarrow> cli" where
  "apply_flag (ConfigFile f) c = c\<lparr>cl_configFile := f\<rparr>"
| "apply_flag (LogLevel l) c = c\<lparr>cl_log := (cl_log c)\<lparr>lg_Level := l\<rparr>\<rparr>"
| "apply_flag (LogFormat f) c = c\<lparr>cl_log := (cl_log c)\<lparr>lg_Format := f\<rparr>\<rparr>"
| "apply_flag (LogFile f) c = c\<lparr>cl_log := (cl_log c)\<lparr>lg_File := f\<rparr>\<rparr>"
| "apply_flag (Setting s v) c = on_maintenance (set_setting s v) c"
| "apply_flag (JobsNamespace ns) c = on_maintenance (set_namespace ns) c"
| "apply_flag (Help _) c = c"
| "apply_flag (Other _ _) c = c"

definition ParseFlags :: "flag list \<Rightarrow> cli \<Rightarrow> cli" where
  "ParseFlags fs c = fold apply_flag fs c"

definition Changed :: "string \<Rightarrow> flag list \<Rightarrow> bool" where
  "Changed name fs \<longleftrightarrow> name \<in> flag_name ` set fs"

text \<open>Registering a flag assigns its default.\<close>

definition default_maintenance :: MaintenanceConfig where
  "default_maintenance = \<lparr>
     mc_Schedule = \<lparr>sc_DefaultDelay = 1000000000, sc_DefaultDuration = 3600000000000, sc_PollInterval = 5000000000\<rparr>,
     mc_Jobs = \<lparr>jc_Namespace = [], jc_DefaultStageTimeout = 3600000000000, jc_PollInterval = 5000000000\<rparr>\<rparr>"

definition NewViharaCmd :: cli where
  "NewViharaCmd = \<lparr>cl_configFile = ''/etc/vihara/config.yaml'',
     cl_log = \<lparr>lg_Level = ''error'', lg_Format = ''console'', lg_KubeLog = False, lg_File = ''stderr''\<rparr>,
     cl_config = \<lparr>vc_Log = [], vc_Maintenance = default_maintenance\<rparr>\<rparr>"

section \<open>How a run can end\<close>

text \<open>With a value, by returning an error, by \<open>os.Exit\<close>, or by a panic with an error.\<close>

datatype 'a run_result = Done 'a | Fails go_error | Exits nat | Crashes go_error

text \<open>The libraries, and what they answer.\<close>

record startup =
  su_ReadFile :: "string \<Rightarrow> string \<times> go_error option"
  su_Unmarshal :: "string \<Rightarrow> ViharaConfig \<Rightarrow> go_error + ViharaConfig"
  su_NewLogger :: "LogConfig list \<Rightarrow> go_error option"
  su_KubeClient :: "go_error option"
  su_Metrics :: "go_error + bool"
  su_MetricsTLS :: "go_error option"
  su_Tracing :: "go_error option"
  su_Elector :: "go_error option"
  su_Acquired :: bool
  su_Scheme :: "go_error option"
  su_ControllerKubeClient :: "go_error option"
  su_ControllerClient :: "go_error option"
  su_Lists :: "go_error option list"
  su_CacheSynced :: bool
  su_LeaseLostFirst :: bool

section \<open>\<open>ReadConfig\<close>\<close>

text \<open>\<open>log.SetDefaultLogger\<close> panics when the logger cannot be made, so that its error is never returned.\<close>

definition SetDefaultLogger :: "startup \<Rightarrow> LogConfig list \<Rightarrow> unit run_result" where
  "SetDefaultLogger su cs = (case su_NewLogger su cs of Some e \<Rightarrow> Crashes e | None \<Rightarrow> Done ())"

definition log_overrides :: "flag list \<Rightarrow> LogConfig \<Rightarrow> LogConfig list \<Rightarrow> LogConfig list" where
  "log_overrides fs cliLog ls =
     (case ls of
        [] \<Rightarrow> [cliLog]
      | l # rest \<Rightarrow>
          (let l1 = (if Changed ''log.format'' fs then l\<lparr>lg_Format := lg_Format cliLog\<rparr> else l);
               l2 = (if Changed ''log.level'' fs then l1\<lparr>lg_Level := lg_Level cliLog\<rparr> else l1);
               l3 = (if Changed ''log.file'' fs then l2\<lparr>lg_File := lg_File cliLog\<rparr> else l2)
           in l3 # rest))"

text \<open>The part of the file, given the text that was read.\<close>

definition decode_file :: "environ \<Rightarrow> startup \<Rightarrow> string \<Rightarrow> ViharaConfig \<Rightarrow> go_error + ViharaConfig" where
  "decode_file os su configBytes config =
     (if configBytes = [] then Inr config
      else (case su_Unmarshal su (Expand configBytes (env_mapping os)) config of
              Inl e \<Rightarrow> Inl (ErrorString (''failed to unmarshal config file: '' @ Error e))
            | Inr c \<Rightarrow> Inr c))"

text \<open>\<open>fs\<close> are the flags of the command line, which were parsed without an error before, and which \<open>cmd.ParseFlags(os.Args)\<close> applies once more.\<close>

definition ReadConfig :: "environ \<Rightarrow> startup \<Rightarrow> flag list \<Rightarrow> cli \<Rightarrow> cli run_result" where
  "ReadConfig os su fs c =
     (case su_ReadFile su (cl_configFile c) of
        (configBytes, err) \<Rightarrow>
          if err \<noteq> None \<and> Changed ''config'' fs
          then Fails (ErrorString (''failed to read config file: '' @ Error (the err)))
          else
            (case decode_file os su configBytes (cl_config c) of
               Inl e \<Rightarrow> Fails e
             | Inr config \<Rightarrow>
                 (let logConfigSet = log_overrides fs (cl_log c) (GetLogConfig config);
                      c1 = c\<lparr>cl_config := SetLogConfig logConfigSet config\<rparr>;
                      c2 = ParseFlags fs c1
                  in case SetDefaultLogger su logConfigSet of
                       Done _ \<Rightarrow> Done c2
                     | Fails e \<Rightarrow> Fails (Wrapf ''failed to set default logger: '' e)
                     | Exits n \<Rightarrow> Exits n
                     | Crashes e \<Rightarrow> Crashes e)))"

text \<open>The goroutine that receives signals: the first cancels the context, the next one ends the process.\<close>

datatype os_signal = Interrupt | SIGTERM

fun handle_signals :: "nat \<Rightarrow> os_signal list \<Rightarrow> bool \<Rightarrow> bool run_result" where
  "handle_signals exitCount [] cancelled = Done cancelled"
| "handle_signals exitCount (sig # sigs) cancelled =
     (if exitCount + 1 = 1 then handle_signals (exitCount + 1) sigs True else Exits 1)"

section \<open>The base manager\<close>

text \<open>\<open>bm_once\<close> tells whether the \<open>sync.Once\<close> is used up, \<open>bm_done\<close> whether the context is cancelled.\<close>

record BaseManager =
  bm_once :: bool
  bm_done :: bool

definition NewBaseManager :: BaseManager where
  "NewBaseManager = \<lparr>bm_once = False, bm_done = False\<rparr>"

definition OnStart :: "('w \<Rightarrow> go_error option \<times> 'w) \<Rightarrow> BaseManager \<Rightarrow> 'w \<Rightarrow> go_error option \<times> BaseManager \<times> 'w" where
  "OnStart doStart m w =
     (if bm_once m then (None, m, w)
      else (let (err, w1) = doStart w in (err, m\<lparr>bm_once := True\<rparr>, w1)))"

definition OnClose :: "('w \<Rightarrow> 'w) option \<Rightarrow> BaseManager \<Rightarrow> 'w \<Rightarrow> BaseManager \<times> 'w" where
  "OnClose doClose m w =
     (m\<lparr>bm_done := True\<rparr>, case doClose of None \<Rightarrow> w | Some f \<Rightarrow> f w)"

definition Closing :: "BaseManager \<Rightarrow> bool" where
  "Closing m = bm_done m"

section \<open>The controller is made and started\<close>

definition NewController_result :: "startup \<Rightarrow> go_error option" where
  "NewController_result su =
     (case su_ControllerKubeClient su of
        Some e \<Rightarrow> Some (Wrapf ''failed to create kube client for controller: '' e)
      | None \<Rightarrow>
          (case su_ControllerClient su of
             Some e \<Rightarrow> Some (Wrapf ''failed to create vihara client for controller: '' e)
           | None \<Rightarrow> None))"

text \<open>The three lists, then the caches; what follows serves the queues until they are closed, and
  returns nil.\<close>

fun first_failure :: "go_error option list \<Rightarrow> go_error option" where
  "first_failure [] = None"
| "first_failure (r # rs) = (case r of Some e \<Rightarrow> Some e | None \<Rightarrow> first_failure rs)"

definition Start_result :: "startup \<Rightarrow> go_error option" where
  "Start_result su =
     (case first_failure (take 3 (su_Lists su)) of
        Some e \<Rightarrow> Some e
      | None \<Rightarrow> if \<not> su_CacheSynced su then Some (ErrorString ''failed to sync resource cache'') else None)"

section \<open>\<open>run\<close>\<close>

definition run_config :: "environ \<Rightarrow> MaintenanceConfig \<Rightarrow> MaintenanceConfig" where
  "run_config os config =
     (let c1 = (if get_namespace config = [] then set_namespace (ThisPodNS os) config else config)
      in if JobNS os \<noteq> [] then set_namespace (JobNS os) c1 else c1)"

text \<open>The callbacks of the elector; \<open>Done\<close> when the goroutine ends without an exit.\<close>

definition onElected :: "startup \<Rightarrow> unit run_result" where
  "onElected su =
     (if su_Scheme su \<noteq> None then Exits 1
      else if NewController_result su \<noteq> None then Exits 1
      else if Start_result su \<noteq> None then Exits 1
      else Done ())"

definition onEjected :: "unit run_result" where
  "onEjected = Exits 1"

text \<open>\<open>LeaderElector.Run\<close>: the lease is acquired, or the context is done first. In the end the deferred
  call of \<open>OnStoppedLeading\<close> runs; the goroutine of \<open>OnStartedLeading\<close> may end the process before that.\<close>

definition elector_Run :: "startup \<Rightarrow> unit run_result" where
  "elector_Run su =
     (if \<not> su_Acquired su then onEjected
      else (case onElected su of
              Exits n \<Rightarrow> if su_LeaseLostFirst su then onEjected else Exits n
            | _ \<Rightarrow> onEjected))"

definition run :: "startup \<Rightarrow> unit run_result" where
  "run su =
     (case su_KubeClient su of
        Some e \<Rightarrow> Fails (Wrapf ''failed to create kube client from kubeconfig: '' e)
      | None \<Rightarrow>
     (case su_Metrics su of
        Inl e \<Rightarrow> Fails (Wrapf ''failed to create metrics provider: '' e)
      | Inr metricsHandler \<Rightarrow>
     (if metricsHandler \<and> su_MetricsTLS su \<noteq> None
      then Fails (Wrapf ''failed to get tls config for metrics listener: '' (the (su_MetricsTLS su)))
      else
     (case su_Tracing su of
        Some e \<Rightarrow> Fails (Wrapf ''failed to create tracing provider: '' e)
      | None \<Rightarrow>
     (case su_Elector su of
        Some e \<Rightarrow> Fails (Wrapf ''failed to create elector: '' e)
      | None \<Rightarrow>
     (case elector_Run su of
        Done _ \<Rightarrow> Fails (ErrorString ''unreachable code'')
      | r \<Rightarrow> r))))))"

section \<open>The commands\<close>

record versionOptions =
  vo_branch :: bool
  vo_commit :: bool
  vo_tag :: bool
  vo_arch :: bool
  vo_goVersion :: bool
  vo_goCompilerPlatform :: bool

record build_info =
  bi_branch :: string
  bi_commit :: string
  bi_tag :: string
  bi_arch :: string
  bi_goVersion :: string
  bi_goCompilerPlatform :: string

abbreviation newline :: string where
  "newline \<equiv> [CHR 0x0A]"

definition Branch :: "build_info \<Rightarrow> string" where
  "Branch b = bi_branch b"

definition Commit :: "build_info \<Rightarrow> string" where
  "Commit b = bi_commit b"

definition Tag :: "build_info \<Rightarrow> string" where
  "Tag b = bi_tag b"

definition Arch :: "build_info \<Rightarrow> string" where
  "Arch b = bi_arch b"

text \<open>\<open>runtime.Version()\<close>.\<close>

definition GoVersion :: "build_info \<Rightarrow> string" where
  "GoVersion b = bi_goVersion b"

definition GoCompilerPlatform :: "build_info \<Rightarrow> string" where
  "GoCompilerPlatform b = bi_goCompilerPlatform b"

definition Version :: "build_info \<Rightarrow> string" where
  "Version b =
     ''branch: '' @ Branch b @ newline @ ''commit: '' @ Commit b @ newline @
     ''tag: '' @ Tag b @ newline @ ''arch: '' @ Arch b @ newline @
     ''goVersion: '' @ GoVersion b @ newline @
     ''goCompilerPlatform: '' @ GoCompilerPlatform b @ newline"

definition version_output :: "versionOptions \<Rightarrow> build_info \<Rightarrow> string" where
  "version_output opt b =
     (if vo_branch opt then Branch b
      else if vo_commit opt then Commit b
      else if vo_tag opt then Tag b
      else if vo_arch opt then Arch b
      else if vo_goVersion opt then GoVersion b
      else if vo_goCompilerPlatform opt then GoCompilerPlatform b
      else Version b)"

text \<open>The flags of the command, all unset at first, in the order the command line gives them.\<close>

definition new_versionOptions :: versionOptions where
  "new_versionOptions = \<lparr>vo_branch = False, vo_commit = False, vo_tag = False, vo_arch = False,
     vo_goVersion = False, vo_goCompilerPlatform = False\<rparr>"

definition versionFlags :: "(string \<times> (bool \<Rightarrow> versionOptions \<Rightarrow> versionOptions)) list" where
  "versionFlags =
     [(''branch'', \<lambda>b. vo_branch_update (\<lambda>_. b)), (''commit'', \<lambda>b. vo_commit_update (\<lambda>_. b)),
      (''tag'', \<lambda>b. vo_tag_update (\<lambda>_. b)), (''arch'', \<lambda>b. vo_arch_update (\<lambda>_. b)),
      (''go.version'', \<lambda>b. vo_goVersion_update (\<lambda>_. b)),
      (''go.compilerPlatform'', \<lambda>b. vo_goCompilerPlatform_update (\<lambda>_. b))]"

fun parse_version_flags :: "(string \<times> bool) list \<Rightarrow> versionOptions \<Rightarrow> go_error + versionOptions" where
  "parse_version_flags [] opt = Inr opt"
| "parse_version_flags ((name, b) # fs) opt =
     (case map_of versionFlags name of
        None \<Rightarrow> Inl (ErrorString (''unknown flag: --'' @ name))
      | Some change \<Rightarrow> parse_version_flags fs (change b opt))"

text \<open>Whatever else is asked for, \<open>--branch\<close> shows the branch alone.\<close>

lemma version_branch_first:
  assumes "parse_version_flags fs opt = Inr opt'" and "vo_branch opt" and "(''branch'', False) \<notin> set fs"
  shows "version_output opt' b = Branch b"
  using assms
proof (induction fs opt rule: parse_version_flags.induct)
  case (2 name v fs opt)
  then show ?case by (auto simp: versionFlags_def split: if_splits)
qed (simp add: version_output_def)

text \<open>Besides the commands of the program there are those the library adds: \<open>help\<close> and the hidden one for the completion
  of command lines, whose flags are not parsed.\<close>

datatype command = VersionCmd versionOptions | HelpCmd | CompleteCmd | ViharaCmd

text \<open>The library's flag \<open>--help\<close>: its last value.\<close>

fun help_value :: "flag list \<Rightarrow> bool" where
  "help_value [] = False"
| "help_value (f # fs) = (if Help True \<in> set fs \<or> Help False \<in> set fs then help_value fs else f = Help True)"

abbreviation ErrHelp :: go_error where
  "ErrHelp \<equiv> ErrorString ''pflag: help requested''"

text \<open>The library's \<open>Command.execute\<close>: the flags are parsed, help is asked for, or the hook of the root command and the
  command itself run. What the hook has made is part of the result. \<open>ExecuteC\<close> shows help when that is what was asked
  for, and returns no error then.\<close>

definition command_execute ::
  "go_error + flag list \<Rightarrow> (flag list \<Rightarrow> 'c run_result) \<Rightarrow> ('c \<Rightarrow> unit run_result) \<Rightarrow> 'c option \<times> unit run_result" where
  "command_execute parsed persistentPreRun runCmd =
     (case parsed of
        Inl e \<Rightarrow> (None, Fails e)
      | Inr fs \<Rightarrow>
          (if help_value fs then (None, Fails ErrHelp)
           else (case persistentPreRun fs of
                   Done c \<Rightarrow> (Some c, runCmd c)
                 | Fails e \<Rightarrow> (None, Fails e)
                 | Exits n \<Rightarrow> (None, Exits n)
                 | Crashes e \<Rightarrow> (None, Crashes e))))"

definition ExecuteC :: "'c option \<times> unit run_result \<Rightarrow> 'c option \<times> unit run_result" where
  "ExecuteC r = (case r of (c, res) \<Rightarrow> (c, if res = Fails ErrHelp then Done () else res))"

text \<open>The hook: it reads the configuration, except for the version command.\<close>

definition read_hook :: "environ \<Rightarrow> startup \<Rightarrow> flag list \<Rightarrow> cli run_result" where
  "read_hook os su fs = ReadConfig os su fs (ParseFlags fs NewViharaCmd)"

text \<open>The root command, with the configuration it runs with.\<close>

definition execute_root :: "environ \<Rightarrow> startup \<Rightarrow> go_error + flag list \<Rightarrow> MaintenanceConfig option \<times> unit run_result" where
  "execute_root os su parsed =
     (case ExecuteC (command_execute parsed (read_hook os su) (\<lambda>_. run su)) of
        (c, r) \<Rightarrow> (map_option (\<lambda>c. run_config os (vc_Maintenance (cl_config c))) c, r))"

definition execute :: "environ \<Rightarrow> startup \<Rightarrow> command \<Rightarrow> go_error + flag list \<Rightarrow> unit run_result" where
  "execute os su cmd parsed =
     (case cmd of
        VersionCmd opt \<Rightarrow> snd (ExecuteC (command_execute parsed (\<lambda>_. Done ()) (\<lambda>_. Done ())))
      | HelpCmd \<Rightarrow> snd (ExecuteC (command_execute parsed (read_hook os su) (\<lambda>_. Done ())))
      | CompleteCmd \<Rightarrow> snd (ExecuteC (command_execute (map_sum id (\<lambda>_. []) parsed) (read_hook os su) (\<lambda>_. Done ())))
      | ViharaCmd \<Rightarrow> snd (execute_root os su parsed))"

text \<open>\<open>main\<close> exits with 1 on an error; a panic ends a Go program with status 2.\<close>

definition main_status :: "environ \<Rightarrow> startup \<Rightarrow> command \<Rightarrow> go_error + flag list \<Rightarrow> nat" where
  "main_status os su cmd parsed =
     (case execute os su cmd parsed of Done _ \<Rightarrow> 0 | Fails _ \<Rightarrow> 1 | Exits n \<Rightarrow> n | Crashes _ \<Rightarrow> 2)"

section \<open>What flags do\<close>

text \<open>The last value a command line gives to a setting, and to the namespace.\<close>

fun flag_value :: "setting \<Rightarrow> flag list \<Rightarrow> duration option" where
  "flag_value s [] = None"
| "flag_value s (f # fs) =
     (case flag_value s fs of
        Some v \<Rightarrow> Some v
      | None \<Rightarrow> (case f of Setting s' v \<Rightarrow> if s' = s then Some v else None | _ \<Rightarrow> None))"

fun flag_namespace :: "flag list \<Rightarrow> string option" where
  "flag_namespace [] = None"
| "flag_namespace (f # fs) =
     (case flag_namespace fs of
        Some v \<Rightarrow> Some v
      | None \<Rightarrow> (case f of JobsNamespace ns \<Rightarrow> Some ns | _ \<Rightarrow> None))"

abbreviation maintenance_of :: "cli \<Rightarrow> MaintenanceConfig" where
  "maintenance_of c \<equiv> vc_Maintenance (cl_config c)"

lemma get_set [simp]:
  "get_setting s (set_setting s' v c) = (if s' = s then v else get_setting s c)"
  "get_namespace (set_setting s' v c) = get_namespace c"
  "get_setting s (set_namespace ns c) = get_setting s c" "get_namespace (set_namespace ns c) = ns"
  by (cases s; cases s'; simp add: get_namespace_def set_namespace_def)+

lemma apply_flag_get:
  "get_setting s (maintenance_of (apply_flag f c)) =
     (case f of Setting s' v \<Rightarrow> if s' = s then v else get_setting s (maintenance_of c) | _ \<Rightarrow> get_setting s (maintenance_of c))"
  "get_namespace (maintenance_of (apply_flag f c)) =
     (case f of JobsNamespace ns \<Rightarrow> ns | _ \<Rightarrow> get_namespace (maintenance_of c))"
  by (cases f; simp add: on_maintenance_def)+

lemma ParseFlags_get:
  "get_setting s (maintenance_of (ParseFlags fs c)) =
     (case flag_value s fs of Some v \<Rightarrow> v | None \<Rightarrow> get_setting s (maintenance_of c))"
  "get_namespace (maintenance_of (ParseFlags fs c)) =
     (case flag_namespace fs of Some ns \<Rightarrow> ns | None \<Rightarrow> get_namespace (maintenance_of c))"
  unfolding ParseFlags_def
  by (induction fs arbitrary: c) (auto simp: apply_flag_get split: option.split flag.split)

section \<open>Properties\<close>

lemma ReadConfig_done:
  assumes "ReadConfig os su fs c = Done c'" and "su_ReadFile su (cl_configFile c) = (bytes, err)"
  obtains fc where "decode_file os su bytes (cl_config c) = Inr fc"
    and "\<exists>ls. c' = ParseFlags fs (c\<lparr>cl_config := fc\<lparr>vc_Log := ls\<rparr>\<rparr>)"
  using assms
  by (auto simp: ReadConfig_def SetLogConfig_def Let_def SetDefaultLogger_def
      split: if_splits sum.splits option.splits)

text \<open>C28: Which setting wins: the last flag of the command line, else what the configuration file leaves
  behind, else the default of the flag (when there is no text in the file). The job namespace is that
  of \<open>JOB_NAMESPACE\<close> when it is set and not empty, even against a flag; else the namespace of flag or file
  when it is not empty; else the namespace of the pod.\<close>

theorem configuration_precedence:
  assumes "su_ReadFile su (cl_configFile (ParseFlags fs NewViharaCmd)) = (bytes, err)"
    and "decode_file os su bytes (cl_config (ParseFlags fs NewViharaCmd)) = Inr fc"
    and "fst (execute_root os su (Inr fs)) = Some mc"
  shows "get_setting s mc =
      (case flag_value s fs of
         Some v \<Rightarrow> v
       | None \<Rightarrow> if bytes = [] then get_setting s default_maintenance else get_setting s (vc_Maintenance fc)) \<and>
    get_namespace mc =
      (if JobNS os \<noteq> [] then JobNS os
       else (let ns = (case flag_namespace fs of Some ns \<Rightarrow> ns | None \<Rightarrow> get_namespace (vc_Maintenance fc))
             in if ns = [] then ThisPodNS os else ns))"
proof -
  let ?c = "ParseFlags fs NewViharaCmd"
  obtain c where c: "ReadConfig os su fs ?c = Done c" "mc = run_config os (maintenance_of c)"
    using assms(3) by (auto simp: execute_root_def command_execute_def ExecuteC_def read_hook_def
        split: run_result.splits if_splits prod.splits)
  obtain ls where f: "c = ParseFlags fs (?c\<lparr>cl_config := fc\<lparr>vc_Log := ls\<rparr>\<rparr>)"
    using ReadConfig_done [OF c(1) assms(1)] assms(2) by (metis sum.inject(2))
  have e: "bytes = [] \<Longrightarrow> fc = cl_config ?c" using assms(2) by (simp add: decode_file_def)
  have g: "get_setting s mc = get_setting s (maintenance_of c)"
    by (simp add: c(2) run_config_def Let_def)
  show ?thesis
    unfolding g using e
    by (auto simp: c(2) run_config_def Let_def f ParseFlags_get NewViharaCmd_def split: option.split)
qed

definition sample_startup :: startup where
  "sample_startup = \<lparr>su_ReadFile = \<lambda>_. (''x'', None),
     su_Unmarshal = \<lambda>_ c. Inr (c\<lparr>vc_Maintenance := set_namespace ''file'' (set_setting JobsPollInterval 7 (vc_Maintenance c))\<rparr>),
     su_NewLogger = \<lambda>_. None, su_KubeClient = None, su_Metrics = Inr False, su_MetricsTLS = None, su_Tracing = None,
     su_Elector = None, su_Acquired = True, su_Scheme = None, su_ControllerKubeClient = None,
     su_ControllerClient = None, su_Lists = [None, None, None], su_CacheSynced = True, su_LeaseLostFirst = False\<rparr>"

theorem configuration_precedence_witness:
  "\<exists>mc. fst (execute_root (\<lambda>_. None) sample_startup (Inr [Setting SchedulePollInterval 9])) = Some mc \<and>
     get_setting SchedulePollInterval mc = 9 \<and> get_setting JobsPollInterval mc = 7 \<and> get_namespace mc = ''file''"
proof -
  let ?fs = "[Setting SchedulePollInterval 9]" and ?os = "\<lambda>_. None :: string option"
  let ?c = "cl_config (ParseFlags ?fs NewViharaCmd)"
  have r: "su_ReadFile sample_startup (cl_configFile (ParseFlags ?fs NewViharaCmd)) = (''x'', None)"
    by (simp add: sample_startup_def)
  have d: "decode_file ?os sample_startup ''x'' ?c =
      Inr (?c\<lparr>vc_Maintenance := set_namespace ''file'' (set_setting JobsPollInterval 7 (vc_Maintenance ?c))\<rparr>)"
    by (simp add: decode_file_def sample_startup_def)
  have "fst (execute_root ?os sample_startup (Inr ?fs)) \<noteq> None" by code_simp
  then obtain mc where m: "fst (execute_root ?os sample_startup (Inr ?fs)) = Some mc" by blast
  note p = configuration_precedence [OF r d m]
  show ?thesis
    using p [of SchedulePollInterval] p [of JobsPollInterval] m by (simp add: JobNS_Getenv Getenv_def)
qed






lemma help_ends_well: "main_status os su ViharaCmd (Inr (fs @ [Help True])) = 0"
proof -
  have "help_value (fs @ [Help True])" by (induction fs) auto
  then show ?thesis by (simp add: main_status_def execute_def execute_root_def command_execute_def ExecuteC_def)
qed

lemma OnStart_once:
  assumes "OnStart f m w = (err, m1, w1)"
  shows "OnStart g m1 w1 = (None, m1, w1)"
  using assms by (auto simp: OnStart_def split: if_splits prod.splits)

lemma second_signal_exits: "handle_signals 0 (s # t # sigs) b = Exits 1"
  by simp

end
