(* ===== verification/Clients.thy ===== *)
theory Clients
  imports World
begin

text \<open>
  The typed clients of the API group (\<open>generated/clientset/versioned/typed/vihara/v1alpha1\<close>), on top
  of the request builder of \<open>k8s.io/client-go/rest/request.go\<close>, and their fakes, on top of the actions
  of \<open>k8s.io/client-go/testing\<close>. The encoders of objects and options are parameters, and so is the
  server, which answers a request. A path is the list of its segments.
\<close>

section \<open>Requests\<close>

record Request =
  rq_verb :: string
  rq_pathPrefix :: "string list"
  rq_timeout :: duration
  rq_params :: "(string \<times> string) list"
  rq_namespace :: string
  rq_namespaceSet :: bool
  rq_resource :: string
  rq_resourceName :: string
  rq_subresource :: "string list"
  rq_body :: "string option"
  rq_err :: "go_error option"

text \<open>The options an operation is given; those of single objects are only handed to the encoder.\<close>

record ListOptions =
  lo_LabelSelector :: string
  lo_FieldSelector :: string
  lo_ResourceVersion :: string
  lo_TimeoutSeconds :: "64 word option"
  lo_Watch :: bool

datatype options =
    GetOptions string
  | CreateOptions string
  | UpdateOptions string
  | PatchOptions string
  | ListOpts ListOptions

record codec =
  cd_params :: "options \<Rightarrow> go_error + (string \<times> string) list"
  cd_mt :: "Maintenance \<Rightarrow> go_error + string"
  cd_mj :: "MaintenanceJob \<Rightarrow> go_error + string"
  cd_delete :: "string \<Rightarrow> go_error + string"

definition IsValidPathSegmentName :: "string \<Rightarrow> bool" where
  "IsValidPathSegmentName name \<longleftrightarrow> name \<noteq> ''.'' \<and> name \<noteq> ''..'' \<and>
     CHR ''/'' \<notin> set name \<and> CHR ''%'' \<notin> set name"

text \<open>A step of the chain does nothing once there is an error.\<close>

definition chain :: "(Request \<Rightarrow> Request) \<Rightarrow> Request \<Rightarrow> Request" where
  "chain f r = (if rq_err r \<noteq> None then r else f r)"

definition fail :: "string \<Rightarrow> Request \<Rightarrow> Request" where
  "fail msg r = r\<lparr>rq_err := Some (ErrorString msg)\<rparr>"

text \<open>The prefix of the group: \<open>/apis/vihara.arhat.dev/v1alpha1\<close>.\<close>

definition NewRequest :: "string \<Rightarrow> Request" where
  "NewRequest verb = \<lparr>rq_verb = verb, rq_pathPrefix = [''apis'', ''vihara.arhat.dev'', ''v1alpha1''],
     rq_timeout = 0, rq_params = [], rq_namespace = [], rq_namespaceSet = False, rq_resource = [],
     rq_resourceName = [], rq_subresource = [], rq_body = None, rq_err = None\<rparr>"

definition Resource :: "string \<Rightarrow> Request \<Rightarrow> Request" where
  "Resource resource = chain (\<lambda>r.
     if rq_resource r \<noteq> [] then fail ''resource already set'' r
     else if \<not> IsValidPathSegmentName resource then fail ''invalid resource'' r
     else r\<lparr>rq_resource := resource\<rparr>)"

text \<open>\<open>path.Join\<close> drops empty elements.\<close>

definition path_join :: "string list \<Rightarrow> string list" where
  "path_join segments = filter (\<lambda>s. s \<noteq> []) segments"

definition SubResource :: "string list \<Rightarrow> Request \<Rightarrow> Request" where
  "SubResource subresources = chain (\<lambda>r.
     if rq_subresource r \<noteq> [] then fail ''subresource already set'' r
     else if \<not> list_all IsValidPathSegmentName subresources then fail ''invalid subresource'' r
     else r\<lparr>rq_subresource := path_join subresources\<rparr>)"

definition Name :: "string \<Rightarrow> Request \<Rightarrow> Request" where
  "Name resourceName = chain (\<lambda>r.
     if resourceName = [] then fail ''resource name may not be empty'' r
     else if rq_resourceName r \<noteq> [] then fail ''resource name already set'' r
     else if \<not> IsValidPathSegmentName resourceName then fail ''invalid resource name'' r
     else r\<lparr>rq_resourceName := resourceName\<rparr>)"

definition Namespace :: "string \<Rightarrow> Request \<Rightarrow> Request" where
  "Namespace namespace = chain (\<lambda>r.
     if rq_namespaceSet r then fail ''namespace already set'' r
     else if \<not> IsValidPathSegmentName namespace then fail ''invalid namespace'' r
     else r\<lparr>rq_namespaceSet := True, rq_namespace := namespace\<rparr>)"

definition VersionedParams :: "codec \<Rightarrow> options \<Rightarrow> Request \<Rightarrow> Request" where
  "VersionedParams cd opts = chain (\<lambda>r.
     case cd_params cd opts of
       Inl e \<Rightarrow> r\<lparr>rq_err := Some e\<rparr>
     | Inr ps \<Rightarrow> r\<lparr>rq_params := rq_params r @ ps\<rparr>)"

definition Timeout :: "duration \<Rightarrow> Request \<Rightarrow> Request" where
  "Timeout d = chain (\<lambda>r. r\<lparr>rq_timeout := d\<rparr>)"

text \<open>The body, encoded (an object) or as it is (bytes).\<close>

definition Body :: "go_error + string \<Rightarrow> Request \<Rightarrow> Request" where
  "Body encoded = chain (\<lambda>r.
     case encoded of
       Inl e \<Rightarrow> r\<lparr>rq_err := Some e\<rparr>
     | Inr data \<Rightarrow> r\<lparr>rq_body := Some data\<rparr>)"

text \<open>\<open>strings.ToLower\<close>, on the bytes of ASCII.\<close>

definition ToLower :: "string \<Rightarrow> string" where
  "ToLower s = map (\<lambda>c. let n = (of_char c :: nat) in if 65 \<le> n \<and> n \<le> 90 then char_of (n + 32) else c) s"

lemma ToLower_resources [simp]:
  "ToLower ''maintenance'' = ''maintenance''" "ToLower ''maintenancejobs'' = ''maintenancejobs''"
  "ToLower s = [] \<longleftrightarrow> s = []"
  by (simp_all add: ToLower_def)

definition URL :: "Request \<Rightarrow> string list" where
  "URL r = path_join (rq_pathPrefix r
     @ (if rq_namespaceSet r \<and> rq_namespace r \<noteq> [] then [''namespaces'', rq_namespace r] else [])
     @ [ToLower (rq_resource r)] @ [rq_resourceName r] @ rq_subresource r)"

definition requestPreflightCheck :: "Request \<Rightarrow> go_error option" where
  "requestPreflightCheck r =
     (if \<not> rq_namespaceSet r then None
      else if rq_namespace r \<noteq> [] then None
      else if rq_verb r = ''POST'' then Some (ErrorString ''an empty namespace may not be set during creation'')
      else if rq_verb r \<in> {''GET'', ''PUT'', ''DELETE''} \<and> rq_resourceName r \<noteq> []
      then Some (ErrorString ''an empty namespace may not be set when a resource name is provided'')
      else None)"

text \<open>\<open>Do\<close> sends a request without an error that passes the check, and \<open>Into\<close> decodes the answer over a
  zero object.\<close>

definition request_error :: "Request \<Rightarrow> go_error option" where
  "request_error r = (case rq_err r of Some e \<Rightarrow> Some e | None \<Rightarrow> requestPreflightCheck r)"

definition do_into :: "(Request \<Rightarrow> go_error + 'o) \<Rightarrow> 'o \<Rightarrow> Request \<Rightarrow> 'o \<times> go_error option" where
  "do_into server zero r =
     (case request_error r of
        Some e \<Rightarrow> (zero, Some e)
      | None \<Rightarrow> (case server r of Inl e \<Rightarrow> (zero, Some e) | Inr x \<Rightarrow> (x, None)))"

text \<open>\<open>time.Duration(*opts.TimeoutSeconds) * time.Second\<close>, which wraps around.\<close>

definition list_timeout :: "ListOptions \<Rightarrow> duration" where
  "list_timeout opts = (case lo_TimeoutSeconds opts of None \<Rightarrow> 0 | Some s \<Rightarrow> s * 1000000000)"

section \<open>The client of maintenances\<close>

definition maintenance_Get :: "codec \<Rightarrow> string \<Rightarrow> string \<Rightarrow> Request" where
  "maintenance_Get cd name opts =
     VersionedParams cd (GetOptions opts) (Name name (Resource ''maintenance'' (NewRequest ''GET'')))"

definition maintenance_List :: "codec \<Rightarrow> ListOptions \<Rightarrow> Request" where
  "maintenance_List cd opts =
     Timeout (list_timeout opts) (VersionedParams cd (ListOpts opts) (Resource ''maintenance'' (NewRequest ''GET'')))"

definition maintenance_Watch :: "codec \<Rightarrow> ListOptions \<Rightarrow> Request" where
  "maintenance_Watch cd opts =
     (let timeout = list_timeout opts; opts = opts\<lparr>lo_Watch := True\<rparr>
      in Timeout timeout (VersionedParams cd (ListOpts opts) (Resource ''maintenance'' (NewRequest ''GET''))))"

definition maintenance_Create :: "codec \<Rightarrow> Maintenance \<Rightarrow> string \<Rightarrow> Request" where
  "maintenance_Create cd mt opts =
     Body (cd_mt cd mt) (VersionedParams cd (CreateOptions opts) (Resource ''maintenance'' (NewRequest ''POST'')))"

definition maintenance_Update :: "codec \<Rightarrow> Maintenance \<Rightarrow> string \<Rightarrow> Request" where
  "maintenance_Update cd mt opts =
     Body (cd_mt cd mt) (VersionedParams cd (UpdateOptions opts)
       (Name (mt_Name mt) (Resource ''maintenance'' (NewRequest ''PUT''))))"

definition maintenance_UpdateStatus :: "codec \<Rightarrow> Maintenance \<Rightarrow> string \<Rightarrow> Request" where
  "maintenance_UpdateStatus cd mt opts =
     Body (cd_mt cd mt) (VersionedParams cd (UpdateOptions opts)
       (SubResource [''status''] (Name (mt_Name mt) (Resource ''maintenance'' (NewRequest ''PUT'')))))"

definition maintenance_Delete :: "codec \<Rightarrow> string \<Rightarrow> string \<Rightarrow> Request" where
  "maintenance_Delete cd name opts =
     Body (cd_delete cd opts) (Name name (Resource ''maintenance'' (NewRequest ''DELETE'')))"

definition maintenance_DeleteCollection :: "codec \<Rightarrow> string \<Rightarrow> ListOptions \<Rightarrow> Request" where
  "maintenance_DeleteCollection cd opts listOpts =
     Body (cd_delete cd opts) (Timeout (list_timeout listOpts)
       (VersionedParams cd (ListOpts listOpts) (Resource ''maintenance'' (NewRequest ''DELETE''))))"

definition maintenance_Patch :: "codec \<Rightarrow> string \<Rightarrow> string \<Rightarrow> string \<Rightarrow> string list \<Rightarrow> Request" where
  "maintenance_Patch cd name data opts subresources =
     Body (Inr data) (VersionedParams cd (PatchOptions opts)
       (SubResource subresources (Name name (Resource ''maintenance'' (NewRequest ''PATCH'')))))"

section \<open>The client of the maintenance jobs of a namespace\<close>

definition maintenanceJobs_Get :: "codec \<Rightarrow> string \<Rightarrow> string \<Rightarrow> string \<Rightarrow> Request" where
  "maintenanceJobs_Get cd ns name opts =
     VersionedParams cd (GetOptions opts) (Name name (Resource ''maintenancejobs'' (Namespace ns (NewRequest ''GET''))))"

definition maintenanceJobs_List :: "codec \<Rightarrow> string \<Rightarrow> ListOptions \<Rightarrow> Request" where
  "maintenanceJobs_List cd ns opts =
     Timeout (list_timeout opts) (VersionedParams cd (ListOpts opts)
       (Resource ''maintenancejobs'' (Namespace ns (NewRequest ''GET''))))"

definition maintenanceJobs_Watch :: "codec \<Rightarrow> string \<Rightarrow> ListOptions \<Rightarrow> Request" where
  "maintenanceJobs_Watch cd ns opts =
     (let timeout = list_timeout opts; opts = opts\<lparr>lo_Watch := True\<rparr>
      in Timeout timeout (VersionedParams cd (ListOpts opts)
           (Resource ''maintenancejobs'' (Namespace ns (NewRequest ''GET'')))))"

definition maintenanceJobs_Create :: "codec \<Rightarrow> string \<Rightarrow> MaintenanceJob \<Rightarrow> string \<Rightarrow> Request" where
  "maintenanceJobs_Create cd ns j opts =
     Body (cd_mj cd j) (VersionedParams cd (CreateOptions opts)
       (Resource ''maintenancejobs'' (Namespace ns (NewRequest ''POST''))))"

definition maintenanceJobs_Update :: "codec \<Rightarrow> string \<Rightarrow> MaintenanceJob \<Rightarrow> string \<Rightarrow> Request" where
  "maintenanceJobs_Update cd ns j opts =
     Body (cd_mj cd j) (VersionedParams cd (UpdateOptions opts)
       (Name (mj_Name j) (Resource ''maintenancejobs'' (Namespace ns (NewRequest ''PUT'')))))"

definition maintenanceJobs_UpdateStatus :: "codec \<Rightarrow> string \<Rightarrow> MaintenanceJob \<Rightarrow> string \<Rightarrow> Request" where
  "maintenanceJobs_UpdateStatus cd ns j opts =
     Body (cd_mj cd j) (VersionedParams cd (UpdateOptions opts)
       (SubResource [''status''] (Name (mj_Name j)
         (Resource ''maintenancejobs'' (Namespace ns (NewRequest ''PUT''))))))"

definition maintenanceJobs_Delete :: "codec \<Rightarrow> string \<Rightarrow> string \<Rightarrow> string \<Rightarrow> Request" where
  "maintenanceJobs_Delete cd ns name opts =
     Body (cd_delete cd opts) (Name name (Resource ''maintenancejobs'' (Namespace ns (NewRequest ''DELETE''))))"

definition maintenanceJobs_DeleteCollection :: "codec \<Rightarrow> string \<Rightarrow> string \<Rightarrow> ListOptions \<Rightarrow> Request" where
  "maintenanceJobs_DeleteCollection cd ns opts listOpts =
     Body (cd_delete cd opts) (Timeout (list_timeout listOpts)
       (VersionedParams cd (ListOpts listOpts)
         (Resource ''maintenancejobs'' (Namespace ns (NewRequest ''DELETE'')))))"

definition maintenanceJobs_Patch :: "codec \<Rightarrow> string \<Rightarrow> string \<Rightarrow> string \<Rightarrow> string \<Rightarrow> string list \<Rightarrow> Request" where
  "maintenanceJobs_Patch cd ns name data opts subresources =
     Body (Inr data) (VersionedParams cd (PatchOptions opts)
       (SubResource subresources (Name name
         (Resource ''maintenancejobs'' (Namespace ns (NewRequest ''PATCH''))))))"

section \<open>The fakes\<close>

text \<open>An action of the fake clientset; \<open>ac_Object\<close> is what a creation or an update carries.\<close>

record 'o action =
  ac_Verb :: string
  ac_Resource :: string
  ac_Namespace :: string
  ac_Name :: string
  ac_Subresource :: "string list"
  ac_Object :: "'o option"
  ac_Patch :: string
  ac_Restrictions :: "ListOptions option"

definition new_action :: "string \<Rightarrow> string \<Rightarrow> 'o action" where
  "new_action verb resource = \<lparr>ac_Verb = verb, ac_Resource = resource, ac_Namespace = [], ac_Name = [],
     ac_Subresource = [], ac_Object = None, ac_Patch = [], ac_Restrictions = None\<rparr>"

definition FakeMaintenance_Get :: "string \<Rightarrow> Maintenance action" where
  "FakeMaintenance_Get name = (new_action ''get'' ''maintenance'')\<lparr>ac_Name := name\<rparr>"

definition FakeMaintenance_List_action :: "ListOptions \<Rightarrow> Maintenance action" where
  "FakeMaintenance_List_action opts = (new_action ''list'' ''maintenance'')\<lparr>ac_Restrictions := Some opts\<rparr>"

definition FakeMaintenance_Watch :: "ListOptions \<Rightarrow> Maintenance action" where
  "FakeMaintenance_Watch opts = (new_action ''watch'' ''maintenance'')\<lparr>ac_Restrictions := Some opts\<rparr>"

definition FakeMaintenance_Create :: "Maintenance \<Rightarrow> Maintenance action" where
  "FakeMaintenance_Create mt = (new_action ''create'' ''maintenance'')\<lparr>ac_Object := Some mt\<rparr>"

definition FakeMaintenance_Update :: "Maintenance \<Rightarrow> Maintenance action" where
  "FakeMaintenance_Update mt = (new_action ''update'' ''maintenance'')\<lparr>ac_Object := Some mt\<rparr>"

definition FakeMaintenance_UpdateStatus :: "Maintenance \<Rightarrow> Maintenance action" where
  "FakeMaintenance_UpdateStatus mt =
     (new_action ''update'' ''maintenance'')\<lparr>ac_Subresource := [''status''], ac_Object := Some mt\<rparr>"

definition FakeMaintenance_Delete :: "string \<Rightarrow> Maintenance action" where
  "FakeMaintenance_Delete name = (new_action ''delete'' ''maintenance'')\<lparr>ac_Name := name\<rparr>"

definition FakeMaintenance_DeleteCollection :: "ListOptions \<Rightarrow> Maintenance action" where
  "FakeMaintenance_DeleteCollection opts =
     (new_action ''delete-collection'' ''maintenance'')\<lparr>ac_Restrictions := Some opts\<rparr>"

definition FakeMaintenance_Patch :: "string \<Rightarrow> string \<Rightarrow> string list \<Rightarrow> Maintenance action" where
  "FakeMaintenance_Patch name data subresources =
     (new_action ''patch'' ''maintenance'')\<lparr>ac_Subresource := path_join subresources, ac_Name := name, ac_Patch := data\<rparr>"

text \<open>The list a fake returns: the items whose labels match, when the tracker answered at all. The
  selector is parsed by the library (\<open>ExtractFromListOptions\<close>), which gives none for a list of everything, and then
  every item matches. That the library panics on a text that is no selector is outside the model.\<close>

definition fake_list :: "(string \<Rightarrow> ((string \<times> string) list \<Rightarrow> bool) option) \<Rightarrow> ('o \<Rightarrow> (string \<times> string) list)
    \<Rightarrow> ListOptions \<Rightarrow> 'o list option \<times> go_error option \<Rightarrow> 'o list option \<times> go_error option" where
  "fake_list parse labels opts answer =
     (case answer of
        (None, err) \<Rightarrow> (None, err)
      | (Some items, err) \<Rightarrow>
          (let label = (case parse (lo_LabelSelector opts) of None \<Rightarrow> (\<lambda>_. True) | Some f \<Rightarrow> f)
           in (Some (filter (\<lambda>item. label (labels item)) items), err)))"

definition FakeMaintenance_List where
  "FakeMaintenance_List parse invokes opts =
     fake_list parse (\<lambda>mt. om_Labels (mt_Meta mt)) opts (invokes (FakeMaintenance_List_action opts))"

definition FakeMaintenanceJobs_Get :: "string \<Rightarrow> string \<Rightarrow> MaintenanceJob action" where
  "FakeMaintenanceJobs_Get ns name = (new_action ''get'' ''maintenancejobs'')\<lparr>ac_Namespace := ns, ac_Name := name\<rparr>"

definition FakeMaintenanceJobs_List_action :: "string \<Rightarrow> ListOptions \<Rightarrow> MaintenanceJob action" where
  "FakeMaintenanceJobs_List_action ns opts =
     (new_action ''list'' ''maintenancejobs'')\<lparr>ac_Namespace := ns, ac_Restrictions := Some opts\<rparr>"

definition FakeMaintenanceJobs_List where
  "FakeMaintenanceJobs_List parse invokes ns opts =
     fake_list parse (\<lambda>j. om_Labels (mj_Meta j)) opts (invokes (FakeMaintenanceJobs_List_action ns opts))"

definition FakeMaintenanceJobs_Watch :: "string \<Rightarrow> ListOptions \<Rightarrow> MaintenanceJob action" where
  "FakeMaintenanceJobs_Watch ns opts =
     (new_action ''watch'' ''maintenancejobs'')\<lparr>ac_Namespace := ns, ac_Restrictions := Some opts\<rparr>"

definition FakeMaintenanceJobs_Create :: "string \<Rightarrow> MaintenanceJob \<Rightarrow> MaintenanceJob action" where
  "FakeMaintenanceJobs_Create ns j =
     (new_action ''create'' ''maintenancejobs'')\<lparr>ac_Namespace := ns, ac_Object := Some j\<rparr>"

definition FakeMaintenanceJobs_Update :: "string \<Rightarrow> MaintenanceJob \<Rightarrow> MaintenanceJob action" where
  "FakeMaintenanceJobs_Update ns j =
     (new_action ''update'' ''maintenancejobs'')\<lparr>ac_Namespace := ns, ac_Object := Some j\<rparr>"

definition FakeMaintenanceJobs_UpdateStatus :: "string \<Rightarrow> MaintenanceJob \<Rightarrow> MaintenanceJob action" where
  "FakeMaintenanceJobs_UpdateStatus ns j =
     (new_action ''update'' ''maintenancejobs'')\<lparr>ac_Subresource := [''status''], ac_Namespace := ns, ac_Object := Some j\<rparr>"

definition FakeMaintenanceJobs_Delete :: "string \<Rightarrow> string \<Rightarrow> MaintenanceJob action" where
  "FakeMaintenanceJobs_Delete ns name =
     (new_action ''delete'' ''maintenancejobs'')\<lparr>ac_Namespace := ns, ac_Name := name\<rparr>"

definition FakeMaintenanceJobs_DeleteCollection :: "string \<Rightarrow> ListOptions \<Rightarrow> MaintenanceJob action" where
  "FakeMaintenanceJobs_DeleteCollection ns opts =
     (new_action ''delete-collection'' ''maintenancejobs'')\<lparr>ac_Namespace := ns, ac_Restrictions := Some opts\<rparr>"

definition FakeMaintenanceJobs_Patch :: "string \<Rightarrow> string \<Rightarrow> string \<Rightarrow> string list \<Rightarrow> MaintenanceJob action" where
  "FakeMaintenanceJobs_Patch ns name data subresources =
     (new_action ''patch'' ''maintenancejobs'')\<lparr>ac_Subresource := path_join subresources, ac_Namespace := ns,
        ac_Name := name, ac_Patch := data\<rparr>"

section \<open>The operations of the client interfaces\<close>

datatype 'o client_op =
    OpGet string string
  | OpList ListOptions
  | OpWatch ListOptions
  | OpCreate 'o string
  | OpUpdate 'o string
  | OpUpdateStatus 'o string
  | OpDelete string string
  | OpDeleteCollection string ListOptions
  | OpPatch string string string "string list"

fun maintenance_request :: "codec \<Rightarrow> Maintenance client_op \<Rightarrow> Request" where
  "maintenance_request cd (OpGet name opts) = maintenance_Get cd name opts"
| "maintenance_request cd (OpList opts) = maintenance_List cd opts"
| "maintenance_request cd (OpWatch opts) = maintenance_Watch cd opts"
| "maintenance_request cd (OpCreate mt opts) = maintenance_Create cd mt opts"
| "maintenance_request cd (OpUpdate mt opts) = maintenance_Update cd mt opts"
| "maintenance_request cd (OpUpdateStatus mt opts) = maintenance_UpdateStatus cd mt opts"
| "maintenance_request cd (OpDelete name opts) = maintenance_Delete cd name opts"
| "maintenance_request cd (OpDeleteCollection opts listOpts) = maintenance_DeleteCollection cd opts listOpts"
| "maintenance_request cd (OpPatch name data opts subs) = maintenance_Patch cd name data opts subs"

fun maintenance_action :: "Maintenance client_op \<Rightarrow> Maintenance action" where
  "maintenance_action (OpGet name opts) = FakeMaintenance_Get name"
| "maintenance_action (OpList opts) = FakeMaintenance_List_action opts"
| "maintenance_action (OpWatch opts) = FakeMaintenance_Watch opts"
| "maintenance_action (OpCreate mt opts) = FakeMaintenance_Create mt"
| "maintenance_action (OpUpdate mt opts) = FakeMaintenance_Update mt"
| "maintenance_action (OpUpdateStatus mt opts) = FakeMaintenance_UpdateStatus mt"
| "maintenance_action (OpDelete name opts) = FakeMaintenance_Delete name"
| "maintenance_action (OpDeleteCollection opts listOpts) = FakeMaintenance_DeleteCollection listOpts"
| "maintenance_action (OpPatch name data opts subs) = FakeMaintenance_Patch name data subs"

fun jobs_request :: "codec \<Rightarrow> string \<Rightarrow> MaintenanceJob client_op \<Rightarrow> Request" where
  "jobs_request cd ns (OpGet name opts) = maintenanceJobs_Get cd ns name opts"
| "jobs_request cd ns (OpList opts) = maintenanceJobs_List cd ns opts"
| "jobs_request cd ns (OpWatch opts) = maintenanceJobs_Watch cd ns opts"
| "jobs_request cd ns (OpCreate j opts) = maintenanceJobs_Create cd ns j opts"
| "jobs_request cd ns (OpUpdate j opts) = maintenanceJobs_Update cd ns j opts"
| "jobs_request cd ns (OpUpdateStatus j opts) = maintenanceJobs_UpdateStatus cd ns j opts"
| "jobs_request cd ns (OpDelete name opts) = maintenanceJobs_Delete cd ns name opts"
| "jobs_request cd ns (OpDeleteCollection opts listOpts) = maintenanceJobs_DeleteCollection cd ns opts listOpts"
| "jobs_request cd ns (OpPatch name data opts subs) = maintenanceJobs_Patch cd ns name data opts subs"

fun jobs_action :: "string \<Rightarrow> MaintenanceJob client_op \<Rightarrow> MaintenanceJob action" where
  "jobs_action ns (OpGet name opts) = FakeMaintenanceJobs_Get ns name"
| "jobs_action ns (OpList opts) = FakeMaintenanceJobs_List_action ns opts"
| "jobs_action ns (OpWatch opts) = FakeMaintenanceJobs_Watch ns opts"
| "jobs_action ns (OpCreate j opts) = FakeMaintenanceJobs_Create ns j"
| "jobs_action ns (OpUpdate j opts) = FakeMaintenanceJobs_Update ns j"
| "jobs_action ns (OpUpdateStatus j opts) = FakeMaintenanceJobs_UpdateStatus ns j"
| "jobs_action ns (OpDelete name opts) = FakeMaintenanceJobs_Delete ns name"
| "jobs_action ns (OpDeleteCollection opts listOpts) = FakeMaintenanceJobs_DeleteCollection ns listOpts"
| "jobs_action ns (OpPatch name data opts subs) = FakeMaintenanceJobs_Patch ns name data subs"

section \<open>What an operation should send\<close>

text \<open>The conventions of the Kubernetes API: the verb, the name in the path, the subresource.\<close>

fun op_verb :: "'o client_op \<Rightarrow> string" where
  "op_verb (OpGet _ _) = ''GET''"
| "op_verb (OpList _) = ''GET''"
| "op_verb (OpWatch _) = ''GET''"
| "op_verb (OpCreate _ _) = ''POST''"
| "op_verb (OpUpdate _ _) = ''PUT''"
| "op_verb (OpUpdateStatus _ _) = ''PUT''"
| "op_verb (OpDelete _ _) = ''DELETE''"
| "op_verb (OpDeleteCollection _ _) = ''DELETE''"
| "op_verb (OpPatch _ _ _ _) = ''PATCH''"

fun op_name :: "('o \<Rightarrow> string) \<Rightarrow> 'o client_op \<Rightarrow> string option" where
  "op_name nm (OpGet name _) = Some name"
| "op_name nm (OpUpdate x _) = Some (nm x)"
| "op_name nm (OpUpdateStatus x _) = Some (nm x)"
| "op_name nm (OpDelete name _) = Some name"
| "op_name nm (OpPatch name _ _ _) = Some name"
| "op_name nm _ = None"

fun op_subresource :: "'o client_op \<Rightarrow> string list" where
  "op_subresource (OpUpdateStatus _ _) = [''status'']"
| "op_subresource (OpPatch _ _ _ subs) = subs"
| "op_subresource _ = []"

fun op_body :: "(string \<Rightarrow> go_error + string) \<Rightarrow> ('o \<Rightarrow> go_error + string) \<Rightarrow> 'o client_op \<Rightarrow> go_error + string" where
  "op_body del enc (OpCreate x _) = enc x"
| "op_body del enc (OpUpdate x _) = enc x"
| "op_body del enc (OpUpdateStatus x _) = enc x"
| "op_body del enc (OpDelete _ opts) = del opts"
| "op_body del enc (OpDeleteCollection opts _) = del opts"
| "op_body del enc (OpPatch _ data _ _) = Inr data"
| "op_body del enc _ = Inr []"

fun op_options :: "'o client_op \<Rightarrow> options option" where
  "op_options (OpGet _ opts) = Some (GetOptions opts)"
| "op_options (OpList opts) = Some (ListOpts opts)"
| "op_options (OpWatch opts) = Some (ListOpts (opts\<lparr>lo_Watch := True\<rparr>))"
| "op_options (OpCreate _ opts) = Some (CreateOptions opts)"
| "op_options (OpUpdate _ opts) = Some (UpdateOptions opts)"
| "op_options (OpUpdateStatus _ opts) = Some (UpdateOptions opts)"
| "op_options (OpDelete _ _) = None"
| "op_options (OpDeleteCollection _ listOpts) = Some (ListOpts listOpts)"
| "op_options (OpPatch _ _ opts _) = Some (PatchOptions opts)"

text \<open>What must hold of an operation to be sent.\<close>

definition op_ok :: "codec \<Rightarrow> ('o \<Rightarrow> string) \<Rightarrow> ('o \<Rightarrow> go_error + string) \<Rightarrow> 'o client_op \<Rightarrow> bool" where
  "op_ok cd nm enc op \<longleftrightarrow>
     (case op_name nm op of None \<Rightarrow> True | Some n \<Rightarrow> n \<noteq> [] \<and> IsValidPathSegmentName n) \<and>
     list_all IsValidPathSegmentName (op_subresource op) \<and>
     (case op_options op of None \<Rightarrow> True | Some opts \<Rightarrow> \<not> isl (cd_params cd opts)) \<and>
     \<not> isl (op_body (cd_delete cd) enc op)"

definition group_path :: "string list" where
  "group_path = [''apis'', ''vihara.arhat.dev'', ''v1alpha1'']"

definition op_path :: "('o \<Rightarrow> string) \<Rightarrow> 'o client_op \<Rightarrow> string list" where
  "op_path nm op = (case op_name nm op of None \<Rightarrow> [] | Some n \<Rightarrow> [n]) @ filter (\<lambda>s. s \<noteq> []) (op_subresource op)"

section \<open>Lemmas\<close>

text \<open>The chain on a request without an error, and on one with an error.\<close>

lemma chain_simps [simp]:
  "rq_err r = None \<Longrightarrow> chain f r = f r" "rq_err r = Some e \<Longrightarrow> chain f r = r"
  by (simp_all add: chain_def)

lemmas builder_defs = Resource_def Name_def Namespace_def SubResource_def VersionedParams_def Timeout_def
  Body_def NewRequest_def fail_def requestPreflightCheck_def request_error_def op_ok_def

lemmas maintenance_defs = maintenance_Get_def maintenance_List_def maintenance_Watch_def maintenance_Create_def
  maintenance_Update_def maintenance_UpdateStatus_def maintenance_Delete_def maintenance_DeleteCollection_def
  maintenance_Patch_def

lemmas jobs_defs = maintenanceJobs_Get_def maintenanceJobs_List_def maintenanceJobs_Watch_def maintenanceJobs_Create_def
  maintenanceJobs_Update_def maintenanceJobs_UpdateStatus_def maintenanceJobs_Delete_def
  maintenanceJobs_DeleteCollection_def maintenanceJobs_Patch_def

lemma valid_constants [simp]:
  "IsValidPathSegmentName ''maintenance''" "IsValidPathSegmentName ''maintenancejobs''"
  "IsValidPathSegmentName ''status''"
  by (simp_all add: IsValidPathSegmentName_def)

text \<open>What the chain of an operation computes, step by step: a request is in order as long as the steps
  were, and carries what they set.\<close>

definition sent :: "Request \<Rightarrow> string \<Rightarrow> string \<Rightarrow> string \<Rightarrow> string \<Rightarrow> string list \<Rightarrow> bool" where
  "sent r verb ns resource name subs \<longleftrightarrow> rq_err r = None \<and> rq_verb r = verb \<and> rq_namespace r = ns \<and>
     rq_resource r = resource \<and> rq_resourceName r = name \<and> rq_subresource r = path_join subs \<and>
     rq_pathPrefix r = group_path"

lemma maintenance_sent:
  "rq_err (maintenance_request cd op) = None \<longleftrightarrow> op_ok cd mt_Name (cd_mt cd) op"
  "op_ok cd mt_Name (cd_mt cd) op \<Longrightarrow> \<not> rq_namespaceSet (maintenance_request cd op) \<and>
     sent (maintenance_request cd op) (op_verb op) [] ''maintenance''
       (case op_name mt_Name op of None \<Rightarrow> [] | Some n \<Rightarrow> n) (op_subresource op)"
  by (cases op; auto simp: maintenance_defs builder_defs sent_def path_join_def group_path_def Let_def chain_def
      split: sum.splits)+

lemma jobs_sent:
  "IsValidPathSegmentName ns \<Longrightarrow>
   rq_err (jobs_request cd ns op) = None \<longleftrightarrow> op_ok cd mj_Name (cd_mj cd) op"
  "IsValidPathSegmentName ns \<Longrightarrow> op_ok cd mj_Name (cd_mj cd) op \<Longrightarrow> rq_namespaceSet (jobs_request cd ns op) \<and>
     sent (jobs_request cd ns op) (op_verb op) ns ''maintenancejobs''
       (case op_name mj_Name op of None \<Rightarrow> [] | Some n \<Rightarrow> n) (op_subresource op)"
  by (cases op; auto simp: jobs_defs builder_defs sent_def path_join_def group_path_def Let_def chain_def
      split: sum.splits)+

section \<open>Properties\<close>

lemma sent_URL:
  "sent r verb ns resource name subs \<Longrightarrow> resource \<noteq> [] \<Longrightarrow> rq_namespaceSet r = (ns \<noteq> []) \<Longrightarrow>
   URL r = group_path @ (if ns \<noteq> [] then [''namespaces'', ns] else []) @ [ToLower resource]
     @ (if name = [] then [] else [name]) @ path_join subs"
  by (auto simp: sent_def URL_def path_join_def group_path_def)

text \<open>C30: Each operation of the two clients sends the request the Kubernetes API asks for, or none: without
  an error exactly when the name, the parts of the subresource and (for the jobs) the namespace are valid
  path segments, the name is not empty and options and object can be encoded; and then with the verb of
  the operation, to the path of the resource, in the namespace of the client for maintenance jobs and
  outside any namespace for maintenances, with the name of the object and \<open>status\<close> for a status update.\<close>

theorem client_requests:
  assumes "IsValidPathSegmentName ns" and "ns \<noteq> []"
  shows "(request_error (maintenance_request cd op1) = None \<longleftrightarrow> op_ok cd mt_Name (cd_mt cd) op1) \<and>
    (request_error (jobs_request cd ns op2) = None \<longleftrightarrow> op_ok cd mj_Name (cd_mj cd) op2) \<and>
    (op_ok cd mt_Name (cd_mt cd) op1 \<longrightarrow> rq_verb (maintenance_request cd op1) = op_verb op1 \<and>
       URL (maintenance_request cd op1) = group_path @ [''maintenance''] @ op_path mt_Name op1) \<and>
    (op_ok cd mj_Name (cd_mj cd) op2 \<longrightarrow> rq_verb (jobs_request cd ns op2) = op_verb op2 \<and>
       URL (jobs_request cd ns op2) = group_path @ [''namespaces'', ns, ''maintenancejobs''] @ op_path mj_Name op2)"
proof -
  note m = maintenance_sent [of cd op1] and j = jobs_sent [OF assms(1), of cd op2]
  have n: "op_name nm op = Some n \<Longrightarrow> op_ok cd nm enc op \<Longrightarrow> n \<noteq> []" for nm enc n and op :: "'o client_op"
    by (simp add: op_ok_def)
  have p: "op_path nm op = (let n = (case op_name nm op of None \<Rightarrow> [] | Some n \<Rightarrow> n)
      in if n = [] then [] else [n]) @ path_join (op_subresource op)"
    if "op_ok cd nm enc op" for nm enc and op :: "'o client_op"
    using that n [of nm op] by (auto simp: op_path_def path_join_def Let_def split: option.split)
  have 1: "request_error (maintenance_request cd op1) = rq_err (maintenance_request cd op1)"
    using m by (cases "rq_err (maintenance_request cd op1)") (auto simp: request_error_def requestPreflightCheck_def)
  have 2: "request_error (jobs_request cd ns op2) = rq_err (jobs_request cd ns op2)"
    using j assms(2) by (cases "rq_err (jobs_request cd ns op2)")
      (auto simp: request_error_def requestPreflightCheck_def sent_def)
  show ?thesis
    unfolding 1 2 using m j assms(2) p [of mt_Name "cd_mt cd" op1] p [of mj_Name "cd_mj cd" op2]
    by (auto simp: sent_URL Let_def) (simp_all add: sent_def)
qed

definition sample_codec :: codec where
  "sample_codec = \<lparr>cd_params = \<lambda>_. Inr [], cd_mt = \<lambda>m. Inr (mt_Name m), cd_mj = \<lambda>j. Inr (mj_Name j), cd_delete = Inr\<rparr>"

theorem client_requests_witness:
  "URL (jobs_request sample_codec ''ns'' (OpUpdateStatus (zero_MaintenanceJob\<lparr>mj_Meta := zero_ObjectMeta\<lparr>om_Name := ''j''\<rparr>\<rparr>) []))
     = [''apis'', ''vihara.arhat.dev'', ''v1alpha1'', ''namespaces'', ''ns'', ''maintenancejobs'', ''j'', ''status''] \<and>
   request_error (maintenance_request sample_codec (OpGet [] [])) \<noteq> None"
proof -
  have ns: "IsValidPathSegmentName ''ns''" "''ns'' \<noteq> []" by (simp_all add: IsValidPathSegmentName_def)
  let ?op = "OpUpdateStatus (zero_MaintenanceJob\<lparr>mj_Meta := zero_ObjectMeta\<lparr>om_Name := ''j''\<rparr>\<rparr>) []"
  have ok: "op_ok sample_codec mj_Name (cd_mj sample_codec) ?op"
    by (simp add: op_ok_def sample_codec_def IsValidPathSegmentName_def)
  have not_ok: "\<not> op_ok sample_codec mt_Name (cd_mt sample_codec) (OpGet [] [])"
    by (simp add: op_ok_def)
  from client_requests [OF ns, of sample_codec "OpGet [] []" ?op] ok not_ok show ?thesis
    by (simp add: group_path_def op_path_def)
qed

fun rest_verb :: "string \<Rightarrow> string" where
  "rest_verb v = (if v \<in> {''get'', ''list'', ''watch''} then ''GET'' else if v = ''create'' then ''POST''
     else if v = ''update'' then ''PUT'' else if v = ''patch'' then ''PATCH'' else ''DELETE'')"

definition stands_for :: "('o \<Rightarrow> string) \<Rightarrow> 'o action \<Rightarrow> Request \<Rightarrow> bool" where
  "stands_for nm a r \<longleftrightarrow> rq_verb r = rest_verb (ac_Verb a) \<and> rq_resource r = ac_Resource a \<and>
     rq_namespace r = ac_Namespace a \<and> rq_subresource r = ac_Subresource a \<and>
     rq_resourceName r = (if ac_Verb a = ''update'' then nm (the (ac_Object a)) else ac_Name a)"

lemmas fake_maintenance_defs = FakeMaintenance_Get_def FakeMaintenance_List_action_def FakeMaintenance_Watch_def
  FakeMaintenance_Create_def FakeMaintenance_Update_def FakeMaintenance_UpdateStatus_def FakeMaintenance_Delete_def
  FakeMaintenance_DeleteCollection_def FakeMaintenance_Patch_def

lemmas fake_jobs_defs = FakeMaintenanceJobs_Get_def FakeMaintenanceJobs_List_action_def FakeMaintenanceJobs_Watch_def
  FakeMaintenanceJobs_Create_def FakeMaintenanceJobs_Update_def FakeMaintenanceJobs_UpdateStatus_def
  FakeMaintenanceJobs_Delete_def FakeMaintenanceJobs_DeleteCollection_def FakeMaintenanceJobs_Patch_def

lemma status_path [simp]: "path_join [''status''] = [''status'']" "path_join [] = []"
  by (simp_all add: path_join_def)

lemma fake_stands_for:
  "sent r (op_verb op) [] ''maintenance'' (case op_name mt_Name op of None \<Rightarrow> [] | Some n \<Rightarrow> n) (op_subresource op) \<Longrightarrow>
   stands_for mt_Name (maintenance_action op) r"
  by (cases op) (simp_all add: sent_def stands_for_def fake_maintenance_defs new_action_def)

lemma fake_jobs_stands_for:
  "sent r (op_verb op) ns ''maintenancejobs'' (case op_name mj_Name op of None \<Rightarrow> [] | Some n \<Rightarrow> n) (op_subresource op) \<Longrightarrow>
   stands_for mj_Name (jobs_action ns op) r"
  by (cases op) (simp_all add: sent_def stands_for_def fake_jobs_defs new_action_def)

text \<open>A fake answers the operation that the client sends: the verb of its action stands for the verb
  of the request, and resource, namespace, subresource and name (that of the object for an update) are
  those of the request, whenever the client sends one.\<close>

lemma fakes_stand_for_clients:
  assumes "IsValidPathSegmentName ns"
  shows "(rq_err (maintenance_request cd op1) = None \<longrightarrow>
      stands_for mt_Name (maintenance_action op1) (maintenance_request cd op1)) \<and>
    (rq_err (jobs_request cd ns op2) = None \<longrightarrow> stands_for mj_Name (jobs_action ns op2) (jobs_request cd ns op2))"
  using maintenance_sent [of cd op1] jobs_sent [OF assms, of cd op2] fake_stands_for fake_jobs_stands_for by blast

lemma fakes_stand_for_clients_witness:
  "stands_for mt_Name (FakeMaintenance_Delete ''m'') (maintenance_Delete sample_codec ''m'' [])"
proof -
  have "IsValidPathSegmentName ''ns''" by (simp add: IsValidPathSegmentName_def)
  moreover have "rq_err (maintenance_Delete sample_codec ''m'' []) = None" by code_simp
  ultimately show ?thesis using fakes_stand_for_clients [of "''ns''" sample_codec "OpDelete ''m'' []"] by simp
qed

end
