(* ===== verification/Informers.thy ===== *)
theory Informers
  imports Clients
begin

text \<open>
  The generated informers and listers (\<open>generated/informers/externalversions\<close>, \<open>generated/listers\<close>):
  the factory that makes one shared informer for each type and runs it once, what the informers list and
  watch, and the listers over their stores. The informer itself (\<open>cache.NewSharedIndexInformer\<close>) is the
  library's: here it is its address, what it was made of, and that it was set running. The address is
  what tells an informer from another made of the same things: a factory numbers those it makes.
\<close>

section \<open>The informers\<close>

datatype resource_type = MaintenanceType | MaintenanceJobType

type_synonym tweak = "(ListOptions \<Rightarrow> ListOptions) option"

record informer =
  in_addr :: nat
  in_type :: resource_type
  in_resync :: duration
  in_ListFunc :: "ListOptions \<Rightarrow> Request"
  in_WatchFunc :: "ListOptions \<Rightarrow> Request"

definition tweaked :: "tweak \<Rightarrow> ListOptions \<Rightarrow> ListOptions" where
  "tweaked tweakListOptions options = (case tweakListOptions of None \<Rightarrow> options | Some f \<Rightarrow> f options)"

text \<open>\<open>addr\<close> is the address at which the new informer is allocated.\<close>

definition NewFilteredMaintenanceInformer :: "nat \<Rightarrow> codec \<Rightarrow> duration \<Rightarrow> tweak \<Rightarrow> informer" where
  "NewFilteredMaintenanceInformer addr cd resyncPeriod tweakListOptions = \<lparr>
     in_addr = addr, in_type = MaintenanceType, in_resync = resyncPeriod,
     in_ListFunc = \<lambda>options. maintenance_List cd (tweaked tweakListOptions options),
     in_WatchFunc = \<lambda>options. maintenance_Watch cd (tweaked tweakListOptions options)\<rparr>"

definition NewFilteredMaintenanceJobInformer :: "nat \<Rightarrow> codec \<Rightarrow> string \<Rightarrow> duration \<Rightarrow> tweak \<Rightarrow> informer" where
  "NewFilteredMaintenanceJobInformer addr cd namespace resyncPeriod tweakListOptions = \<lparr>
     in_addr = addr, in_type = MaintenanceJobType, in_resync = resyncPeriod,
     in_ListFunc = \<lambda>options. maintenanceJobs_List cd namespace (tweaked tweakListOptions options),
     in_WatchFunc = \<lambda>options. maintenanceJobs_Watch cd namespace (tweaked tweakListOptions options)\<rparr>"

section \<open>The factory\<close>

text \<open>\<open>fc_running\<close> are the informers for which \<open>Start\<close> has begun a goroutine, each as often as it has;
  \<open>fc_made\<close> is the number of informers that have been made for the factory, and the address of the next one.\<close>

record factory =
  fc_client :: codec
  fc_namespace :: string
  fc_tweak :: tweak
  fc_defaultResync :: duration
  fc_customResync :: "(resource_type \<times> duration) list"
  fc_informers :: "(resource_type \<times> informer) list"
  fc_startedInformers :: "resource_type list"
  fc_running :: "informer list"
  fc_made :: nat

type_synonym factory_option = "factory \<Rightarrow> factory"

definition WithCustomResyncConfig :: "(resource_type \<times> duration) list \<Rightarrow> factory_option" where
  "WithCustomResyncConfig resyncConfig f =
     f\<lparr>fc_customResync := fold (\<lambda>(k, v) m. AList.update k v m) resyncConfig (fc_customResync f)\<rparr>"

definition WithTweakListOptions :: "tweak \<Rightarrow> factory_option" where
  "WithTweakListOptions t f = f\<lparr>fc_tweak := t\<rparr>"

definition WithNamespace :: "string \<Rightarrow> factory_option" where
  "WithNamespace namespace f = f\<lparr>fc_namespace := namespace\<rparr>"

definition NewSharedInformerFactoryWithOptions :: "codec \<Rightarrow> duration \<Rightarrow> factory_option list \<Rightarrow> factory" where
  "NewSharedInformerFactoryWithOptions client defaultResync options =
     fold (\<lambda>opt f. opt f) options
       \<lparr>fc_client = client, fc_namespace = [], fc_tweak = None, fc_defaultResync = defaultResync,
        fc_customResync = [], fc_informers = [], fc_startedInformers = [], fc_running = [], fc_made = 0\<rparr>"

text \<open>\<open>defaultInformer\<close> of the type, with namespace and filter of the factory.\<close>

definition defaultInformer :: "nat \<Rightarrow> resource_type \<Rightarrow> factory \<Rightarrow> duration \<Rightarrow> informer" where
  "defaultInformer addr t f resyncPeriod =
     (case t of
        MaintenanceType \<Rightarrow> NewFilteredMaintenanceInformer addr (fc_client f) resyncPeriod (fc_tweak f)
      | MaintenanceJobType \<Rightarrow>
          NewFilteredMaintenanceJobInformer addr (fc_client f) (fc_namespace f) resyncPeriod (fc_tweak f))"

definition InformerFor :: "resource_type \<Rightarrow> factory \<Rightarrow> informer \<times> factory" where
  "InformerFor t f =
     (case map_of (fc_informers f) t of
        Some informer \<Rightarrow> (informer, f)
      | None \<Rightarrow>
          (let resyncPeriod = (case map_of (fc_customResync f) t of Some d \<Rightarrow> d | None \<Rightarrow> fc_defaultResync f);
               informer = defaultInformer (fc_made f) t f resyncPeriod
           in (informer, f\<lparr>fc_informers := AList.update t informer (fc_informers f), fc_made := Suc (fc_made f)\<rparr>)))"

definition start_one :: "resource_type \<times> informer \<Rightarrow> factory \<Rightarrow> factory" where
  "start_one e f = (case e of (t, informer) \<Rightarrow>
     if t \<notin> set (fc_startedInformers f)
     then f\<lparr>fc_running := informer # fc_running f, fc_startedInformers := List.insert t (fc_startedInformers f)\<rparr>
     else f)"

definition factory_Start :: "factory \<Rightarrow> factory" where
  "factory_Start f = fold start_one (fc_informers f) f"

text \<open>For each started informer, whether its cache has synced.\<close>

definition factory_WaitForCacheSync :: "(informer \<Rightarrow> bool) \<Rightarrow> factory \<Rightarrow> (resource_type \<times> bool) list" where
  "factory_WaitForCacheSync synced f =
     map (\<lambda>(t, i). (t, synced i)) (filter (\<lambda>(t, i). t \<in> set (fc_startedInformers f)) (fc_informers f))"

text \<open>Access by resource: an informer with the group and the name of its resource, of which the generic lister
  of the library is made.\<close>

record genericInformer =
  gi_informer :: informer
  gi_resource :: "string \<times> string"

record 'o genericLister =
  gl_indexer :: "(string \<times> 'o) list"
  gl_resource :: "string \<times> string"

definition genericInformer_Informer :: "genericInformer \<Rightarrow> informer" where
  "genericInformer_Informer g = gi_informer g"

definition genericInformer_Lister :: "(informer \<Rightarrow> (string \<times> 'o) list) \<Rightarrow> genericInformer \<Rightarrow> 'o genericLister" where
  "genericInformer_Lister getIndexer g = \<lparr>gl_indexer = getIndexer (genericInformer_Informer g), gl_resource = gi_resource g\<rparr>"

definition ForResource :: "string \<times> string \<Rightarrow> factory \<Rightarrow> go_error + (genericInformer \<times> factory)" where
  "ForResource resource f =
     (if resource = (SchemeGroupVersion, ''maintenance'')
      then (let (i, f1) = InformerFor MaintenanceType f
            in Inr (\<lparr>gi_informer = i, gi_resource = (''vihara.arhat.dev'', ''maintenance'')\<rparr>, f1))
      else if resource = (SchemeGroupVersion, ''maintenancejobs'')
      then (let (i, f1) = InformerFor MaintenanceJobType f
            in Inr (\<lparr>gi_informer = i, gi_resource = (''vihara.arhat.dev'', ''maintenancejobs'')\<rparr>, f1))
      else Inl (ErrorString ''no informer found''))"

section \<open>Listers\<close>

record 'o lister =
  li_indexer :: "(string \<times> 'o) list"

record 'o namespaceLister =
  nl_indexer :: "(string \<times> 'o) list"
  nl_namespace :: string

definition NewMaintenanceLister :: "(string \<times> Maintenance) list \<Rightarrow> Maintenance lister" where
  "NewMaintenanceLister indexer = \<lparr>li_indexer = indexer\<rparr>"

definition NewMaintenanceJobLister :: "(string \<times> MaintenanceJob) list \<Rightarrow> MaintenanceJob lister" where
  "NewMaintenanceJobLister indexer = \<lparr>li_indexer = indexer\<rparr>"

definition maintenanceJobLister_MaintenanceJobs :: "MaintenanceJob lister \<Rightarrow> string \<Rightarrow> MaintenanceJob namespaceLister" where
  "maintenanceJobLister_MaintenanceJobs s namespace = \<lparr>nl_indexer = li_indexer s, nl_namespace = namespace\<rparr>"

text \<open>An indexer holds the objects by key; a selector is a test of labels. \<open>ListAllByNamespace\<close> with the
  empty namespace lists all.\<close>

definition ListAll :: "('o \<Rightarrow> ObjectMeta) \<Rightarrow> (string \<times> 'o) list \<Rightarrow> ((string \<times> string) list \<Rightarrow> bool) \<Rightarrow> 'o list" where
  "ListAll meta indexer selector = filter (\<lambda>m. selector (om_Labels (meta m))) (map snd indexer)"

definition ListAllByNamespace ::
  "('o \<Rightarrow> ObjectMeta) \<Rightarrow> (string \<times> 'o) list \<Rightarrow> string \<Rightarrow> ((string \<times> string) list \<Rightarrow> bool) \<Rightarrow> 'o list" where
  "ListAllByNamespace meta indexer namespace selector =
     (if namespace = [] then ListAll meta indexer selector
      else filter (\<lambda>m. selector (om_Labels (meta m))) (filter (\<lambda>m. om_Namespace (meta m) = namespace) (map snd indexer)))"

definition maintenanceLister_List :: "Maintenance lister \<Rightarrow> ((string \<times> string) list \<Rightarrow> bool) \<Rightarrow> Maintenance list" where
  "maintenanceLister_List s selector = ListAll mt_Meta (li_indexer s) selector"

definition maintenanceLister_Get :: "Maintenance lister \<Rightarrow> string \<Rightarrow> go_error + Maintenance" where
  "maintenanceLister_Get s name =
     (case map_of (li_indexer s) name of
        None \<Rightarrow> Inl (StatusError StatusReasonNotFound (''maintenance.vihara.arhat.dev '' @ name @ '' not found''))
      | Some obj \<Rightarrow> Inr obj)"

definition maintenanceJobLister_List :: "MaintenanceJob lister \<Rightarrow> ((string \<times> string) list \<Rightarrow> bool) \<Rightarrow> MaintenanceJob list" where
  "maintenanceJobLister_List s selector = ListAll mj_Meta (li_indexer s) selector"

definition maintenanceJobNamespaceLister_List ::
  "MaintenanceJob namespaceLister \<Rightarrow> ((string \<times> string) list \<Rightarrow> bool) \<Rightarrow> MaintenanceJob list" where
  "maintenanceJobNamespaceLister_List s selector = ListAllByNamespace mj_Meta (nl_indexer s) (nl_namespace s) selector"

definition maintenanceJobNamespaceLister_Get :: "MaintenanceJob namespaceLister \<Rightarrow> string \<Rightarrow> go_error + MaintenanceJob" where
  "maintenanceJobNamespaceLister_Get s name =
     (case map_of (nl_indexer s) (nl_namespace s @ ''/'' @ name) of
        None \<Rightarrow> Inl (StatusError StatusReasonNotFound (''maintenancejob.vihara.arhat.dev '' @ name @ '' not found''))
      | Some obj \<Rightarrow> Inr obj)"

section \<open>Lemmas\<close>

datatype factory_op = AskFor resource_type | DoStart

fun factory_run :: "factory_op list \<Rightarrow> factory \<Rightarrow> factory" where
  "factory_run [] f = f"
| "factory_run (AskFor t # ops) f = factory_run ops (snd (InformerFor t f))"
| "factory_run (DoStart # ops) f = factory_run ops (factory_Start f)"

text \<open>What has been started is running, once, and is the informer that is handed out; every informer that has
  been made is kept.\<close>

definition factory_ok :: "factory \<Rightarrow> bool" where
  "factory_ok f \<longleftrightarrow> (\<forall>t i. map_of (fc_informers f) t = Some i \<longrightarrow> in_type i = t) \<and>
     distinct (map fst (fc_informers f)) \<and>
     (\<forall>t. filter (\<lambda>i. in_type i = t) (fc_running f) =
        (if t \<in> set (fc_startedInformers f) then [the (map_of (fc_informers f) t)] else [])) \<and>
     set (fc_startedInformers f) \<subseteq> fst ` set (fc_informers f) \<and> map (\<lambda>e. in_addr (snd e)) (fc_informers f) = [0..<fc_made f]"

lemma in_type_default [simp]: "in_type (defaultInformer a t f d) = t" "in_addr (defaultInformer a t f d) = a"
  by (simp_all add: defaultInformer_def NewFilteredMaintenanceInformer_def NewFilteredMaintenanceJobInformer_def
      split: resource_type.split)

lemma update_new: "map_of xs t = None \<Longrightarrow> AList.update t i xs = xs @ [(t, i)]"
  by (induction xs) (auto split: if_splits)

lemma factory_addresses:
  assumes "factory_ok f"
  shows "(t, i) \<in> set (fc_informers f) \<Longrightarrow> in_addr i < fc_made f"
    and "fc_made f = card (fst ` set (fc_informers f))" and "inj_on (in_addr \<circ> snd) (set (fc_informers f))"
proof -
  let ?a = "\<lambda>e :: resource_type \<times> informer. in_addr (snd e)"
  have m: "map ?a (fc_informers f) = [0..<fc_made f]" and d: "distinct (map fst (fc_informers f))"
    using assms by (simp_all add: factory_ok_def)
  have "?a ` set (fc_informers f) = {0..<fc_made f}" by (metis m set_map set_upt)
  then show "(t, i) \<in> set (fc_informers f) \<Longrightarrow> in_addr i < fc_made f" by force
  have "length (fc_informers f) = fc_made f" by (metis m length_map length_upt minus_nat.diff_0)
  then show "fc_made f = card (fst ` set (fc_informers f))" using distinct_card [OF d] by simp
  have "distinct (map ?a (fc_informers f))" unfolding m by simp
  then show "inj_on (in_addr \<circ> snd) (set (fc_informers f))" by (simp add: distinct_map comp_def)
qed

lemma InformerFor_known: "map_of (fc_informers f) t = Some i \<Longrightarrow> InformerFor t f = (i, f)"
  by (simp add: InformerFor_def)

lemma InformerFor_then: "map_of (fc_informers (snd (InformerFor t f))) t = Some (fst (InformerFor t f))"
  by (auto simp: InformerFor_def Let_def update_conv' split: option.split)

lemma InformerFor_keeps:
  "map_of (fc_informers f) t = Some i \<Longrightarrow> map_of (fc_informers (snd (InformerFor s f))) t = Some i"
  by (auto simp: InformerFor_def Let_def update_conv' split: option.split)

lemma InformerFor_new:
  assumes "map_of (fc_informers f) t = None"
  obtains i where "in_type i = t" "in_addr i = fc_made f"
    "snd (InformerFor t f) = f\<lparr>fc_informers := fc_informers f @ [(t, i)], fc_made := Suc (fc_made f)\<rparr>"
proof (rule that)
  let ?d = "case map_of (fc_customResync f) t of Some d \<Rightarrow> d | None \<Rightarrow> fc_defaultResync f"
  show "in_type (defaultInformer (fc_made f) t f ?d) = t" "in_addr (defaultInformer (fc_made f) t f ?d) = fc_made f"
    by simp_all
  show "snd (InformerFor t f) = f\<lparr>fc_informers := fc_informers f @ [(t, defaultInformer (fc_made f) t f ?d)],
      fc_made := Suc (fc_made f)\<rparr>"
    using assms by (simp add: InformerFor_def Let_def update_new)
qed

lemma InformerFor_ok: "factory_ok f \<Longrightarrow> factory_ok (snd (InformerFor t f))"
proof (cases "map_of (fc_informers f) t")
  case None
  assume f: "factory_ok f"
  from None obtain i where i: "in_type i = t" "in_addr i = fc_made f"
    "snd (InformerFor t f) = f\<lparr>fc_informers := fc_informers f @ [(t, i)], fc_made := Suc (fc_made f)\<rparr>"
    by (rule InformerFor_new)
  have n: "t \<notin> fst ` set (fc_informers f)" using None by (simp add: map_of_eq_None_iff)
  then have s: "t \<notin> set (fc_startedInformers f)" using f by (auto simp: factory_ok_def)
  show ?thesis
    unfolding i(3) using f n s None i(1,2)
    by (auto simp: factory_ok_def map_add_def split: option.splits if_splits)
qed (simp add: InformerFor_known)

lemma start_one_frame [simp]: "fc_informers (start_one e f) = fc_informers f" "fc_made (start_one e f) = fc_made f"
  by (simp_all add: start_one_def split: prod.split)

lemma start_one_ok:
  "factory_ok f \<Longrightarrow> e \<in> set (fc_informers f) \<Longrightarrow> factory_ok (start_one e f) \<and> fst e \<in> set (fc_startedInformers (start_one e f))"
proof (cases e)
  case (Pair t i)
  assume f: "factory_ok f" and e: "e \<in> set (fc_informers f)"
  then have m: "map_of (fc_informers f) t = Some i" "in_type i = t"
    using Pair by (auto simp: factory_ok_def map_of_is_SomeI)
  show ?thesis
  proof (cases "t \<in> set (fc_startedInformers f)")
    case False
    have r: "filter (\<lambda>i. in_type i = s) (fc_running (start_one e f)) =
        (if s \<in> set (fc_startedInformers (start_one e f)) then [the (map_of (fc_informers f) s)] else [])" for s
      using f False m by (auto simp: start_one_def Pair factory_ok_def)
    have "set (fc_startedInformers (start_one e f)) = insert t (set (fc_startedInformers f))"
      by (auto simp: start_one_def Pair)
    moreover have "t \<in> fst ` set (fc_informers f)" using e Pair by force
    ultimately have "factory_ok (start_one e f)"
      using f unfolding factory_ok_def start_one_frame r by blast
    then show ?thesis using Pair by (simp add: start_one_def)
  qed (use f Pair in \<open>simp add: start_one_def\<close>)
qed

lemma start_fold:
  "set es \<subseteq> set (fc_informers f) \<Longrightarrow> factory_ok f \<Longrightarrow>
   factory_ok (fold start_one es f) \<and> fc_informers (fold start_one es f) = fc_informers f \<and>
   set (fc_startedInformers (fold start_one es f)) = fst ` set es \<union> set (fc_startedInformers f)"
proof (induction es arbitrary: f)
  case (Cons e es)
  have "set (fc_startedInformers (start_one e f)) = insert (fst e) (set (fc_startedInformers f))"
    by (auto simp: start_one_def split: prod.split)
  then show ?case using Cons start_one_ok [of f e] by auto
qed simp

lemma Start_ok:
  assumes "factory_ok f"
  shows "factory_ok (factory_Start f)" and "fc_informers (factory_Start f) = fc_informers f"
    and "set (fc_startedInformers (factory_Start f)) = fst ` set (fc_informers f)"
proof -
  have "set (fc_startedInformers f) \<subseteq> fst ` set (fc_informers f)" using assms by (simp add: factory_ok_def)
  then show "factory_ok (factory_Start f)" "fc_informers (factory_Start f) = fc_informers f"
    "set (fc_startedInformers (factory_Start f)) = fst ` set (fc_informers f)"
    using start_fold [OF subset_refl assms] by (simp_all add: factory_Start_def Un_absorb2)
qed

lemma factory_run_ok:
  "factory_ok f \<Longrightarrow> factory_ok (factory_run ops f) \<and>
     (\<forall>t i. map_of (fc_informers f) t = Some i \<longrightarrow> map_of (fc_informers (factory_run ops f)) t = Some i)"
proof (induction ops f rule: factory_run.induct)
  case (2 t ops f)
  then show ?case using InformerFor_ok InformerFor_keeps by fastforce
next
  case (3 ops f)
  then show ?case using Start_ok by fastforce
qed simp

lemma new_factory_ok:
  "\<forall>opt \<in> set options. opt \<in> range WithNamespace \<union> range WithTweakListOptions \<union> range WithCustomResyncConfig \<Longrightarrow>
   factory_ok (NewSharedInformerFactoryWithOptions client d options)"
proof -
  have o: "factory_ok (opt f) \<and> fc_informers (opt f) = [] \<and> fc_startedInformers (opt f) = [] \<and> fc_running (opt f) = [] \<and> fc_made (opt f) = 0"
    if "opt \<in> range WithNamespace \<union> range WithTweakListOptions \<union> range WithCustomResyncConfig"
      "fc_informers f = [] \<and> fc_startedInformers f = [] \<and> fc_running f = [] \<and> fc_made f = 0" for opt :: factory_option and f
    using that by (auto simp: WithNamespace_def WithTweakListOptions_def WithCustomResyncConfig_def factory_ok_def)
  have "factory_ok (fold (\<lambda>opt f. opt f) options f)"
    if "\<forall>opt \<in> set options. opt \<in> range WithNamespace \<union> range WithTweakListOptions \<union> range WithCustomResyncConfig"
      "fc_informers f = [] \<and> fc_startedInformers f = [] \<and> fc_running f = [] \<and> fc_made f = 0" for f
    using that
  proof (induction options arbitrary: f)
    case Nil
    then show ?case by (simp add: factory_ok_def)
  next
    case (Cons opt options)
    then show ?case using o [of opt f] by simp
  qed
  then show "\<forall>opt \<in> set options. opt \<in> range WithNamespace \<union> range WithTweakListOptions \<union> range WithCustomResyncConfig \<Longrightarrow>
      factory_ok (NewSharedInformerFactoryWithOptions client d options)"
    by (simp add: NewSharedInformerFactoryWithOptions_def)
qed

section \<open>Properties\<close>

text \<open>C31: A factory made with any of the options hands out one informer for each type and runs it once: the
  informer one asks for is the one (at the same address) that was handed out before, when one was, and that everybody
  gets later; after the next \<open>Start\<close>, in whatever order informers are asked for and the factory is started again,
  exactly one goroutine runs for its type, and it runs that informer. No informer is made in vain: there are as many as
  types that were asked for.\<close>

theorem informers_shared_and_run_once:
  assumes "\<forall>opt \<in> set options. opt \<in> range WithNamespace \<union> range WithTweakListOptions \<union> range WithCustomResyncConfig"
    and "f = factory_run ops (NewSharedInformerFactoryWithOptions client d options)"
    and "InformerFor t f = (i, f1)" and "f2 = factory_Start (factory_run ops' f1)"
  shows "let g = factory_run ops'' f2 in
    filter (\<lambda>j. in_type j = t) (fc_running g) = [i] \<and> in_addr (fst (InformerFor t g)) = in_addr i \<and>
    InformerFor t g = (i, g) \<and> in_addr i < fc_made g \<and> fc_made g = card (fst ` set (fc_informers g)) \<and>
    inj_on (in_addr \<circ> snd) (set (fc_informers g))"
proof -
  have f: "factory_ok f" using factory_run_ok [OF new_factory_ok [OF assms(1)]] assms(2) by simp
  have f1: "factory_ok f1" "map_of (fc_informers f1) t = Some i"
    using InformerFor_ok [OF f, of t] InformerFor_then [of t f] assms(3) by auto
  note r = factory_run_ok [OF f1(1), of ops']
  have f2: "factory_ok f2" "map_of (fc_informers f2) t = Some i" "t \<in> set (fc_startedInformers f2)"
    using Start_ok [of "factory_run ops' f1"] r f1(2) assms(4) weak_map_of_SomeI map_of_SomeD
    by (simp, simp, metis image_eqI fst_conv)
  have s: "set (fc_startedInformers g) \<subseteq> set (fc_startedInformers (factory_run ops g))" if "factory_ok g" for ops g
    using that
  proof (induction ops g rule: factory_run.induct)
    case (2 s ops g)
    have "fc_startedInformers (snd (InformerFor s g)) = fc_startedInformers g"
      by (simp add: InformerFor_def Let_def split: option.split)
    then show ?case using 2 InformerFor_ok by auto
  next
    case (3 ops g)
    have "set (fc_startedInformers g) \<subseteq> set (fc_startedInformers (factory_Start g))"
      using start_fold [of "fc_informers g" g] 3(2) by (simp add: factory_Start_def)
    then show ?case using 3 Start_ok by fastforce
  qed simp
  have g: "factory_ok (factory_run ops'' f2)" "map_of (fc_informers (factory_run ops'' f2)) t = Some i"
    "t \<in> set (fc_startedInformers (factory_run ops'' f2))"
    using factory_run_ok [OF f2(1), of ops''] f2 s [OF f2(1), of ops''] by auto
  have m: "(t, i) \<in> set (fc_informers (factory_run ops'' f2))" using g(2) by (rule map_of_SomeD)
  have a: "in_addr i < fc_made (factory_run ops'' f2) \<and> fc_made (factory_run ops'' f2) = card (fst ` set (fc_informers (factory_run ops'' f2))) \<and>
      inj_on (in_addr \<circ> snd) (set (fc_informers (factory_run ops'' f2)))"
    using factory_addresses [OF g(1)] m by auto
  then show ?thesis using g by (simp add: factory_ok_def InformerFor_known Let_def)
qed

theorem informers_shared_and_run_once_witness:
  "\<exists>i. filter (\<lambda>j. in_type j = MaintenanceJobType) (fc_running (factory_run [DoStart, AskFor MaintenanceJobType, DoStart]
     (factory_Start (snd (InformerFor MaintenanceJobType (NewSharedInformerFactoryWithOptions sample_codec 0 [WithNamespace ''ns'']))))))
     = [i] \<and> in_addr i = 0 \<and> in_ListFunc i = maintenanceJobs_List sample_codec ''ns''"
proof -
  let ?f = "NewSharedInformerFactoryWithOptions sample_codec 0 [WithNamespace ''ns'']"
  obtain i f1 where i: "InformerFor MaintenanceJobType ?f = (i, f1)" by force
  then have "in_ListFunc i = maintenanceJobs_List sample_codec ''ns'' \<and> in_addr i = 0"
    by (auto simp: NewSharedInformerFactoryWithOptions_def InformerFor_def Let_def WithNamespace_def defaultInformer_def
        NewFilteredMaintenanceJobInformer_def tweaked_def)
  moreover have "filter (\<lambda>j. in_type j = MaintenanceJobType)
      (fc_running (factory_run [DoStart, AskFor MaintenanceJobType, DoStart] (factory_Start f1))) = [i]"
    using informers_shared_and_run_once [of "[WithNamespace ''ns'']" ?f "[]" sample_codec 0, OF _ _ i,
        of "factory_Start f1" "[]" "[DoStart, AskFor MaintenanceJobType, DoStart]"] by (simp add: Let_def)
  ultimately show ?thesis using i by auto
qed

text \<open>A lister finds what the controller's look-ups in the caches find.\<close>

lemma lister_finds_cached:
  "(\<exists>e. maintenanceLister_Get (NewMaintenanceLister (wd_Mt w)) n = Inl e) \<longleftrightarrow> (\<exists>e. getMaintenanceFromCache n w = Inl e)"
  "(\<exists>e. maintenanceJobNamespaceLister_Get (maintenanceJobLister_MaintenanceJobs (NewMaintenanceJobLister (wd_Mj w)) ns) n = Inl e) \<longleftrightarrow>
     (\<exists>e. getMaintenanceJobFromCache ns n w = Inl e)"
  by (simp_all add: maintenanceLister_Get_def getMaintenanceFromCache_def maintenanceJobNamespaceLister_Get_def
      getMaintenanceJobFromCache_def mj_key_def NewMaintenanceLister_def NewMaintenanceJobLister_def
      maintenanceJobLister_MaintenanceJobs_def split: option.split)

end
