(* ===== verification/Clientset.thy ===== *)
theory Clientset
  imports Complex_Main Clients
begin

text \<open>
  The clientset (\<open>generated/clientset/versioned/clientset.go\<close>), the client of the API group
  (\<open>typed/vihara/v1alpha1/vihara_client.go\<close>), and the registration of the types with a scheme
  (\<open>apis\<close>, \<open>v1alpha1/register.go\<close>). Of a REST configuration the model still_knows what the code looks at. Rate limiters
  have an identity, since clients may share one. Whether the URL and the transport of a
  configuration can be made is a parameter.
\<close>

section \<open>REST clients\<close>

record rate_limiter =
  rl_id :: nat
  rl_qps :: rat
  rl_burst :: int

record rest_Config =
  rc_RateLimiter :: "rate_limiter option"
  rc_QPS :: rat
  rc_Burst :: int
  rc_Timeout :: duration
  rc_GroupVersion :: "string option"
  rc_APIPath :: string
  rc_NegotiatedSerializer :: "string option"
  rc_UserAgent :: string

record RESTClient =
  rt_GroupVersion :: string
  rt_APIPath :: string
  rt_UserAgent :: string
  rt_rateLimiter :: "rate_limiter option"

text \<open>\<open>n\<close> counts the rate limiters made so far.\<close>

definition client_limiter :: "rest_Config \<Rightarrow> nat \<Rightarrow> rate_limiter option \<times> nat" where
  "client_limiter config n =
     (case rc_RateLimiter config of
        Some l \<Rightarrow> (Some l, n)
      | None \<Rightarrow>
          (let qps = (if rc_QPS config = 0 then 5 else rc_QPS config);
               burst = (if rc_Burst config = 0 then 10 else rc_Burst config)
           in if qps > 0 then (Some \<lparr>rl_id = n, rl_qps = qps, rl_burst = burst\<rparr>, n + 1) else (None, n)))"

definition UnversionedRESTClientFor ::
  "(rest_Config \<Rightarrow> go_error option) \<Rightarrow> rest_Config \<Rightarrow> nat \<Rightarrow> (go_error + RESTClient) \<times> nat" where
  "UnversionedRESTClientFor transport config n =
     (if rc_NegotiatedSerializer config = None
      then (Inl (ErrorString ''NegotiatedSerializer is required when initializing a RESTClient''), n)
      else (case transport config of
              Some e \<Rightarrow> (Inl e, n)
            | None \<Rightarrow>
                (let (limiter, n1) = client_limiter config n;
                     gv = (case rc_GroupVersion config of None \<Rightarrow> ''meta.k8s.io/v1'' | Some gv \<Rightarrow> gv)
                 in (Inr \<lparr>rt_GroupVersion = gv, rt_APIPath = rc_APIPath config,
                       rt_UserAgent = rc_UserAgent config, rt_rateLimiter = limiter\<rparr>, n1))))"

definition RESTClientFor ::
  "(rest_Config \<Rightarrow> go_error option) \<Rightarrow> rest_Config \<Rightarrow> nat \<Rightarrow> (go_error + RESTClient) \<times> nat" where
  "RESTClientFor transport config n =
     (if rc_GroupVersion config = None
      then (Inl (ErrorString ''GroupVersion is required when initializing a RESTClient''), n)
      else UnversionedRESTClientFor transport config n)"

section \<open>The client of the group\<close>

text \<open>\<open>userAgent\<close> is \<open>rest.DefaultKubernetesUserAgent()\<close>.\<close>

definition setConfigDefaults :: "string \<Rightarrow> rest_Config \<Rightarrow> rest_Config" where
  "setConfigDefaults userAgent config =
     (let c = config\<lparr>rc_GroupVersion := Some SchemeGroupVersion, rc_APIPath := ''/apis'',
          rc_NegotiatedSerializer := Some ''scheme.Codecs''\<rparr>
      in if rc_UserAgent c = [] then c\<lparr>rc_UserAgent := userAgent\<rparr> else c)"

definition client_NewForConfig ::
  "(rest_Config \<Rightarrow> go_error option) \<Rightarrow> string \<Rightarrow> rest_Config \<Rightarrow> nat \<Rightarrow> (go_error + RESTClient) \<times> nat" where
  "client_NewForConfig transport userAgent c n = RESTClientFor transport (setConfigDefaults userAgent c) n"

text \<open>The variant that panics with the error, and the one that is given a REST client.\<close>

definition client_NewForConfigOrDie ::
  "(rest_Config \<Rightarrow> go_error option) \<Rightarrow> string \<Rightarrow> rest_Config \<Rightarrow> nat \<Rightarrow> (go_error + RESTClient) \<times> nat" where
  "client_NewForConfigOrDie transport userAgent c n = client_NewForConfig transport userAgent c n"

definition client_New :: "RESTClient \<Rightarrow> RESTClient" where
  "client_New c = c"

text \<open>The clients a client of the group makes, for the requests of \<open>Clients\<close>.\<close>

definition client_Maintenance :: "codec \<Rightarrow> Maintenance client_op \<Rightarrow> Request" where
  "client_Maintenance cd = maintenance_request cd"

definition client_MaintenanceJobs :: "codec \<Rightarrow> string \<Rightarrow> MaintenanceJob client_op \<Rightarrow> Request" where
  "client_MaintenanceJobs cd namespace = jobs_request cd namespace"

section \<open>The clientset\<close>

text \<open>\<open>setDiscoveryDefaults\<close> of the library.\<close>

definition setDiscoveryDefaults :: "string \<Rightarrow> rest_Config \<Rightarrow> rest_Config" where
  "setDiscoveryDefaults userAgent config =
     (let c1 = config\<lparr>rc_APIPath := [], rc_GroupVersion := None\<rparr>;
          c2 = (if rc_Timeout c1 = 0 then c1\<lparr>rc_Timeout := 32000000000\<rparr> else c1);
          c3 = (if rc_Burst c2 = 0 \<and> rc_QPS c2 < 100 then c2\<lparr>rc_Burst := 100\<rparr> else c2);
          c4 = c3\<lparr>rc_NegotiatedSerializer := Some ''NoopEncoder''\<rparr>
      in if rc_UserAgent c4 = [] then c4\<lparr>rc_UserAgent := userAgent\<rparr> else c4)"

definition NewDiscoveryClientForConfig ::
  "(rest_Config \<Rightarrow> go_error option) \<Rightarrow> string \<Rightarrow> rest_Config \<Rightarrow> nat \<Rightarrow> (go_error + RESTClient) \<times> nat" where
  "NewDiscoveryClientForConfig transport userAgent c n =
     UnversionedRESTClientFor transport (setDiscoveryDefaults userAgent c) n"

record Clientset =
  cs_Discovery :: RESTClient
  cs_ViharaV1alpha1 :: RESTClient

definition both_clients ::
  "(rest_Config \<Rightarrow> go_error option) \<Rightarrow> string \<Rightarrow> rest_Config \<Rightarrow> nat \<Rightarrow> (go_error + Clientset) \<times> nat" where
  "both_clients transport userAgent c n =
     (case client_NewForConfig transport userAgent c n of
        (Inl e, n1) \<Rightarrow> (Inl e, n1)
      | (Inr v, n1) \<Rightarrow>
          (case NewDiscoveryClientForConfig transport userAgent c n1 of
             (Inl e, n2) \<Rightarrow> (Inl e, n2)
           | (Inr d, n2) \<Rightarrow> (Inr \<lparr>cs_Discovery = d, cs_ViharaV1alpha1 = v\<rparr>, n2)))"

definition burst_error :: go_error where
  "burst_error = ErrorString ''burst is required to be greater than 0 when RateLimiter is not set and QPS is set to greater than 0''"

definition NewForConfig ::
  "(rest_Config \<Rightarrow> go_error option) \<Rightarrow> string \<Rightarrow> rest_Config \<Rightarrow> nat \<Rightarrow> (go_error + Clientset) \<times> nat" where
  "NewForConfig transport userAgent c n =
     (if rc_RateLimiter c = None \<and> rc_QPS c > 0
      then if rc_Burst c \<le> 0 then (Inl burst_error, n)
           else both_clients transport userAgent
             (c\<lparr>rc_RateLimiter := Some \<lparr>rl_id = n, rl_qps = rc_QPS c, rl_burst = rc_Burst c\<rparr>\<rparr>) (n + 1)
      else both_clients transport userAgent c n)"

text \<open>\<open>NewForConfigOrDie\<close> calls those of the two clients; an error is the value of a panic.
  \<open>New\<close> makes both from one REST client.\<close>

definition NewForConfigOrDie ::
  "(rest_Config \<Rightarrow> go_error option) \<Rightarrow> string \<Rightarrow> rest_Config \<Rightarrow> nat \<Rightarrow> (go_error + Clientset) \<times> nat" where
  "NewForConfigOrDie transport userAgent c n =
     (case client_NewForConfigOrDie transport userAgent c n of
        (Inl e, n1) \<Rightarrow> (Inl e, n1)
      | (Inr v, n1) \<Rightarrow>
          (case NewDiscoveryClientForConfig transport userAgent c n1 of
             (Inl e, n2) \<Rightarrow> (Inl e, n2)
           | (Inr d, n2) \<Rightarrow> (Inr \<lparr>cs_Discovery = d, cs_ViharaV1alpha1 = v\<rparr>, n2)))"

definition clientset_New :: "RESTClient \<Rightarrow> Clientset" where
  "clientset_New c = \<lparr>cs_Discovery = c, cs_ViharaV1alpha1 = client_New c\<rparr>"

lemma OrDie_both_clients: "NewForConfigOrDie transport userAgent c n = both_clients transport userAgent c n"
  by (simp add: NewForConfigOrDie_def both_clients_def client_NewForConfigOrDie_def)

lemma unversioned_done:
  assumes "UnversionedRESTClientFor transport config n = (Inr v, n')"
  shows "rt_APIPath v = rc_APIPath config"
    and "rt_GroupVersion v = (case rc_GroupVersion config of None \<Rightarrow> ''meta.k8s.io/v1'' | Some gv \<Rightarrow> gv)"
    and "client_limiter config n = (rt_rateLimiter v, n')"
  using assms by (auto simp: UnversionedRESTClientFor_def Let_def split: if_splits option.splits prod.splits)

lemma setConfigDefaults_fields:
  "rc_RateLimiter (setConfigDefaults userAgent c) = rc_RateLimiter c"
  "rc_QPS (setConfigDefaults userAgent c) = rc_QPS c"
  "rc_Burst (setConfigDefaults userAgent c) = rc_Burst c"
  "rc_APIPath (setConfigDefaults userAgent c) = ''/apis''"
  "rc_GroupVersion (setConfigDefaults userAgent c) = Some SchemeGroupVersion"
  by (simp_all add: setConfigDefaults_def Let_def)

lemma group_client_done:
  assumes "client_NewForConfig transport userAgent c n = (Inr v, n')"
  shows "rt_APIPath v = ''/apis'' \<and> rt_GroupVersion v = SchemeGroupVersion \<and> client_limiter c n = (rt_rateLimiter v, n')"
proof -
  let ?d = "setConfigDefaults userAgent c"
  have d: "rc_APIPath ?d = ''/apis''" "rc_GroupVersion ?d = Some SchemeGroupVersion"
    "client_limiter ?d n = client_limiter c n"
    by (simp_all only: client_limiter_def setConfigDefaults_fields)
  have "UnversionedRESTClientFor transport ?d n = (Inr v, n')"
    using assms d(2) by (simp add: client_NewForConfig_def RESTClientFor_def)
  then show ?thesis using unversioned_done d by fastforce
qed

text \<open>A limiter that is not taken from the configuration is made when the rate is not negative.\<close>

lemma client_limiter_kept:
  "rc_RateLimiter config = Some l \<Longrightarrow> client_limiter config n = (Some l, n)"
  by (simp add: client_limiter_def)

lemma client_limiter_fresh:
  assumes "rc_RateLimiter config = None" and "client_limiter config n = (r, n')"
  shows "if rc_QPS config < 0 then r = None \<and> n' = n else (\<exists>l. r = Some l \<and> rl_id l = n) \<and> n' = n + 1"
  using assms by (auto simp: client_limiter_def Let_def split: if_splits)

lemma setDiscoveryDefaults_rate:
  "rc_RateLimiter (setDiscoveryDefaults userAgent c) = rc_RateLimiter c"
  "rc_QPS (setDiscoveryDefaults userAgent c) = rc_QPS c"
  by (simp_all add: setDiscoveryDefaults_def Let_def)

lemma both_clients_parts:
  assumes "both_clients transport userAgent c n = (Inr cs, n')"
  obtains n1 where "client_NewForConfig transport userAgent c n = (Inr (cs_ViharaV1alpha1 cs), n1)"
    and "NewDiscoveryClientForConfig transport userAgent c n1 = (Inr (cs_Discovery cs), n')"
  using assms by (auto simp: both_clients_def split: prod.splits sum.splits)

lemma both_clients_done:
  assumes "both_clients transport userAgent c n = (Inr cs, n')"
  shows "rt_GroupVersion (cs_ViharaV1alpha1 cs) = SchemeGroupVersion \<and> rt_APIPath (cs_ViharaV1alpha1 cs) = ''/apis'' \<and>
    (case rc_RateLimiter c of
       Some l \<Rightarrow> rt_rateLimiter (cs_ViharaV1alpha1 cs) = Some l \<and> rt_rateLimiter (cs_Discovery cs) = Some l
     | None \<Rightarrow> rt_rateLimiter (cs_ViharaV1alpha1 cs) = None \<and> rt_rateLimiter (cs_Discovery cs) = None \<or>
         rt_rateLimiter (cs_ViharaV1alpha1 cs) \<noteq> rt_rateLimiter (cs_Discovery cs))"
proof -
  let ?d = "setDiscoveryDefaults userAgent c"
  obtain n1 where v: "client_NewForConfig transport userAgent c n = (Inr (cs_ViharaV1alpha1 cs), n1)"
    and d: "NewDiscoveryClientForConfig transport userAgent c n1 = (Inr (cs_Discovery cs), n')"
    using both_clients_parts [OF assms] .
  note g = group_client_done [OF v]
  have l: "client_limiter ?d n1 = (rt_rateLimiter (cs_Discovery cs), n')"
    using unversioned_done(3) d by (simp add: NewDiscoveryClientForConfig_def)
  show ?thesis
  proof (cases "rc_RateLimiter c")
    case None
    then have "rc_RateLimiter ?d = None" by (simp add: setDiscoveryDefaults_rate)
    then show ?thesis
      using g None client_limiter_fresh [OF None] client_limiter_fresh [OF _ l]
      by (fastforce simp: setDiscoveryDefaults_rate split: if_splits)
  next
    case (Some a)
    then have "rc_RateLimiter ?d = Some a" by (simp add: setDiscoveryDefaults_rate)
    from client_limiter_kept [OF this, of n1] l have "rt_rateLimiter (cs_Discovery cs) = Some a" by simp
    moreover from client_limiter_kept [OF Some, of n] g have "rt_rateLimiter (cs_ViharaV1alpha1 cs) = Some a" by simp
    ultimately show ?thesis using g Some by simp
  qed
qed

text \<open>The two clients of a clientset share a rate limiter exactly when the configuration brings one or limits
  the rate; with the defaults each has its own. The client of the group is one for its version below \<open>/apis\<close>.\<close>

lemma clientset_limits:
  assumes "NewForConfig transport userAgent c n = (Inr cs, n')"
  shows "rt_GroupVersion (cs_ViharaV1alpha1 cs) = SchemeGroupVersion \<and> rt_APIPath (cs_ViharaV1alpha1 cs) = ''/apis'' \<and>
    (rt_rateLimiter (cs_ViharaV1alpha1 cs) = rt_rateLimiter (cs_Discovery cs) \<and> rt_rateLimiter (cs_Discovery cs) \<noteq> None \<longleftrightarrow>
      rc_RateLimiter c \<noteq> None \<or> rc_QPS c > 0)"
proof (cases "rc_RateLimiter c = None \<and> rc_QPS c > 0")
  case True
  then have "both_clients transport userAgent
      (c\<lparr>rc_RateLimiter := Some \<lparr>rl_id = n, rl_qps = rc_QPS c, rl_burst = rc_Burst c\<rparr>\<rparr>) (n + 1) = (Inr cs, n')"
    using assms by (simp add: NewForConfig_def split: if_splits)
  from both_clients_done [OF this] True show ?thesis by simp
next
  case False
  then have "both_clients transport userAgent c n = (Inr cs, n')" using assms by (auto simp: NewForConfig_def)
  from both_clients_done [OF this] False show ?thesis by (auto split: option.splits)
qed

text \<open>A configuration with a rate but no burst is refused by \<open>NewForConfig\<close>, while \<open>NewForConfigOrDie\<close> accepts it
  when the transport can be made.\<close>

lemma or_die_accepts_refused:
  assumes "rc_RateLimiter c = None" and "rc_QPS c > 0" and "rc_Burst c \<le> 0" and "\<And>c. transport c = None"
  shows "fst (NewForConfig transport userAgent c n) = Inl burst_error \<and>
    (\<exists>cs. fst (NewForConfigOrDie transport userAgent c n) = Inr cs)"
  using assms
  by (auto simp: NewForConfig_def OrDie_both_clients both_clients_def client_NewForConfig_def
      NewDiscoveryClientForConfig_def RESTClientFor_def UnversionedRESTClientFor_def setConfigDefaults_def
      setDiscoveryDefaults_def Let_def split: prod.split option.split)

section \<open>Registration with a scheme\<close>

text \<open>A scheme maps kinds to Go types and back; a kind is a group, a version and a name, a type a package
  and a name.\<close>

type_synonym gvk = "string \<times> string \<times> string"
type_synonym go_type = "string \<times> string"

record Scheme =
  sm_gvkToType :: "(gvk \<times> go_type) list"
  sm_typeToGVK :: "(go_type \<times> gvk list) list"
  sm_unversionedTypes :: "(go_type \<times> gvk) list"
  sm_unversionedKinds :: "(string \<times> go_type) list"

definition NewScheme :: Scheme where
  "NewScheme = \<lparr>sm_gvkToType = [], sm_typeToGVK = [], sm_unversionedTypes = [], sm_unversionedKinds = []\<rparr>"

definition kinds_of :: "Scheme \<Rightarrow> go_type \<Rightarrow> gvk list" where
  "kinds_of s t = (case map_of (sm_typeToGVK s) t of None \<Rightarrow> [] | Some ks \<Rightarrow> ks)"

text \<open>A panic is \<open>None\<close>: a kind without version, or one that is registered for another type.\<close>

definition AddKnownTypeWithName :: "gvk \<Rightarrow> go_type \<Rightarrow> Scheme \<Rightarrow> Scheme option" where
  "AddKnownTypeWithName k t s =
     (if fst (snd k) = [] then None
      else if map_of (sm_gvkToType s) k \<notin> {None, Some t} then None
      else (let s1 = s\<lparr>sm_gvkToType := AList.update k t (sm_gvkToType s)\<rparr>
            in Some (if k \<in> set (kinds_of s t) then s1
                     else s1\<lparr>sm_typeToGVK := AList.update t (kinds_of s t @ [k]) (sm_typeToGVK s)\<rparr>)))"

fun AddKnownTypes :: "string \<times> string \<Rightarrow> go_type list \<Rightarrow> Scheme \<Rightarrow> Scheme option" where
  "AddKnownTypes gv [] s = Some s"
| "AddKnownTypes gv (t # ts) s =
     Option.bind (AddKnownTypeWithName (fst gv, snd gv, snd t) t s) (AddKnownTypes gv ts)"

fun add_unversioned :: "string \<times> string \<Rightarrow> go_type list \<Rightarrow> Scheme \<Rightarrow> Scheme option" where
  "add_unversioned gv [] s = Some s"
| "add_unversioned gv (t # ts) s =
     (let s1 = s\<lparr>sm_unversionedTypes := AList.update t (fst gv, snd gv, snd t) (sm_unversionedTypes s)\<rparr>
      in if map_of (sm_unversionedKinds s) (snd t) \<notin> {None, Some t} then None
         else add_unversioned gv ts (s1\<lparr>sm_unversionedKinds := AList.update (snd t) t (sm_unversionedKinds s)\<rparr>))"

definition AddUnversionedTypes :: "string \<times> string \<Rightarrow> go_type list \<Rightarrow> Scheme \<Rightarrow> Scheme option" where
  "AddUnversionedTypes gv ts s = Option.bind (AddKnownTypes gv ts s) (add_unversioned gv ts)"

text \<open>\<open>AddToGroupVersion\<close> of \<open>metav1\<close>; the conversions and defaults it registers are left out.\<close>

definition optionsTypes :: "go_type list" where
  "optionsTypes = map (Pair ''metav1'') [''ListOptions'', ''ExportOptions'', ''GetOptions'', ''DeleteOptions'',
     ''CreateOptions'', ''UpdateOptions'', ''PatchOptions'']"

definition AddToGroupVersion :: "string \<times> string \<Rightarrow> Scheme \<Rightarrow> Scheme option" where
  "AddToGroupVersion gv s =
     Option.bind (AddKnownTypeWithName (fst gv, snd gv, ''WatchEvent'') (''metav1'', ''WatchEvent'') s) (\<lambda>s1.
     Option.bind (AddKnownTypeWithName (fst gv, ''__internal'', ''WatchEvent'') (''metav1'', ''InternalEvent'') s1) (\<lambda>s2.
     Option.bind (AddKnownTypes gv optionsTypes s2)
       (AddUnversionedTypes ([], ''v1'') (map (Pair ''metav1'')
         [''Status'', ''APIVersions'', ''APIGroupList'', ''APIGroup'', ''APIResourceList'']))))"

text \<open>\<open>register.go\<close> of the group.\<close>

definition group_version :: "string \<times> string" where
  "group_version = (''vihara.arhat.dev'', ''v1alpha1'')"

definition vihara_types :: "go_type list" where
  "vihara_types = map (Pair ''v1alpha1'') [''Maintenance'', ''MaintenanceList'', ''MaintenanceJob'', ''MaintenanceJobList'']"

definition addKnownTypes :: "Scheme \<Rightarrow> Scheme option" where
  "addKnownTypes s = Option.bind (AddKnownTypes group_version vihara_types s) (AddToGroupVersion group_version)"

text \<open>A builder runs its functions in turn; the one of \<open>apis\<close> holds that of the group, and the clientsets (real
  and fake) use another with the same function in their \<open>init\<close>.\<close>

definition AddToScheme :: "(Scheme \<Rightarrow> Scheme option) list \<Rightarrow> Scheme \<Rightarrow> Scheme option" where
  "AddToScheme builder s = fold (\<lambda>f s. Option.bind s f) builder (Some s)"

definition apis_builder :: "(Scheme \<Rightarrow> Scheme option) list" where
  "apis_builder = [AddToScheme [addKnownTypes]]"

definition clientset_init :: "Scheme option" where
  "clientset_init = Option.bind (AddToGroupVersion ([], ''v1'') NewScheme) (AddToScheme [AddToScheme [addKnownTypes]])"

lemma register_one:
  assumes "AddKnownTypeWithName k t s = Some s1"
  shows "map_of (sm_gvkToType s) k \<in> {None, Some t}"
    and "map_of (sm_gvkToType s1) = (map_of (sm_gvkToType s))(k \<mapsto> t)" and "k \<in> set (kinds_of s1 t)"
    and "set (kinds_of s t') \<subseteq> set (kinds_of s1 t')"
proof -
  show "map_of (sm_gvkToType s) k \<in> {None, Some t}"
    using assms unfolding AddKnownTypeWithName_def by (metis option.distinct(1))
  show "map_of (sm_gvkToType s1) = (map_of (sm_gvkToType s))(k \<mapsto> t)" "k \<in> set (kinds_of s1 t)"
      "set (kinds_of s t') \<subseteq> set (kinds_of s1 t')"
    using assms
    by (auto simp: AddKnownTypeWithName_def Let_def kinds_of_def update_conv' split: if_splits option.splits)
qed

text \<open>What is registered stays so.\<close>

definition still_knows :: "Scheme \<Rightarrow> Scheme \<Rightarrow> bool" where
  "still_knows s s' \<longleftrightarrow> (\<forall>k t. map_of (sm_gvkToType s) k = Some t \<longrightarrow> map_of (sm_gvkToType s') k = Some t) \<and>
     (\<forall>t. set (kinds_of s t) \<subseteq> set (kinds_of s' t))"

lemma still_knows_refl [simp]: "still_knows s s"
  by (simp add: still_knows_def)

lemma still_knows_trans: "still_knows a b \<Longrightarrow> still_knows b c \<Longrightarrow> still_knows a c"
  unfolding still_knows_def by blast

lemma still_knows_one: "AddKnownTypeWithName k t s = Some s1 \<Longrightarrow> still_knows s s1"
  unfolding still_knows_def using register_one [of k t s s1] by (auto simp del: split_paired_All)

lemma still_knows_bind:
  assumes "Option.bind x f = Some c" and "\<And>b. x = Some b \<Longrightarrow> still_knows a b" and "\<And>b. f b = Some c \<Longrightarrow> still_knows b c"
  shows "still_knows a c"
  using assms still_knows_trans by (cases x) auto

lemma still_knows_known: "AddKnownTypes gv ts s = Some s' \<Longrightarrow> still_knows s s'"
  by (induction ts arbitrary: s) (auto simp: bind_eq_Some_conv intro: still_knows_trans dest: still_knows_one)

lemma still_knows_unversioned: "add_unversioned gv ts s = Some s' \<Longrightarrow> still_knows s s'"
proof (induction ts arbitrary: s)
  case (Cons t ts)
  let ?s = "s\<lparr>sm_unversionedTypes := AList.update t (fst gv, snd gv, snd t) (sm_unversionedTypes s),
    sm_unversionedKinds := AList.update (snd t) t (sm_unversionedKinds s)\<rparr>"
  have "still_knows s ?s" by (simp add: still_knows_def kinds_of_def)
  moreover have "still_knows ?s s'" using Cons by (auto simp: Let_def split: if_splits)
  ultimately show ?case by (rule still_knows_trans)
qed simp

lemma still_knows_group: "AddToGroupVersion gv s = Some s' \<Longrightarrow> still_knows s s'"
  unfolding AddToGroupVersion_def AddUnversionedTypes_def
  by (rule still_knows_bind, assumption, erule still_knows_one)+ (erule still_knows_bind, erule still_knows_known, erule still_knows_bind, erule still_knows_known, erule still_knows_unversioned)

lemma AddKnownTypes_knows:
  assumes "AddKnownTypes gv ts s = Some s'" and "t \<in> set ts"
  shows "map_of (sm_gvkToType s') (fst gv, snd gv, snd t) = Some t \<and> (fst gv, snd gv, snd t) \<in> set (kinds_of s' t)"
  using assms
proof (induction ts arbitrary: s)
  case (Cons u ts)
  let ?k = "\<lambda>t :: go_type. (fst gv, snd gv, snd t)"
  from Cons.prems(1) obtain s1 where s1: "AddKnownTypeWithName (?k u) u s = Some s1" "AddKnownTypes gv ts s1 = Some s'"
    by (auto simp: bind_eq_Some_conv)
  show ?case
  proof (cases "t \<in> set ts")
    case True
    with Cons.IH [OF s1(2)] show ?thesis by blast
  next
    case False
    with Cons.prems(2) have "t = u" by simp
    moreover have "map_of (sm_gvkToType s1) (?k u) = Some u" "?k u \<in> set (kinds_of s1 u)"
      using register_one(2,3) [OF s1(1)] by simp_all
    ultimately show ?thesis using still_knows_known [OF s1(2)] unfolding still_knows_def by blast
  qed
qed simp

text \<open>After the registration the four types of the group are known under their kinds, in both
  directions, and what was known before still is. Into a new scheme, as the clientsets do it, the
  registration succeeds.\<close>

lemma scheme_registered:
  assumes "AddToScheme apis_builder s = Some s'"
  shows "still_knows s s' \<and> (\<forall>t \<in> set vihara_types.
      map_of (sm_gvkToType s') (''vihara.arhat.dev'', ''v1alpha1'', snd t) = Some t \<and>
      (''vihara.arhat.dev'', ''v1alpha1'', snd t) \<in> set (kinds_of s' t))"
proof -
  from assms obtain s1 where s1: "AddKnownTypes group_version vihara_types s = Some s1"
    "AddToGroupVersion group_version s1 = Some s'"
    by (auto simp: AddToScheme_def apis_builder_def addKnownTypes_def bind_eq_Some_conv)
  note k = still_knows_known [OF s1(1)] still_knows_group [OF s1(2)]
  have "map_of (sm_gvkToType s') (fst group_version, snd group_version, snd t) = Some t \<and>
      (fst group_version, snd group_version, snd t) \<in> set (kinds_of s' t)" if "t \<in> set vihara_types" for t
    using AddKnownTypes_knows [OF s1(1) that] k(2) unfolding still_knows_def by blast
  with still_knows_trans [OF k] show ?thesis by (simp add: group_version_def)
qed

lemma clientset_init_ok: "clientset_init \<noteq> None"
  by code_simp

end
