(* ===== verification/Wiring.thy ===== *)
theory Wiring
  imports Informers Clientset
begin

text \<open>
  How \<open>NewController\<close> (\<open>controller.go\<close>) gets its clients and informers, through the generated interfaces of the
  group and its version (\<open>informers/externalversions/vihara\<close>): which objects the controller lists, watches
  and writes. The informer of Kubernetes jobs is that of the library and left out.
\<close>

section \<open>Groups and versions of the informer factory\<close>

text \<open>The factory itself is a part of these structs; it is an argument here.\<close>

record informer_group =
  ig_namespace :: string
  ig_tweakListOptions :: tweak

record type_informer =
  ti_type :: resource_type
  ti_namespace :: string
  ti_tweakListOptions :: tweak

definition factory_Vihara :: "factory \<Rightarrow> informer_group" where
  "factory_Vihara f = \<lparr>ig_namespace = fc_namespace f, ig_tweakListOptions = fc_tweak f\<rparr>"

definition group_V1alpha1 :: "informer_group \<Rightarrow> informer_group" where
  "group_V1alpha1 g = \<lparr>ig_namespace = ig_namespace g, ig_tweakListOptions = ig_tweakListOptions g\<rparr>"

text \<open>Maintenances are not namespaced: their informer has no namespace.\<close>

definition version_Maintenance :: "informer_group \<Rightarrow> type_informer" where
  "version_Maintenance v = \<lparr>ti_type = MaintenanceType, ti_namespace = [], ti_tweakListOptions = ig_tweakListOptions v\<rparr>"

definition version_MaintenanceJobs :: "informer_group \<Rightarrow> type_informer" where
  "version_MaintenanceJobs v = \<lparr>ti_type = MaintenanceJobType, ti_namespace = ig_namespace v,
     ti_tweakListOptions = ig_tweakListOptions v\<rparr>"

definition maintenanceInformer_default :: "nat \<Rightarrow> type_informer \<Rightarrow> codec \<Rightarrow> duration \<Rightarrow> informer" where
  "maintenanceInformer_default addr i client resyncPeriod =
     NewFilteredMaintenanceInformer addr client resyncPeriod (ti_tweakListOptions i)"

definition maintenanceJobInformer_default :: "nat \<Rightarrow> type_informer \<Rightarrow> codec \<Rightarrow> duration \<Rightarrow> informer" where
  "maintenanceJobInformer_default addr i client resyncPeriod =
     NewFilteredMaintenanceJobInformer addr client (ti_namespace i) resyncPeriod (ti_tweakListOptions i)"

definition maintenanceInformer_Informer :: "factory \<Rightarrow> informer \<times> factory" where
  "maintenanceInformer_Informer f = InformerFor MaintenanceType f"

definition maintenanceJobInformer_Informer :: "factory \<Rightarrow> informer \<times> factory" where
  "maintenanceJobInformer_Informer f = InformerFor MaintenanceJobType f"

text \<open>The listers read the cache of the informer, which the factory makes when it has none of the type yet.\<close>

definition maintenanceInformer_Lister ::
  "(informer \<Rightarrow> (string \<times> Maintenance) list) \<Rightarrow> factory \<Rightarrow> Maintenance lister \<times> factory" where
  "maintenanceInformer_Lister getIndexer f =
     (let (i, f1) = maintenanceInformer_Informer f in (NewMaintenanceLister (getIndexer i), f1))"

definition maintenanceJobInformer_Lister ::
  "(informer \<Rightarrow> (string \<times> MaintenanceJob) list) \<Rightarrow> factory \<Rightarrow> MaintenanceJob lister \<times> factory" where
  "maintenanceJobInformer_Lister getIndexer f =
     (let (i, f1) = maintenanceJobInformer_Informer f in (NewMaintenanceJobLister (getIndexer i), f1))"

text \<open>The informer of a type, asked for through group and version, is the one the factory makes.\<close>

lemma default_through_version:
  "maintenanceInformer_default a (version_Maintenance (group_V1alpha1 (factory_Vihara f))) (fc_client f) d =
     defaultInformer a MaintenanceType f d"
  "maintenanceJobInformer_default a (version_MaintenanceJobs (group_V1alpha1 (factory_Vihara f))) (fc_client f) d =
     defaultInformer a MaintenanceJobType f d"
  by (simp_all add: maintenanceInformer_default_def maintenanceJobInformer_default_def version_Maintenance_def
      version_MaintenanceJobs_def group_V1alpha1_def factory_Vihara_def defaultInformer_def)

section \<open>The controller\<close>

record controller_parts =
  cp_mtClient :: "Maintenance client_op \<Rightarrow> Request"
  cp_mtJobClient :: "MaintenanceJob client_op \<Rightarrow> Request"
  cp_mtInformerFactory :: factory
  cp_mtJobInformerFactory :: factory
  cp_mtInformer :: informer
  cp_mtJobInformer :: informer

definition NewController_parts :: "codec \<Rightarrow> string \<Rightarrow> controller_parts" where
  "NewController_parts client namespace =
     (let (mtInformer, mtFactory) = maintenanceInformer_Informer (NewSharedInformerFactoryWithOptions client 0 []);
          (mtJobInformer, mtJobFactory) =
            maintenanceJobInformer_Informer (NewSharedInformerFactoryWithOptions client 0 [WithNamespace namespace])
      in \<lparr>cp_mtClient = client_Maintenance client, cp_mtJobClient = client_MaintenanceJobs client namespace,
          cp_mtInformerFactory = mtFactory, cp_mtJobInformerFactory = mtJobFactory,
          cp_mtInformer = mtInformer, cp_mtJobInformer = mtJobInformer\<rparr>)"

text \<open>What \<open>Start\<close> sets running: each informer once.\<close>

definition Start_factories :: "controller_parts \<Rightarrow> controller_parts" where
  "Start_factories c = c\<lparr>cp_mtInformerFactory := factory_Start (cp_mtInformerFactory c),
     cp_mtJobInformerFactory := factory_Start (cp_mtJobInformerFactory c)\<rparr>"

lemma parts_informers:
  "cp_mtInformer (NewController_parts client ns) = NewFilteredMaintenanceInformer 0 client 0 None"
  "cp_mtJobInformer (NewController_parts client ns) = NewFilteredMaintenanceJobInformer 0 client ns 0 None"
  by (simp_all add: NewController_parts_def maintenanceInformer_Informer_def maintenanceJobInformer_Informer_def
      NewSharedInformerFactoryWithOptions_def InformerFor_def defaultInformer_def WithNamespace_def Let_def)

lemma informers_run_once:
  "fc_running (cp_mtInformerFactory (Start_factories (NewController_parts client ns))) = [cp_mtInformer (NewController_parts client ns)] \<and>
   fc_running (cp_mtJobInformerFactory (Start_factories (NewController_parts client ns))) = [cp_mtJobInformer (NewController_parts client ns)]"
  by (simp add: NewController_parts_def maintenanceInformer_Informer_def maintenanceJobInformer_Informer_def
      NewSharedInformerFactoryWithOptions_def InformerFor_def WithNamespace_def Start_factories_def
      factory_Start_def start_one_def Let_def split_beta)

text \<open>The controller reads and writes the same maintenance jobs: its informer lists and watches those below
  the path at which its client creates them. An empty job namespace lists those of all namespaces,
  where the client refuses to create any.\<close>

lemma controller_reads_what_it_writes:
  assumes "\<And>opts. \<not> isl (cd_params client opts)" and "\<And>j. \<not> isl (cd_mj client j)"
  shows "ns \<noteq> [] \<Longrightarrow> IsValidPathSegmentName ns \<Longrightarrow>
      request_error (cp_mtJobClient (NewController_parts client ns) (OpCreate j copts)) = None \<and>
      URL (in_ListFunc (cp_mtJobInformer (NewController_parts client ns)) opts) =
        URL (cp_mtJobClient (NewController_parts client ns) (OpCreate j copts))"
    and "ns = [] \<Longrightarrow> URL (in_ListFunc (cp_mtJobInformer (NewController_parts client ns)) opts) = group_path @ [''maintenancejobs''] \<and>
      request_error (cp_mtJobClient (NewController_parts client ns) (OpCreate j copts)) \<noteq> None"
proof -
  have c: "cp_mtJobClient (NewController_parts client ns) = jobs_request client ns"
    by (simp add: NewController_parts_def client_MaintenanceJobs_def Let_def split_beta fun_eq_iff)
  have l: "in_ListFunc (cp_mtJobInformer (NewController_parts client ns)) opts = jobs_request client ns (OpList opts)"
    by (simp add: parts_informers NewFilteredMaintenanceJobInformer_def tweaked_def)
  have ok: "op_ok client mj_Name (cd_mj client) (OpCreate j copts)" "op_ok client mj_Name (cd_mj client) (OpList opts)"
    using assms by (simp_all add: op_ok_def)
  show "request_error (cp_mtJobClient (NewController_parts client ns) (OpCreate j copts)) = None \<and>
      URL (in_ListFunc (cp_mtJobInformer (NewController_parts client ns)) opts) =
        URL (cp_mtJobClient (NewController_parts client ns) (OpCreate j copts))"
    if "ns \<noteq> []" "IsValidPathSegmentName ns"
  proof -
    note create = jobs_sent(2) [OF that(2) ok(1)] and list = jobs_sent(2) [OF that(2) ok(2)]
    have "rq_err (jobs_request client ns (OpCreate j copts)) = None"
      using jobs_sent(1) [OF that(2)] ok(1) by blast
    then have "request_error (jobs_request client ns (OpCreate j copts)) = None"
      using create that(1) by (simp add: request_error_def requestPreflightCheck_def sent_def)
    moreover have "URL (jobs_request client ns (OpList opts)) = URL (jobs_request client ns (OpCreate j copts))"
      using create list that(1) by (simp add: sent_URL sent_def URL_def)
    ultimately show ?thesis by (simp add: c l)
  qed
  show "URL (in_ListFunc (cp_mtJobInformer (NewController_parts client ns)) opts) = group_path @ [''maintenancejobs''] \<and>
      request_error (cp_mtJobClient (NewController_parts client ns) (OpCreate j copts)) \<noteq> None" if "ns = []"
  proof -
    have v: "IsValidPathSegmentName ns" using that by (simp add: IsValidPathSegmentName_def)
    have "requestPreflightCheck (jobs_request client ns (OpCreate j copts)) \<noteq> None"
      using jobs_sent(2) [OF v ok(1)] that by (simp add: requestPreflightCheck_def sent_def)
    then have "request_error (jobs_request client ns (OpCreate j copts)) \<noteq> None"
      by (simp add: request_error_def split: option.split)
    moreover have "URL (jobs_request client ns (OpList opts)) = group_path @ [''maintenancejobs'']"
      using jobs_sent(2) [OF v ok(2)] that by (simp add: sent_def URL_def path_join_def group_path_def)
    ultimately show ?thesis by (simp add: c l)
  qed
qed

end
