(* ===== verification/DeepCopy.thy ===== *)
theory DeepCopy
  imports Main
begin

text \<open>
  The generated deep copies (\<open>v1alpha1/zz_generated.deepcopy.go\<close>) over an explicit memory: a struct
  holds strings, numbers and the like, other structs, and references; a pointer, a slice and a map are
  references to a cell of the memory with the values it holds (one for a pointer, the pairs of key and
  value for a map). A function \<open>DeepCopyInto\<close> is given by what it does with each field, and the types
  of the API by what their fields are, so that the functions can be checked against the types.
  \<open>metav1.Time\<close> counts as a plain value: its deep copy shares the location, which is never changed.
\<close>

section \<open>Values and memory\<close>

datatype gval = Prim string | Struct "gval list" | Ref "nat option"

type_synonym memory = "gval list list"

datatype ty = TPrim | TStruct "ty list" | TRef ty

primrec has_ty :: "memory \<Rightarrow> ty \<Rightarrow> gval \<Rightarrow> bool" where
  "has_ty h TPrim = (\<lambda>v. case v of Prim _ \<Rightarrow> True | _ \<Rightarrow> False)"
| "has_ty h (TStruct ts) = (\<lambda>v. case v of
     Struct vs \<Rightarrow> list_all2 (\<lambda>p v. p v) (map (has_ty h) ts) vs | _ \<Rightarrow> False)"
| "has_ty h (TRef t) = (\<lambda>v. case v of
     Ref (Some a) \<Rightarrow> a < length h \<and> list_all (has_ty h t) (h ! a) | Ref None \<Rightarrow> True | _ \<Rightarrow> False)"

text \<open>The tree a value stands for, and the cells it reaches.\<close>

datatype tree = Leaf string | Fields "tree list" | Nil_ref | Cell "tree list" | No_tree

primrec read :: "memory \<Rightarrow> ty \<Rightarrow> gval \<Rightarrow> tree" where
  "read h TPrim = (\<lambda>v. case v of Prim s \<Rightarrow> Leaf s | _ \<Rightarrow> No_tree)"
| "read h (TStruct ts) = (\<lambda>v. case v of
     Struct vs \<Rightarrow> Fields (map2 (\<lambda>f v. f v) (map (read h) ts) vs) | _ \<Rightarrow> No_tree)"
| "read h (TRef t) = (\<lambda>v. case v of
     Ref (Some a) \<Rightarrow> Cell (map (read h t) (h ! a)) | Ref None \<Rightarrow> Nil_ref | _ \<Rightarrow> No_tree)"

primrec addrs :: "memory \<Rightarrow> ty \<Rightarrow> gval \<Rightarrow> nat set" where
  "addrs h TPrim = (\<lambda>v. {})"
| "addrs h (TStruct ts) = (\<lambda>v. case v of
     Struct vs \<Rightarrow> \<Union> (set (map2 (\<lambda>f v. f v) (map (addrs h) ts) vs)) | _ \<Rightarrow> {})"
| "addrs h (TRef t) = (\<lambda>v. case v of
     Ref (Some a) \<Rightarrow> insert a (\<Union> (addrs h t ` set (h ! a))) | _ \<Rightarrow> {})"

section \<open>Copiers\<close>

text \<open>\<open>Assign\<close> is what \<open>*out = *in\<close> does; \<open>Into\<close> treats the fields of a struct one by one; \<open>Renew\<close> leaves a nil
  reference alone, and else makes a new cell and copies what the old one holds.\<close>

datatype copier = Assign | Into "copier list" | Renew copier

fun run_fields :: "(gval \<Rightarrow> memory \<Rightarrow> gval \<times> memory) list \<Rightarrow> gval list \<Rightarrow> memory \<Rightarrow> gval list \<times> memory" where
  "run_fields (f # fs) (v # vs) h =
     (let (v1, h1) = f v h; (vs1, h2) = run_fields fs vs h1 in (v1 # vs1, h2))"
| "run_fields _ vs h = (vs, h)"

primrec copy :: "copier \<Rightarrow> gval \<Rightarrow> memory \<Rightarrow> gval \<times> memory" where
  "copy Assign = (\<lambda>v h. (v, h))"
| "copy (Into cs) = (\<lambda>v h. case v of
     Struct vs \<Rightarrow> (let (vs1, h1) = run_fields (map copy cs) vs h in (Struct vs1, h1))
   | _ \<Rightarrow> (v, h))"
| "copy (Renew c) = (\<lambda>v h. case v of
     Ref (Some a) \<Rightarrow>
       (let new = length h;
            (vs1, h1) = run_fields (replicate (length (h ! a)) (copy c)) (h ! a) (h @ [[]])
        in (Ref (Some new), h1[new := vs1]))
   | _ \<Rightarrow> (v, h))"

text \<open>The copier that fits a type exactly: the documented behaviour of the deep copies of other
  packages.\<close>

primrec full :: "ty \<Rightarrow> copier" where
  "full TPrim = Assign"
| "full (TStruct ts) = Into (map full ts)"
| "full (TRef t) = Renew (full t)"

text \<open>A copier is deep for a type when it only assigns what holds no reference.\<close>

primrec flat :: "ty \<Rightarrow> bool" where
  "flat TPrim = True"
| "flat (TStruct ts) = list_all (\<lambda>b. b) (map flat ts)"
| "flat (TRef t) = False"

primrec deep :: "copier \<Rightarrow> ty \<Rightarrow> bool" where
  "deep Assign = flat"
| "deep (Into cs) = (\<lambda>t. case t of TStruct ts \<Rightarrow> list_all2 (\<lambda>p t. p t) (map deep cs) ts | _ \<Rightarrow> False)"
| "deep (Renew c) = (\<lambda>t. case t of TRef t1 \<Rightarrow> deep c t1 | _ \<Rightarrow> False)"

section \<open>The types and their copies\<close>

text \<open>The types of other packages are parameters; \<open>TypeMeta\<close> and \<open>ObjectFieldSelector\<close> are two strings
  each. The fields are in the order of \<open>types_maintenance.go\<close> and \<open>types_maintenancejob.go\<close>.\<close>

record external =
  ex_ObjectMeta :: ty
  ex_ListMeta :: ty
  ex_Toleration :: ty
  ex_Pod :: ty

definition TypeMeta_ty :: ty where
  "TypeMeta_ty = TStruct [TPrim, TPrim]"

text \<open>For each struct: its fields, \<open>DeepCopyInto\<close>, and \<open>DeepCopy\<close>, which is given a pointer: nil
  stays nil, and else a new struct is copied into. (\<open>DeepCopyObject\<close> of the root types is \<open>DeepCopy\<close>.)\<close>

definition Hash_ty :: ty where
  "Hash_ty = TStruct [TPrim]"

definition Hash_DeepCopyInto :: copier where
  "Hash_DeepCopyInto =
     Assign"

definition Hash_DeepCopy :: copier where
  "Hash_DeepCopy = Renew Hash_DeepCopyInto"

definition MaintenanceDependency_ty :: ty where
  "MaintenanceDependency_ty = TStruct [TPrim, TPrim, TPrim]"

definition MaintenanceDependency_DeepCopyInto :: copier where
  "MaintenanceDependency_DeepCopyInto =
     Assign"

definition MaintenanceDependency_DeepCopy :: copier where
  "MaintenanceDependency_DeepCopy = Renew MaintenanceDependency_DeepCopyInto"

definition ResourceReference_ty :: ty where
  "ResourceReference_ty = TStruct [TPrim, TPrim, TPrim]"

definition ResourceReference_DeepCopyInto :: copier where
  "ResourceReference_DeepCopyInto =
     Assign"

definition ResourceReference_DeepCopy :: copier where
  "ResourceReference_DeepCopy = Renew ResourceReference_DeepCopyInto"

definition ObjectFieldSelector_ty :: ty where
  "ObjectFieldSelector_ty = TStruct [TPrim, TPrim]"

definition ValueFrom_ty :: ty where
  "ValueFrom_ty = TStruct [ObjectFieldSelector_ty]"

definition ValueFrom_DeepCopyInto :: copier where
  "ValueFrom_DeepCopyInto =
     Into [Assign]"

definition ValueFrom_DeepCopy :: copier where
  "ValueFrom_DeepCopy = Renew ValueFrom_DeepCopyInto"

definition MaintenanceNodeSelector_ty :: ty where
  "MaintenanceNodeSelector_ty = TStruct [TPrim, TPrim, ValueFrom_ty]"

definition MaintenanceNodeSelector_DeepCopyInto :: copier where
  "MaintenanceNodeSelector_DeepCopyInto =
     Into [Assign, Assign, Assign]"

definition MaintenanceNodeSelector_DeepCopy :: copier where
  "MaintenanceNodeSelector_DeepCopy = Renew MaintenanceNodeSelector_DeepCopyInto"

definition MaintenanceNodeDrainSpec_ty :: ty where
  "MaintenanceNodeDrainSpec_ty = TStruct [TRef MaintenanceNodeSelector_ty, TPrim, TRef (TStruct [TPrim,
       TPrim]), TPrim, TPrim]"

definition MaintenanceNodeDrainSpec_DeepCopyInto :: copier where
  "MaintenanceNodeDrainSpec_DeepCopyInto =
     Into [Renew Assign, Assign, Renew Assign, Assign, Assign]"

definition MaintenanceNodeDrainSpec_DeepCopy :: copier where
  "MaintenanceNodeDrainSpec_DeepCopy = Renew MaintenanceNodeDrainSpec_DeepCopyInto"

definition MaintenanceNodeUncordonSpec_ty :: ty where
  "MaintenanceNodeUncordonSpec_ty = TStruct [TRef MaintenanceNodeSelector_ty]"

definition MaintenanceNodeUncordonSpec_DeepCopyInto :: copier where
  "MaintenanceNodeUncordonSpec_DeepCopyInto =
     Into [Renew Assign]"

definition MaintenanceNodeUncordonSpec_DeepCopy :: copier where
  "MaintenanceNodeUncordonSpec_DeepCopy = Renew MaintenanceNodeUncordonSpec_DeepCopyInto"

definition MaintenanceStage_ty :: "external \<Rightarrow> ty" where
  "MaintenanceStage_ty X = TStruct [TPrim, TPrim, TPrim, TRef MaintenanceNodeDrainSpec_ty,
       TRef MaintenanceNodeUncordonSpec_ty, TRef (ex_Pod X)]"

definition MaintenanceStage_DeepCopyInto :: "external \<Rightarrow> copier" where
  "MaintenanceStage_DeepCopyInto X =
     Into [Assign, Assign, Assign, Renew MaintenanceNodeDrainSpec_DeepCopyInto,
       Renew MaintenanceNodeUncordonSpec_DeepCopyInto, Renew (full (ex_Pod X))]"

definition MaintenanceStage_DeepCopy :: "external \<Rightarrow> copier" where
  "MaintenanceStage_DeepCopy X = Renew (MaintenanceStage_DeepCopyInto X)"

definition ObjectNameRef_ty :: ty where
  "ObjectNameRef_ty = TStruct [TPrim, TRef ValueFrom_ty, TPrim]"

definition ObjectNameRef_DeepCopyInto :: copier where
  "ObjectNameRef_DeepCopyInto =
     Into [Assign, Renew Assign, Assign]"

definition ObjectNameRef_DeepCopy :: copier where
  "ObjectNameRef_DeepCopy = Renew ObjectNameRef_DeepCopyInto"

definition ObjectNameKeyRef_ty :: ty where
  "ObjectNameKeyRef_ty = TStruct [ObjectNameRef_ty, TPrim, TRef ValueFrom_ty, TPrim]"

definition ObjectNameKeyRef_DeepCopyInto :: copier where
  "ObjectNameKeyRef_DeepCopyInto =
     Into [ObjectNameRef_DeepCopyInto, Assign, Renew Assign, Assign]"

definition ObjectNameKeyRef_DeepCopy :: copier where
  "ObjectNameKeyRef_DeepCopy = Renew ObjectNameKeyRef_DeepCopyInto"

definition NodeSpecificEnvValueFrom_ty :: ty where
  "NodeSpecificEnvValueFrom_ty = TStruct [TRef ObjectNameKeyRef_ty, TRef ObjectNameKeyRef_ty]"

definition NodeSpecificEnvValueFrom_DeepCopyInto :: copier where
  "NodeSpecificEnvValueFrom_DeepCopyInto =
     Into [Renew ObjectNameKeyRef_DeepCopyInto, Renew ObjectNameKeyRef_DeepCopyInto]"

definition NodeSpecificEnvValueFrom_DeepCopy :: copier where
  "NodeSpecificEnvValueFrom_DeepCopy = Renew NodeSpecificEnvValueFrom_DeepCopyInto"

definition NodeSpecificEnvVar_ty :: ty where
  "NodeSpecificEnvVar_ty = TStruct [TPrim, TPrim, NodeSpecificEnvValueFrom_ty]"

definition NodeSpecificEnvVar_DeepCopyInto :: copier where
  "NodeSpecificEnvVar_DeepCopyInto =
     Into [Assign, Assign, NodeSpecificEnvValueFrom_DeepCopyInto]"

definition NodeSpecificEnvVar_DeepCopy :: copier where
  "NodeSpecificEnvVar_DeepCopy = Renew NodeSpecificEnvVar_DeepCopyInto"

definition NodeSpecificEnvFromSource_ty :: ty where
  "NodeSpecificEnvFromSource_ty = TStruct [TPrim, TRef ObjectNameRef_ty, TRef ObjectNameRef_ty]"

definition NodeSpecificEnvFromSource_DeepCopyInto :: copier where
  "NodeSpecificEnvFromSource_DeepCopyInto =
     Into [Assign, Renew ObjectNameRef_DeepCopyInto, Renew ObjectNameRef_DeepCopyInto]"

definition NodeSpecificEnvFromSource_DeepCopy :: copier where
  "NodeSpecificEnvFromSource_DeepCopy = Renew NodeSpecificEnvFromSource_DeepCopyInto"

definition MaintenanceSchedule_ty :: ty where
  "MaintenanceSchedule_ty = TStruct [TRef TPrim, TPrim, TRef TPrim, TPrim, TRef MaintenanceDependency_ty]"

definition MaintenanceSchedule_DeepCopyInto :: copier where
  "MaintenanceSchedule_DeepCopyInto =
     Into [Renew Assign, Assign, Renew Assign, Assign, Renew Assign]"

definition MaintenanceSchedule_DeepCopy :: copier where
  "MaintenanceSchedule_DeepCopy = Renew MaintenanceSchedule_DeepCopyInto"

definition MaintenanceSpec_ty :: "external \<Rightarrow> ty" where
  "MaintenanceSpec_ty X = TStruct [TRef TPrim, TPrim, TRef (TStruct [TPrim, TPrim]), TRef TPrim,
       TRef NodeSpecificEnvVar_ty, TRef NodeSpecificEnvFromSource_ty, TRef (ex_Toleration X),
       MaintenanceSchedule_ty, TRef (MaintenanceStage_ty X)]"

definition MaintenanceSpec_DeepCopyInto :: "external \<Rightarrow> copier" where
  "MaintenanceSpec_DeepCopyInto X =
     Into [Renew Assign, Assign, Renew Assign, Renew Assign, Renew NodeSpecificEnvVar_DeepCopyInto,
       Renew NodeSpecificEnvFromSource_DeepCopyInto, Renew (full (ex_Toleration X)),
       MaintenanceSchedule_DeepCopyInto, Renew (MaintenanceStage_DeepCopyInto X)]"

definition MaintenanceSpec_DeepCopy :: "external \<Rightarrow> copier" where
  "MaintenanceSpec_DeepCopy X = Renew (MaintenanceSpec_DeepCopyInto X)"

definition MaintenancePhaseAdmitted_ty :: ty where
  "MaintenancePhaseAdmitted_ty = TStruct [TRef TPrim, ResourceReference_ty, TRef TPrim, TRef TPrim]"

definition MaintenancePhaseAdmitted_DeepCopyInto :: copier where
  "MaintenancePhaseAdmitted_DeepCopyInto =
     Into [Renew Assign, Assign, Renew Assign, Renew Assign]"

definition MaintenancePhaseAdmitted_DeepCopy :: copier where
  "MaintenancePhaseAdmitted_DeepCopy = Renew MaintenancePhaseAdmitted_DeepCopyInto"

definition MaintenancePhaseScheduled_ty :: ty where
  "MaintenancePhaseScheduled_ty = TStruct [TRef TPrim, ResourceReference_ty, TPrim, Hash_ty]"

definition MaintenancePhaseScheduled_DeepCopyInto :: copier where
  "MaintenancePhaseScheduled_DeepCopyInto =
     Into [Renew Assign, Assign, Assign, Assign]"

definition MaintenancePhaseScheduled_DeepCopy :: copier where
  "MaintenancePhaseScheduled_DeepCopy = Renew MaintenancePhaseScheduled_DeepCopyInto"

definition MaintenancePhaseFinished_ty :: ty where
  "MaintenancePhaseFinished_ty = TStruct [TRef TPrim, ResourceReference_ty]"

definition MaintenancePhaseFinished_DeepCopyInto :: copier where
  "MaintenancePhaseFinished_DeepCopyInto =
     Into [Renew Assign, Assign]"

definition MaintenancePhaseFinished_DeepCopy :: copier where
  "MaintenancePhaseFinished_DeepCopy = Renew MaintenancePhaseFinished_DeepCopyInto"

definition MaintenanceStatus_ty :: ty where
  "MaintenanceStatus_ty = TStruct [MaintenancePhaseAdmitted_ty, MaintenancePhaseScheduled_ty,
       MaintenancePhaseFinished_ty]"

definition MaintenanceStatus_DeepCopyInto :: copier where
  "MaintenanceStatus_DeepCopyInto =
     Into [MaintenancePhaseAdmitted_DeepCopyInto, MaintenancePhaseScheduled_DeepCopyInto,
       MaintenancePhaseFinished_DeepCopyInto]"

definition MaintenanceStatus_DeepCopy :: copier where
  "MaintenanceStatus_DeepCopy = Renew MaintenanceStatus_DeepCopyInto"

definition Maintenance_ty :: "external \<Rightarrow> ty" where
  "Maintenance_ty X = TStruct [TypeMeta_ty, ex_ObjectMeta X, MaintenanceSpec_ty X, MaintenanceStatus_ty]"

definition Maintenance_DeepCopyInto :: "external \<Rightarrow> copier" where
  "Maintenance_DeepCopyInto X =
     Into [Assign, full (ex_ObjectMeta X), MaintenanceSpec_DeepCopyInto X, MaintenanceStatus_DeepCopyInto]"

definition Maintenance_DeepCopy :: "external \<Rightarrow> copier" where
  "Maintenance_DeepCopy X = Renew (Maintenance_DeepCopyInto X)"

definition Maintenance_DeepCopyObject :: "external \<Rightarrow> copier" where
  "Maintenance_DeepCopyObject X = Maintenance_DeepCopy X"

definition MaintenanceList_ty :: "external \<Rightarrow> ty" where
  "MaintenanceList_ty X = TStruct [TypeMeta_ty, ex_ListMeta X, TRef (Maintenance_ty X)]"

definition MaintenanceList_DeepCopyInto :: "external \<Rightarrow> copier" where
  "MaintenanceList_DeepCopyInto X =
     Into [Assign, full (ex_ListMeta X), Renew (Maintenance_DeepCopyInto X)]"

definition MaintenanceList_DeepCopy :: "external \<Rightarrow> copier" where
  "MaintenanceList_DeepCopy X = Renew (MaintenanceList_DeepCopyInto X)"

definition MaintenanceList_DeepCopyObject :: "external \<Rightarrow> copier" where
  "MaintenanceList_DeepCopyObject X = MaintenanceList_DeepCopy X"

definition MaintenanceJobSpec_ty :: "external \<Rightarrow> ty" where
  "MaintenanceJobSpec_ty X = TStruct [TPrim, TPrim, TRef (MaintenanceStage_ty X)]"

definition MaintenanceJobSpec_DeepCopyInto :: "external \<Rightarrow> copier" where
  "MaintenanceJobSpec_DeepCopyInto X =
     Into [Assign, Assign, Renew (MaintenanceStage_DeepCopyInto X)]"

definition MaintenanceJobSpec_DeepCopy :: "external \<Rightarrow> copier" where
  "MaintenanceJobSpec_DeepCopy X = Renew (MaintenanceJobSpec_DeepCopyInto X)"

definition MaintenanceJobStageStatus_ty :: ty where
  "MaintenanceJobStageStatus_ty = TStruct [TPrim, TRef TPrim, TRef TPrim, TPrim, TPrim, TPrim, TPrim, TPrim]"

definition MaintenanceJobStageStatus_DeepCopyInto :: copier where
  "MaintenanceJobStageStatus_DeepCopyInto =
     Into [Assign, Renew Assign, Renew Assign, Assign, Assign, Assign, Assign, Assign]"

definition MaintenanceJobStageStatus_DeepCopy :: copier where
  "MaintenanceJobStageStatus_DeepCopy = Renew MaintenanceJobStageStatus_DeepCopyInto"

definition MaintenanceJobStatus_ty :: ty where
  "MaintenanceJobStatus_ty = TStruct [TRef TPrim, TRef TPrim, TRef MaintenanceJobStageStatus_ty]"

definition MaintenanceJobStatus_DeepCopyInto :: copier where
  "MaintenanceJobStatus_DeepCopyInto =
     Into [Renew Assign, Renew Assign, Renew MaintenanceJobStageStatus_DeepCopyInto]"

definition MaintenanceJobStatus_DeepCopy :: copier where
  "MaintenanceJobStatus_DeepCopy = Renew MaintenanceJobStatus_DeepCopyInto"

definition MaintenanceJob_ty :: "external \<Rightarrow> ty" where
  "MaintenanceJob_ty X = TStruct [TypeMeta_ty, ex_ObjectMeta X, MaintenanceJobSpec_ty X,
       MaintenanceJobStatus_ty]"

definition MaintenanceJob_DeepCopyInto :: "external \<Rightarrow> copier" where
  "MaintenanceJob_DeepCopyInto X =
     Into [Assign, full (ex_ObjectMeta X), MaintenanceJobSpec_DeepCopyInto X,
       MaintenanceJobStatus_DeepCopyInto]"

definition MaintenanceJob_DeepCopy :: "external \<Rightarrow> copier" where
  "MaintenanceJob_DeepCopy X = Renew (MaintenanceJob_DeepCopyInto X)"

definition MaintenanceJob_DeepCopyObject :: "external \<Rightarrow> copier" where
  "MaintenanceJob_DeepCopyObject X = MaintenanceJob_DeepCopy X"

definition MaintenanceJobList_ty :: "external \<Rightarrow> ty" where
  "MaintenanceJobList_ty X = TStruct [TypeMeta_ty, ex_ListMeta X, TRef (MaintenanceJob_ty X)]"

definition MaintenanceJobList_DeepCopyInto :: "external \<Rightarrow> copier" where
  "MaintenanceJobList_DeepCopyInto X =
     Into [Assign, full (ex_ListMeta X), Renew (MaintenanceJob_DeepCopyInto X)]"

definition MaintenanceJobList_DeepCopy :: "external \<Rightarrow> copier" where
  "MaintenanceJobList_DeepCopy X = Renew (MaintenanceJobList_DeepCopyInto X)"

definition MaintenanceJobList_DeepCopyObject :: "external \<Rightarrow> copier" where
  "MaintenanceJobList_DeepCopyObject X = MaintenanceJobList_DeepCopy X"

lemmas deep_copy_defs =
  Hash_DeepCopyInto_def MaintenanceDependency_DeepCopyInto_def ResourceReference_DeepCopyInto_def
  ValueFrom_DeepCopyInto_def MaintenanceNodeSelector_DeepCopyInto_def
  MaintenanceNodeDrainSpec_DeepCopyInto_def MaintenanceNodeUncordonSpec_DeepCopyInto_def MaintenanceStage_DeepCopyInto_def
  ObjectNameRef_DeepCopyInto_def ObjectNameKeyRef_DeepCopyInto_def NodeSpecificEnvValueFrom_DeepCopyInto_def
  NodeSpecificEnvVar_DeepCopyInto_def NodeSpecificEnvFromSource_DeepCopyInto_def MaintenanceSchedule_DeepCopyInto_def
  MaintenanceSpec_DeepCopyInto_def MaintenancePhaseAdmitted_DeepCopyInto_def MaintenancePhaseScheduled_DeepCopyInto_def
  MaintenancePhaseFinished_DeepCopyInto_def MaintenanceStatus_DeepCopyInto_def Maintenance_DeepCopyInto_def
  MaintenanceList_DeepCopyInto_def MaintenanceJobSpec_DeepCopyInto_def MaintenanceJobStageStatus_DeepCopyInto_def
  MaintenanceJobStatus_DeepCopyInto_def MaintenanceJob_DeepCopyInto_def MaintenanceJobList_DeepCopyInto_def

lemmas type_defs = TypeMeta_ty_def
  Hash_ty_def MaintenanceDependency_ty_def ResourceReference_ty_def ObjectFieldSelector_ty_def
  ValueFrom_ty_def MaintenanceNodeSelector_ty_def MaintenanceNodeDrainSpec_ty_def MaintenanceNodeUncordonSpec_ty_def
  MaintenanceStage_ty_def ObjectNameRef_ty_def ObjectNameKeyRef_ty_def NodeSpecificEnvValueFrom_ty_def
  NodeSpecificEnvVar_ty_def NodeSpecificEnvFromSource_ty_def MaintenanceSchedule_ty_def MaintenanceSpec_ty_def
  MaintenancePhaseAdmitted_ty_def MaintenancePhaseScheduled_ty_def MaintenancePhaseFinished_ty_def MaintenanceStatus_ty_def
  Maintenance_ty_def MaintenanceList_ty_def MaintenanceJobSpec_ty_def MaintenanceJobStageStatus_ty_def
  MaintenanceJobStatus_ty_def MaintenanceJob_ty_def MaintenanceJobList_ty_def

section \<open>Deep copiers\<close>

text \<open>A struct by its fields.\<close>

lemma struct_simps:
  "has_ty h (TStruct ts) (Struct vs) \<longleftrightarrow> length ts = length vs \<and> (\<forall>i < length vs. has_ty h (ts ! i) (vs ! i))"
  "length ts = length vs \<Longrightarrow> addrs h (TStruct ts) (Struct vs) = (\<Union>i<length vs. addrs h (ts ! i) (vs ! i))"
  by (auto simp: list_all2_conv_all_nth set_zip)

lemma agree:
  "has_ty h t v \<Longrightarrow> (\<And>a. a \<in> addrs h t v \<Longrightarrow> a < length h' \<and> h' ! a = h ! a) \<Longrightarrow>
   has_ty h' t v \<and> read h' t v = read h t v \<and> addrs h' t v = addrs h t v"
proof (induction t arbitrary: v)
  case TPrim
  then show ?case by (simp split: gval.splits)
next
  case (TStruct ts)
  then obtain vs where v: "v = Struct vs" by (simp split: gval.splits)
  have l: "length ts = length vs" using TStruct.prems(1) v by (simp add: list_all2_conv_all_nth)
  have "has_ty h' (ts ! i) (vs ! i) \<and> read h' (ts ! i) (vs ! i) = read h (ts ! i) (vs ! i) \<and>
      addrs h' (ts ! i) (vs ! i) = addrs h (ts ! i) (vs ! i)" if i: "i < length vs" for i
  proof (rule TStruct.IH)
    show "ts ! i \<in> set ts" using i l by simp
    show "has_ty h (ts ! i) (vs ! i)" using TStruct.prems(1) v i l by (simp add: list_all2_conv_all_nth)
    show "a < length h' \<and> h' ! a = h ! a" if "a \<in> addrs h (ts ! i) (vs ! i)" for a
    proof -
      have "a \<in> addrs h (TStruct ts) (Struct vs)" unfolding struct_simps(2) [OF l] using that i by auto
      then show ?thesis using TStruct.prems(2) unfolding v by blast
    qed
  qed
  then show ?case using v l by (auto simp: list_all2_conv_all_nth set_zip intro!: nth_equalityI)
next
  case (TRef t)
  show ?case
  proof (cases v)
    case (Ref p)
    show ?thesis
    proof (cases p)
      case (Some a)
      then have a: "a < length h'" "h' ! a = h ! a" "\<forall>x \<in> set (h ! a). has_ty h t x"
        using TRef.prems Ref by (auto simp: list_all_iff)
      have "has_ty h' t x \<and> read h' t x = read h t x \<and> addrs h' t x = addrs h t x" if "x \<in> set (h ! a)" for x
        using TRef.IH [of x] TRef.prems(2) a(3) that Ref Some by auto
      then show ?thesis using a Ref Some by (auto simp: list_all_iff)
    qed (use Ref in simp)
  qed (use TRef.prems(1) in simp_all)
qed

text \<open>Old cells stay as they are, and everything reached from the copy is new.\<close>

definition keeps :: "memory \<Rightarrow> memory \<Rightarrow> bool" where
  "keeps h h' \<longleftrightarrow> length h \<le> length h' \<and> (\<forall>a < length h. h' ! a = h ! a)"

lemma keeps_trans: "keeps a b \<Longrightarrow> keeps b c \<Longrightarrow> keeps a c"
  by (auto simp: keeps_def)

lemma addrs_bound: "has_ty h t v \<Longrightarrow> a \<in> addrs h t v \<Longrightarrow> a < length h"
proof (induction t arbitrary: v)
  case (TStruct ts)
  then obtain vs where v: "v = Struct vs" by (auto split: gval.splits)
  then have l: "length ts = length vs" "\<forall>i < length vs. has_ty h (ts ! i) (vs ! i)"
    using TStruct.prems(1) unfolding v struct_simps by auto
  from TStruct.prems(2) obtain i where i: "i < length vs" "a \<in> addrs h (ts ! i) (vs ! i)"
    unfolding v struct_simps(2) [OF l(1)] by auto
  then show ?case using TStruct.IH [of "ts ! i" "vs ! i"] l by simp
next
  case (TRef t)
  then show ?case by (auto simp: list_all_iff split: gval.splits option.splits)
qed simp

lemma keeps_agree:
  "keeps h h' \<Longrightarrow> has_ty h t v \<Longrightarrow> has_ty h' t v \<and> read h' t v = read h t v \<and> addrs h' t v = addrs h t v"
  by (rule agree) (auto simp: keeps_def dest: addrs_bound intro: less_le_trans)

definition copied :: "ty \<Rightarrow> gval \<Rightarrow> memory \<Rightarrow> gval \<Rightarrow> memory \<Rightarrow> bool" where
  "copied t v h v' h' \<longleftrightarrow> keeps h h' \<and> has_ty h' t v' \<and> read h' t v' = read h t v \<and>
     addrs h' t v' \<subseteq> {length h..<length h'}"

lemma run_fields_copied:
  assumes "list_all2 (\<lambda>f t. \<forall>v h. has_ty h t v \<longrightarrow> copied t v h (fst (f v h)) (snd (f v h))) fs ts"
    and "list_all2 (has_ty h) ts vs" and "run_fields fs vs h = (vs', h')"
  shows "keeps h h' \<and> list_all2 (has_ty h') ts vs' \<and> map2 (read h') ts vs' = map2 (read h) ts vs \<and>
    (\<Union> (set (map2 (addrs h') ts vs')) \<subseteq> {length h..<length h'})"
  using assms
proof (induction fs ts arbitrary: vs h vs' h' rule: list_all2_induct)
  case Nil
  then show ?case by (simp add: keeps_def)
next
  case (Cons f fs t ts)
  then obtain v us where v: "vs = v # us" "has_ty h t v" "list_all2 (has_ty h) ts us"
    by (auto simp: list_all2_Cons1)
  obtain v1 h1 where 1: "f v h = (v1, h1)" by force
  obtain us2 h2 where 2: "run_fields fs us h1 = (us2, h2)" by force
  have c: "copied t v h v1 h1" using Cons(1) v(2) 1 by (metis fst_conv snd_conv)
  then have k: "keeps h h1" by (simp add: copied_def)
  have us: "list_all2 (has_ty h1) ts us" "map2 (read h1) ts us = map2 (read h) ts us"
    using v(3) keeps_agree [OF k] by (auto simp: list_all2_conv_all_nth set_zip)
  note ih = Cons(3) [OF us(1) 2]
  have v2: "has_ty h2 t v1 \<and> read h2 t v1 = read h1 t v1 \<and> addrs h2 t v1 = addrs h1 t v1"
    using ih c keeps_agree unfolding copied_def by blast
  have "vs' = v1 # us2" "h' = h2" using Cons.prems(2) v(1) 1 2 by simp_all
  moreover have "length h \<le> length h1" "length h1 \<le> length h2" using k ih by (simp_all add: keeps_def)
  ultimately show ?case
    using v c ih us(2) v2 keeps_trans [OF k] by (auto simp: copied_def)
qed

lemma flat_copied: "flat t \<Longrightarrow> has_ty h t v \<Longrightarrow> addrs h t v = {}"
proof (induction t arbitrary: v)
  case (TStruct ts)
  then show ?case by (auto simp: list_all_iff list_all2_conv_all_nth set_zip split: gval.splits)
qed simp_all

lemma deep_copied: "deep c t \<Longrightarrow> has_ty h t v \<Longrightarrow> copied t v h (fst (copy c v h)) (snd (copy c v h))"
proof (induction c arbitrary: t v h)
  case Assign
  then show ?case using flat_copied by (simp add: copied_def keeps_def)
next
  case (Into cs)
  then obtain ts vs where tv: "t = TStruct ts" "v = Struct vs" "list_all2 (\<lambda>p t. p t) (map deep cs) ts"
      "list_all2 (has_ty h) ts vs"
    by (auto simp: list_all2_map1 split: ty.splits gval.splits)
  obtain vs' h' where r: "run_fields (map copy cs) vs h = (vs', h')" by force
  have "list_all2 (\<lambda>f t. \<forall>v h. has_ty h t v \<longrightarrow> copied t v h (fst (f v h)) (snd (f v h))) (map copy cs) ts"
    using tv(3) Into.IH by (auto simp: list_all2_conv_all_nth)
  from run_fields_copied [OF this tv(4) r] show ?case
    using tv r by (auto simp: copied_def list_all2_map1 zip_map1 o_def split_def)
next
  case (Renew c)
  then obtain t1 where t: "t = TRef t1" "deep c t1" by (auto split: ty.splits)
  show ?case
  proof (cases v)
    case (Ref p)
    show ?thesis
    proof (cases p)
      case None
      then show ?thesis using Ref t by (simp add: copied_def keeps_def)
    next
      case (Some a)
      let ?h = "h @ [[]]" and ?n = "length (h ! a)"
      have a: "a < length h" "list_all (has_ty h t1) (h ! a)" using Renew.prems(2) t Ref Some by simp_all
      have k: "keeps h ?h" by (simp add: keeps_def nth_append)
      have old: "list_all2 (has_ty ?h) (replicate ?n t1) (h ! a)"
        "map (read ?h t1) (h ! a) = map (read h t1) (h ! a)"
        using a(2) keeps_agree [OF k] by (auto simp: list_all2_conv_all_nth list_all_iff)
      obtain vs' h' where r: "run_fields (replicate ?n (copy c)) (h ! a) ?h = (vs', h')" by force
      have "list_all2 (\<lambda>f t. \<forall>v h. has_ty h t v \<longrightarrow> copied t v h (fst (f v h)) (snd (f v h)))
          (replicate ?n (copy c)) (replicate ?n t1)"
        using Renew.IH [OF t(2)] by (simp add: list_all2_conv_all_nth)
      note f = run_fields_copied [OF this old(1) r]
      then have l: "length vs' = ?n" "length h < length h'" by (auto simp: list_all2_lengthD keeps_def dest: list_all2_lengthD)
      let ?h3 = "h'[length h := vs']"
      have new: "has_ty ?h3 t1 x \<and> read ?h3 t1 x = read h' t1 x \<and> addrs ?h3 t1 x = addrs h' t1 x \<and>
          addrs h' t1 x \<subseteq> {Suc (length h)..<length h'}" if "x \<in> set vs'" for x
      proof -
        from that have "\<exists>i < length vs'. vs' ! i = x" by (simp only: in_set_conv_nth)
        then obtain i where i: "i < ?n" "vs' ! i = x" unfolding l(1) by blast
        have h: "has_ty h' t1 x" using f i by (auto simp: list_all2_conv_all_nth)
        have "addrs h' t1 x \<subseteq> \<Union> (set (map2 (addrs h') (replicate ?n t1) vs'))"
          using i l(1) by (force simp: set_zip)
        then have s: "addrs h' t1 x \<subseteq> {Suc (length h)..<length h'}" using f by auto
        have "b < length ?h3 \<and> ?h3 ! b = h' ! b" if "b \<in> addrs h' t1 x" for b using that s by auto
        from agree [OF h this] s show ?thesis by blast
      qed
      have "map2 (read h') (replicate ?n t1) vs' = map2 (read ?h) (replicate ?n t1) (h ! a)" using f by blast
      then have "map (read h' t1) vs' = map (read ?h t1) (h ! a)"
        using l(1) by (simp add: zip_replicate1 o_def)
      moreover have "map (read ?h3 t1) vs' = map (read h' t1) vs'"
        by (rule map_cong [OF refl]) (use new in blast)
      ultimately have tree: "map (read ?h3 t1) vs' = map (read h t1) (h ! a)" using old(2) by simp
      have "keeps h ?h3" using f k keeps_trans [OF k] by (auto simp: keeps_def)
      moreover have "has_ty ?h3 t (Ref (Some (length h)))" using l(2) new t(1) by (simp add: list_all_iff)
      moreover have "addrs ?h3 t (Ref (Some (length h))) \<subseteq> {length h..<length ?h3}" using l(2) new t(1) by fastforce
      moreover have "read ?h3 t (Ref (Some (length h))) = read h t v" using l(2) tree Ref Some t(1) by simp
      ultimately have "copied t v h (Ref (Some (length h))) ?h3" unfolding copied_def by blast
      then show ?thesis using Ref Some r by (simp add: Let_def)
    qed
  qed (use Renew.prems(2) t in simp_all)
qed

section \<open>Properties\<close>

lemma deep_full: "deep (full t) t"
  by (induction t) (auto simp: list_all2_map1 list_all2_map2 list_all2_conv_all_nth)

text \<open>Every generated function with the type it is for.\<close>

definition generated :: "external \<Rightarrow> (copier \<times> ty) list" where
  "generated X = [
     (Hash_DeepCopyInto, Hash_ty),
     (MaintenanceDependency_DeepCopyInto, MaintenanceDependency_ty),
     (ResourceReference_DeepCopyInto, ResourceReference_ty),
     (ValueFrom_DeepCopyInto, ValueFrom_ty),
     (MaintenanceNodeSelector_DeepCopyInto, MaintenanceNodeSelector_ty),
     (MaintenanceNodeDrainSpec_DeepCopyInto, MaintenanceNodeDrainSpec_ty),
     (MaintenanceNodeUncordonSpec_DeepCopyInto, MaintenanceNodeUncordonSpec_ty),
     (MaintenanceStage_DeepCopyInto X, MaintenanceStage_ty X),
     (ObjectNameRef_DeepCopyInto, ObjectNameRef_ty),
     (ObjectNameKeyRef_DeepCopyInto, ObjectNameKeyRef_ty),
     (NodeSpecificEnvValueFrom_DeepCopyInto, NodeSpecificEnvValueFrom_ty),
     (NodeSpecificEnvVar_DeepCopyInto, NodeSpecificEnvVar_ty),
     (NodeSpecificEnvFromSource_DeepCopyInto, NodeSpecificEnvFromSource_ty),
     (MaintenanceSchedule_DeepCopyInto, MaintenanceSchedule_ty),
     (MaintenanceSpec_DeepCopyInto X, MaintenanceSpec_ty X),
     (MaintenancePhaseAdmitted_DeepCopyInto, MaintenancePhaseAdmitted_ty),
     (MaintenancePhaseScheduled_DeepCopyInto, MaintenancePhaseScheduled_ty),
     (MaintenancePhaseFinished_DeepCopyInto, MaintenancePhaseFinished_ty),
     (MaintenanceStatus_DeepCopyInto, MaintenanceStatus_ty),
     (Maintenance_DeepCopyInto X, Maintenance_ty X),
     (MaintenanceList_DeepCopyInto X, MaintenanceList_ty X),
     (MaintenanceJobSpec_DeepCopyInto X, MaintenanceJobSpec_ty X),
     (MaintenanceJobStageStatus_DeepCopyInto, MaintenanceJobStageStatus_ty),
     (MaintenanceJobStatus_DeepCopyInto, MaintenanceJobStatus_ty),
     (MaintenanceJob_DeepCopyInto X, MaintenanceJob_ty X),
     (MaintenanceJobList_DeepCopyInto X, MaintenanceJobList_ty X)]"

lemma generated_deep: "(c, t) \<in> set (generated X) \<Longrightarrow> deep c t"
  unfolding generated_def list.set insert_iff prod.inject
  by (elim disjE conjE) (simp_all add: deep_copy_defs type_defs deep_full)

text \<open>C29: Every generated deep copy is deep: it keeps the memory as it was, the copy stands for the same
  tree as the original, no cell is reached from both, and so no assignment through the copy is seen
  through the original, nor the other way round. (No field with a pointer, a slice or a map is left to
  the plain assignment.)\<close>

theorem generated_copies_deep:
  assumes "(c, t) \<in> set (generated X)" and "has_ty h t v" and "copy c v h = (v', h')"
  shows "(\<forall>a < length h. h' ! a = h ! a) \<and> has_ty h' t v' \<and> read h' t v' = read h t v \<and>
    addrs h' t v \<inter> addrs h' t v' = {} \<and>
    (\<forall>a \<in> addrs h' t v'. read (h'[a := x]) t v = read h t v) \<and>
    (\<forall>a \<in> addrs h' t v. read (h'[a := x]) t v' = read h t v)"
proof -
  have c: "copied t v h v' h'" using deep_copied [OF generated_deep [OF assms(1)] assms(2)] assms(3) by simp
  then have k: "keeps h h'" and t: "has_ty h' t v'" "read h' t v' = read h t v"
    and new: "addrs h' t v' \<subseteq> {length h..<length h'}" by (simp_all add: copied_def)
  have o: "has_ty h' t v" "read h' t v = read h t v" "addrs h' t v = addrs h t v"
    using keeps_agree [OF k assms(2)] by simp_all
  have old: "addrs h' t v \<subseteq> {..<length h}" using o(3) addrs_bound [OF assms(2)] by auto
  have d: "addrs h' t v \<inter> addrs h' t v' = {}" using old new by fastforce
  have w: "read (h'[a := x]) t u = read h' t u" if "has_ty h' t u" "a \<notin> addrs h' t u" for a u
  proof -
    have "b < length (h'[a := x]) \<and> h'[a := x] ! b = h' ! b" if "b \<in> addrs h' t u" for b
      using that \<open>a \<notin> addrs h' t u\<close> addrs_bound [OF \<open>has_ty h' t u\<close> that] by (cases "a = b") auto
    from agree [OF that(1) this] show ?thesis by blast
  qed
  have "\<forall>a \<in> addrs h' t v'. read (h'[a := x]) t v = read h t v" using w [OF o(1)] o(2) d by auto
  moreover have "\<forall>a \<in> addrs h' t v. read (h'[a := x]) t v' = read h t v" using w [OF t(1)] t(2) d by auto
  ultimately show ?thesis using k t d by (simp add: keeps_def)
qed

text \<open>A maintenance job stage status with two times.\<close>

definition sample_memory :: memory where
  "sample_memory = [[Prim ''10''], [Prim ''20'']]"

definition sample_value :: gval where
  "sample_value = Struct [Prim ''s'', Ref (Some 0), Ref (Some 1), Prim [], Prim [], Prim [], Prim [], Prim []]"

theorem generated_copies_deep_witness:
  "\<exists>v h. copy MaintenanceJobStageStatus_DeepCopyInto sample_value sample_memory = (v, h) \<and>
     read h MaintenanceJobStageStatus_ty v = read sample_memory MaintenanceJobStageStatus_ty sample_value \<and>
     addrs h MaintenanceJobStageStatus_ty sample_value \<inter> addrs h MaintenanceJobStageStatus_ty v = {}"
proof -
  obtain v h where c: "copy MaintenanceJobStageStatus_DeepCopyInto sample_value sample_memory = (v, h)" by force
  have m: "(MaintenanceJobStageStatus_DeepCopyInto, MaintenanceJobStageStatus_ty) \<in> set (generated X)" for X
    by (simp add: generated_def)
  have "has_ty sample_memory MaintenanceJobStageStatus_ty sample_value"
    by (simp add: MaintenanceJobStageStatus_ty_def sample_memory_def sample_value_def)
  from generated_copies_deep [OF m this c] c show ?thesis by blast
qed

end
