(* ===== verification/MaintenanceProgress.thy ===== *)
theory MaintenanceProgress
  imports Controller
begin

text \<open>
  What the polls of a maintenance achieve (\<open>scheduleMaintenance\<close> in \<open>maintenance.go\<close>): a run that goes through
  leaves a job for every node that is eligible, and later runs create no other one for the node and its machine.
\<close>

section \<open>The created jobs of a run\<close>

text \<open>The run goes on with the object \<open>m\<close>, marked as scheduled, and the spec decoded from its snapshot.\<close>

definition goes_on :: "env \<Rightarrow> world \<Rightarrow> string \<Rightarrow> Maintenance \<Rightarrow> Maintenance \<Rightarrow> MaintenanceSpec \<Rightarrow> bool" where
  "goes_on E w n c m spec \<longleftrightarrow> fst (mark_scheduled E n c (log_effect (Clock (en_Now E (wd_Hist w))) w)) = Inr m \<and>
     fst (snapshot_spec E m w) = Inr spec"

lemma schedule_goes_on:
  assumes "map_of (wd_Mt w) n = Some c" and "due_now E w c" and "goes_on E w n c m spec"
  obtains w3 snap where "scheduleMaintenance E n w = schedule_jobs E m spec w3" and "wd_Mj w3 = wd_Mj w"
    and "writes (wd_Hist w3) = snap @ writes (wd_Hist w)" and "\<forall>e \<in> set snap. \<exists>x. e = MtUpdateStatus x"
proof -
  let ?w1 = "log_effect (Clock (en_Now E (wd_Hist w))) w"
  let ?w2 = "snd (mark_scheduled E n c ?w1)" let ?w3 = "snd (snapshot_spec E m ?w2)"
  have m: "fst (mark_scheduled E n c ?w1) = Inr m" "fst (snapshot_spec E m ?w2) = Inr spec"
    using assms(3) by (simp_all add: goes_on_def snapshot_spec_ok)
  have run: "scheduleMaintenance E n w = schedule_jobs E m spec ?w3"
    using m by (simp add: schedule_due [OF assms(1,2)] Let_def split_beta)
  obtain snap where "writes (wd_Hist ?w3) = snap @ writes (wd_Hist w)" "\<forall>e \<in> set snap. \<exists>x. e = MtUpdateStatus x"
    using mark_scheduled_run(1) [of E n c ?w1]
    by (cases "Scheduled c"; cases "en_MarshalSpec E (mt_Spec c)") auto
  with that [OF run] show ?thesis by simp
qed

text \<open>What the creation loop does with a generated job.\<close>

lemma created_search:
  assumes "j \<in> set js" and "int (length (wd_Mj w)) < MaxUint64 - 1"
  shows "\<exists>k. 1 \<le> k \<and> k < MaxUint64 \<and> (\<forall>i. 1 \<le> i \<and> i < k \<longrightarrow> other_machine w j i) \<and>
    ((\<exists>old. cached_as w j k = Some old \<and> same_machine j old) \<or> renamed (candidate j k) j \<in> set (created_jobs w js))"
proof -
  from search_result [OF assms(2), of j] obtain k where k: "1 \<le> k" "k < MaxUint64"
    "\<forall>i. 1 \<le> i \<and> i < k \<longrightarrow> other_machine w j i"
    "case search_name w j 1 (mj_Name j) of
       None \<Rightarrow> (\<exists>old. cached_as w j k = Some old \<and> same_machine j old)
     | Some n \<Rightarrow> n = candidate j k \<and> cached_as w j k = None" .
  show ?thesis
  proof (cases "search_name w j 1 (mj_Name j)")
    case None
    with k show ?thesis by auto
  next
    case (Some n)
    with assms(1) have "renamed n j \<in> set (created_jobs w js)" by (auto simp: created_jobs_elem)
    with k Some show ?thesis by auto
  qed
qed

text \<open>The cache holds the jobs it held and those created, under their names and for their machines.\<close>

definition caught_up :: "world \<Rightarrow> MaintenanceJob list \<Rightarrow> world \<Rightarrow> bool" where
  "caught_up w jobs w2 \<longleftrightarrow>
     (\<forall>key old. map_of (wd_Mj w) key = Some old \<longrightarrow> (\<exists>new. map_of (wd_Mj w2) key = Some new \<and> same_machine old new)) \<and>
     (\<forall>j \<in> set jobs. \<exists>new. map_of (wd_Mj w2) (mj_key (om_Namespace (mj_Meta j)) (mj_Name j)) = Some new \<and> same_machine j new)"

lemma caught_up_cached:
  assumes "caught_up w jobs w2" and "cached_as w j i = Some old"
  shows "\<exists>new. cached_as w2 j i = Some new \<and> same_machine old new"
  using assms unfolding caught_up_def cached_as_def by blast

lemma search_after_creation:
  assumes "j \<in> set js" and "int (length (wd_Mj w)) < MaxUint64 - 1" and "caught_up w (created_jobs w js) w2"
    and "mj_Name g = mj_Name j" and "om_Namespace (mj_Meta g) = om_Namespace (mj_Meta j)" and "same_machine j g"
  shows "search_name w2 g 1 (mj_Name g) = None"
proof -
  have c: "cached_as v g i = cached_as v j i" for v i using assms(4,5) by (simp add: cached_as_def candidate_def)
  from created_search [OF assms(1,2)] obtain k where k: "1 \<le> k" "k < MaxUint64"
    "\<forall>i. 1 \<le> i \<and> i < k \<longrightarrow> other_machine w j i"
    "(\<exists>old. cached_as w j k = Some old \<and> same_machine j old) \<or> renamed (candidate j k) j \<in> set (created_jobs w js)" by blast
  have "cached_as w2 g i \<noteq> None" if "1 \<le> i \<and> i < k" for i
    using k(3) that caught_up_cached [OF assms(3)] by (fastforce simp: c other_machine_iff)
  moreover have "\<exists>new. cached_as w2 g k = Some new \<and> same_machine g new"
    using k(4)
  proof
    assume "\<exists>old. cached_as w j k = Some old \<and> same_machine j old"
    with caught_up_cached [OF assms(3)] assms(6) show ?thesis by (metis c)
  next
    assume "renamed (candidate j k) j \<in> set (created_jobs w js)"
    with assms(3) have "\<exists>new. map_of (wd_Mj w2) (mj_key (om_Namespace (mj_Meta j)) (candidate j k)) = Some new \<and> same_machine j new"
      by (fastforce simp: caught_up_def renamed_def)
    then have "\<exists>new. cached_as w2 j k = Some new \<and> same_machine j new" unfolding cached_as_def .
    with assms(6) show ?thesis unfolding c by simp
  qed
  then obtain new where "cached_as w2 g k = Some new" "same_machine g new" by blast
  ultimately show ?thesis using k(1,2) by (intro search_finds [of 1 k _ _ _ new]) auto
qed

section \<open>Runs\<close>

text \<open>A run with satisfied dependencies creates jobs for the nodes it has listed.\<close>

lemma schedule_jobs_complete:
  assumes "ranges_all E" and "\<forall>dep \<in> set (sch_Depends (sp_Schedule spec)). dep_satisfied w dep"
    and "fst (schedule_jobs E m spec w) = Returns None"
  obtains nodes js where "en_NodeList E (wd_Hist w) (spec_selector E spec) = Inr nodes"
    and "wd_Hist (snd (schedule_jobs E m spec w)) =
      map MjCreate (rev (created_jobs w js)) @ NodeList (spec_selector E spec) # wd_Hist w"
    and "list_all2 (generated_for E m spec) (filter (eligible_node w spec) nodes) js"
proof -
  let ?deps = "sch_Depends (sp_Schedule spec)" and ?sel = "spec_selector E spec"
  obtain u where u: "check_deps E w ?deps [] = Returns (DepsMet u)"
    using check_deps_met [OF ranges_all_keys [OF assms(1)], of w ?deps "[]"] assms(2) by blast
  have blocked: "set u = (\<Union>dep \<in> set ?deps. blocked_nodes w dep)"
    using check_deps_nodes [OF ranges_all_keys [OF assms(1)] u] by simp
  have e: "(\<lambda>node. \<not> skip_node spec u node) = eligible_node w spec"
    using skip_node_iff [OF blocked] by (simp add: fun_eq_iff)
  obtain nodes where nodes: "en_NodeList E (wd_Hist w) ?sel = Inr nodes"
    using assms(3) u by (auto simp: schedule_jobs_def node_List_def spec_selector_def Let_def split: outcome.splits sum.splits if_splits)
  obtain js where js: "node_jobs E m spec u nodes = Returns (Inr js)"
    using assms(3) u nodes by (auto simp: schedule_jobs_def node_List_def spec_selector_def Let_def split: outcome.splits sum.splits if_splits)
  have "created_jobs (log_effect (NodeList ?sel) w) js = created_jobs w js" by (rule created_jobs_cache) simp
  then have "wd_Hist (snd (schedule_jobs E m spec w)) = map MjCreate (rev (created_jobs w js)) @ NodeList ?sel # wd_Hist w"
    by (simp add: schedule_jobs_run u nodes js create_jobs_history rev_map Let_def)
  moreover have "list_all2 (generated_for E m spec) (filter (eligible_node w spec) nodes) js"
    using js by (simp add: node_jobs_def collect_result e node_job_result)
  ultimately show ?thesis using that [OF nodes] by blast
qed

text \<open>Every job a run creates comes from a search of its name.\<close>

lemma schedule_jobs_searched:
  shows "\<exists>jobs. writes (wd_Hist (snd (schedule_jobs E m spec w))) = map MjCreate jobs @ writes (wd_Hist w) \<and>
    (\<forall>j \<in> set jobs. \<exists>node g name. generated_for E m spec node g \<and> search_name w g 1 (mj_Name g) = Some name \<and> j = renamed name g)"
proof (cases "writes (wd_Hist (snd (schedule_jobs E m spec w))) = writes (wd_Hist w)")
  case False
  let ?sel = "spec_selector E spec"
  from False obtain u nodes js where js: "node_jobs E m spec u nodes = Returns (Inr js)"
    and res: "snd (schedule_jobs E m spec w) = create_jobs E js (log_effect (NodeList ?sel) w)"
    by (rule schedule_jobs_created)
  have c: "created_jobs (log_effect (NodeList ?sel) w) js = created_jobs w js" by (rule created_jobs_cache) simp
  have "\<exists>node g name. generated_for E m spec node g \<and> search_name w g 1 (mj_Name g) = Some name \<and> j = renamed name g"
    if "j \<in> set (created_jobs w js)" for j
    using that node_jobs_elem [OF js] unfolding created_jobs_elem by metis
  then show ?thesis using res
    by (intro exI [of _ "rev (created_jobs w js)"]) (simp add: create_jobs_writes c rev_map)
qed (auto intro: exI [of _ "[]"])

lemma schedule_searched:
  assumes "map_of (wd_Mt w) n = Some c" and "Scheduled c"
  shows "\<exists>jobs. writes (wd_Hist (snd (scheduleMaintenance E n w))) = map MjCreate jobs @ writes (wd_Hist w) \<and>
    (\<forall>j \<in> set jobs. \<exists>spec node g name. generated_for E c spec node g \<and> search_name w g 1 (mj_Name g) = Some name \<and> j = renamed name g)"
proof (cases "due_now E w c")
  case False
  then have "writes (wd_Hist (snd (scheduleMaintenance E n w))) = writes (wd_Hist w)"
    using assms(1) by (intro schedule_not_due) simp
  then show ?thesis by (intro exI [of _ "[]"]) simp
next
  case True
  let ?w1 = "log_effect (Clock (en_Now E (wd_Hist w))) w"
  let ?w3 = "snd (snapshot_spec E c ?w1)"
  note run = schedule_due [OF assms(1) True] mark_scheduled_run(2) [OF assms(2)]
  show ?thesis
  proof (cases "fst (snapshot_spec E c ?w1)")
    case (Inl e)
    then have "writes (wd_Hist (snd (scheduleMaintenance E n w))) = writes (wd_Hist w)"
      by (simp add: run Let_def split_beta)
    then show ?thesis by (intro exI [of _ "[]"]) simp
  next
    case (Inr spec)
    then have r: "scheduleMaintenance E n w = schedule_jobs E c spec ?w3" by (simp add: run Let_def split_beta)
    have s: "search_name ?w3 g i x = search_name w g i x" for g i x by (rule search_name_cache) simp
    from schedule_jobs_searched [of E c spec ?w3] show ?thesis unfolding r s by (simp, blast)
  qed
qed

text \<open>The job is the one of the node and its machine.\<close>

definition job_of :: "Node \<Rightarrow> MaintenanceJob \<Rightarrow> bool" where
  "job_of node j \<longleftrightarrow> js_NodeName (mj_Spec j) = om_Name (nd_Meta node) \<and> js_MachineID (mj_Spec j) = nd_MachineID node"

lemma generated_for_job_of:
  "generated_for E m spec node j \<Longrightarrow> job_of node j" "generated_for E m spec node j \<Longrightarrow> job_of node (renamed name j)"
  by (simp_all add: job_of_def generated_for_simps renamed_def)

text \<open>A node is served by a run when the run created the job generated for it, or the cache held one for its
  machine under a name of the node's jobs.\<close>

definition served :: "env \<Rightarrow> Maintenance \<Rightarrow> MaintenanceSpec \<Rightarrow> world \<Rightarrow> MaintenanceJob list \<Rightarrow> Node \<Rightarrow> bool" where
  "served E m spec w jobs node \<longleftrightarrow>
     (\<exists>g name. generated_for E m spec node g \<and> prefix (mj_Name g) name \<and> renamed name g \<in> set jobs) \<or>
     (\<exists>name old. prefix (mt_Name m @ ''.'' @ om_Name (nd_Meta node)) name \<and>
        map_of (wd_Mj w) (mj_key (jobNamespace E) name) = Some old \<and> js_MachineID (mj_Spec old) = nd_MachineID node)"

lemma prefix_candidate: "prefix (mj_Name j) (candidate j k)"
  by (simp add: candidate_def)

lemma created_serves:
  assumes "generated_for E m spec node j" and "j \<in> set js" and "int (length (wd_Mj w)) < MaxUint64 - 1"
  shows "served E m spec w (created_jobs w js) node"
proof -
  from created_search [OF assms(2,3)] obtain k where
    "(\<exists>old. cached_as w j k = Some old \<and> same_machine j old) \<or> renamed (candidate j k) j \<in> set (created_jobs w js)" by blast
  then show ?thesis
  proof
    assume "\<exists>old. cached_as w j k = Some old \<and> same_machine j old"
    then show ?thesis using prefix_candidate [of j k] generated_for_simps [OF assms(1)]
      by (auto simp: served_def cached_as_def)
  next
    assume "renamed (candidate j k) j \<in> set (created_jobs w js)"
    then show ?thesis using prefix_candidate [of j k] assms(1) unfolding served_def by blast
  qed
qed

text \<open>A job generated later for the node and its machine finds the one there is, under whatever spec.\<close>

lemma no_second_job:
  assumes "generated_for E m spec node j" and "j \<in> set js" and "int (length (wd_Mj w)) < MaxUint64 - 1"
    and "caught_up w (created_jobs w js) w2" and "generated_for E2 m2 spec2 node2 g" and "mt_Name m2 = mt_Name m"
    and "jobNamespace E2 = jobNamespace E" and "job_of node g"
  shows "search_name w2 g 1 (mj_Name g) = None"
proof -
  note sim = generated_for_simps [OF assms(1)] generated_for_simps [OF assms(5)]
  have "mj_Name g = mj_Name j" using sim assms(6,8) by (simp add: job_of_def)
  moreover have "same_machine j g" using sim assms(8) by (simp add: job_of_def)
  ultimately show ?thesis using search_after_creation [OF assms(2,3,4), of g] sim assms(7) by simp
qed

text \<open>So no later run for the maintenance asks for another job for the node and its machine.\<close>

lemma no_later_job:
  assumes "generated_for E m spec node j" and "j \<in> set js" and "int (length (wd_Mj w)) < MaxUint64 - 1"
    and "caught_up w (created_jobs w js) w2" and "map_of (wd_Mt w2) n = Some c2" and "Scheduled c2"
    and "mt_Name c2 = mt_Name m" and "jobNamespace E2 = jobNamespace E"
  shows "\<exists>jobs2. writes (wd_Hist (snd (scheduleMaintenance E2 n w2))) = map MjCreate jobs2 @ writes (wd_Hist w2) \<and>
    (\<forall>j \<in> set jobs2. \<not> job_of node j)"
proof -
  from schedule_searched [OF assms(5,6), of E2] obtain jobs2 where
    w2: "writes (wd_Hist (snd (scheduleMaintenance E2 n w2))) = map MjCreate jobs2 @ writes (wd_Hist w2)"
    and g: "\<forall>j \<in> set jobs2. \<exists>spec node g name. generated_for E2 c2 spec node g \<and>
      search_name w2 g 1 (mj_Name g) = Some name \<and> j = renamed name g" by blast
  have "\<not> job_of node j2" if "j2 \<in> set jobs2" for j2
  proof
    assume "job_of node j2"
    moreover from g that obtain spec2 node2 g name where s: "generated_for E2 c2 spec2 node2 g"
      "search_name w2 g 1 (mj_Name g) = Some name" "j2 = renamed name g" by blast
    ultimately have "job_of node g" by (simp add: job_of_def renamed_def)
    from no_second_job [OF assms(1-4) s(1) assms(7,8) this] s(2) show False by simp
  qed
  with w2 show ?thesis by blast
qed

lemma list_all2_served: "list_all2 P xs ys \<Longrightarrow> x \<in> set xs \<Longrightarrow> \<exists>y \<in> set ys. P x y"
  by (induction rule: list_all2_induct) auto

section \<open>Properties\<close>

text \<open>C5: A run of \<open>scheduleMaintenance\<close> that goes through with all dependencies satisfied ends by listing the nodes
  with the label selector of the snapshot and creating jobs, and serves every node of that list that
  is eligible: the run asks the API server for the job generated for the node, or the cache holds one for its machine,
  under a name made from those of the maintenance and the node. And the node is served only once: when the informer has
  brought the jobs the run asked for, no later run for the maintenance, whatever its nodes and its spec, asks for another
  one for the node and its machine.\<close>

theorem every_node_served_once:
  assumes "ranges_all E" and "int (length (wd_Mj w)) < MaxUint64 - 1"
    and "map_of (wd_Mt w) n = Some c" and "due_now E w c" and "goes_on E w n c m spec"
    and "\<forall>dep \<in> set (sch_Depends (sp_Schedule spec)). dep_satisfied (snd (scheduleMaintenance E n w)) dep"
    and "fst (scheduleMaintenance E n w) = Returns None"
  shows "\<exists>jobs h snap nodes.
      wd_Hist (snd (scheduleMaintenance E n w)) = map MjCreate jobs @ NodeList (spec_selector E spec) # h \<and>
      writes h = snap @ writes (wd_Hist w) \<and> (\<forall>e \<in> set snap. \<exists>x. e = MtUpdateStatus x) \<and>
      en_NodeList E h (spec_selector E spec) = Inr nodes \<and>
      (\<forall>node \<in> set nodes. eligible_node (snd (scheduleMaintenance E n w)) spec node \<longrightarrow>
         served E m spec w jobs node \<and>
         (\<forall>E2 w2 c2. caught_up w jobs w2 \<and> map_of (wd_Mt w2) n = Some c2 \<and> Scheduled c2 \<and> mt_Name c2 = mt_Name m \<and>
            jobNamespace E2 = jobNamespace E \<longrightarrow>
            (\<exists>jobs2. writes (wd_Hist (snd (scheduleMaintenance E2 n w2))) = map MjCreate jobs2 @ writes (wd_Hist w2) \<and>
               (\<forall>j \<in> set jobs2. \<not> job_of node j))))"
proof -
  from schedule_goes_on [OF assms(3,4,5)] obtain w3 snap where
    run: "scheduleMaintenance E n w = schedule_jobs E m spec w3" and mj: "wd_Mj w3 = wd_Mj w"
    and snap: "writes (wd_Hist w3) = snap @ writes (wd_Hist w)" "\<forall>e \<in> set snap. \<exists>x. e = MtUpdateStatus x" by blast
  have world: "dep_satisfied (snd (scheduleMaintenance E n w)) = dep_satisfied w3"
    "eligible_node (snd (scheduleMaintenance E n w)) = eligible_node w3"
    by (rule dep_world_cong; simp add: run schedule_jobs_frame)+
  have deps: "\<forall>dep \<in> set (sch_Depends (sp_Schedule spec)). dep_satisfied w3 dep" using assms(6) by (simp add: world(1))
  have ret: "fst (schedule_jobs E m spec w3) = Returns None" using assms(7) by (simp add: run)
  obtain nodes js where nodes: "en_NodeList E (wd_Hist w3) (spec_selector E spec) = Inr nodes"
    and w: "wd_Hist (snd (schedule_jobs E m spec w3)) =
      map MjCreate (rev (created_jobs w3 js)) @ NodeList (spec_selector E spec) # wd_Hist w3"
    and js: "list_all2 (generated_for E m spec) (filter (eligible_node w3 spec) nodes) js"
    by (rule schedule_jobs_complete [OF assms(1) deps ret])
  have cj: "created_jobs w3 js = created_jobs w js" by (rule created_jobs_cache) (rule mj)
  have cu: "caught_up w (rev l) w2 = caught_up w l w2" "served E m spec w (rev l) node = served E m spec w l node" for l w2 node
    by (simp_all add: caught_up_def served_def)
  have made: "\<exists>j \<in> set js. generated_for E m spec node j" if "node \<in> set nodes" "eligible_node w3 spec node" for node
    using list_all2_served [OF js] that by simp
  note once = no_later_job [OF _ _ assms(2)]
  show ?thesis
    unfolding world(2) unfolding run w cj
  proof (rule exI [of _ "rev (created_jobs w js)"], rule exI [of _ "wd_Hist w3"], rule exI [of _ snap], rule exI [of _ nodes],
      intro conjI ballI impI allI)
    fix node assume "node \<in> set nodes" "eligible_node w3 spec node"
    from made [OF this] obtain j where j: "j \<in> set js" "generated_for E m spec node j" by blast
    show "served E m spec w (rev (created_jobs w js)) node"
      unfolding cu by (rule created_serves [OF j(2,1) assms(2)])
    fix E2 w2 c2 assume "caught_up w (rev (created_jobs w js)) w2 \<and> map_of (wd_Mt w2) n = Some c2 \<and> Scheduled c2 \<and>
      mt_Name c2 = mt_Name m \<and> jobNamespace E2 = jobNamespace E"
    with once [OF j(2,1)] show "\<exists>jobs2. writes (wd_Hist (snd (scheduleMaintenance E2 n w2))) = map MjCreate jobs2 @ writes (wd_Hist w2) \<and>
       (\<forall>j \<in> set jobs2. \<not> job_of node j)" by (simp only: cu)
  qed (use snap nodes in blast)+
qed

definition sample_marked :: Maintenance where
  "sample_marked = set_scheduled 100 (en_ThisPod sample_env_sched) ''spec'' ''hspec'' sample_admitted"

text \<open>An API server that answers a listing without a selector with another node than one with it.\<close>

definition selective_env :: env where
  "selective_env = sample_env_sched\<lparr>en_NodeList := \<lambda>_ sel. Inr [if sel = ''sel'' then sample_node else sample_node\<lparr>nd_MachineID := ''other''\<rparr>]\<rparr>"

lemma sample_goes_on:
  "map_of (wd_Mt sample_world_mt) ''mt'' = Some sample_admitted"
  "due_now selective_env sample_world_mt sample_admitted"
  "goes_on selective_env sample_world_mt ''mt'' sample_admitted sample_marked (mt_Spec sample_maintenance)"
proof -
  show "map_of (wd_Mt sample_world_mt) ''mt'' = Some sample_admitted" by (simp add: sample_world_mt_def)
  show "due_now selective_env sample_world_mt sample_admitted" by code_simp
  show "goes_on selective_env sample_world_mt ''mt'' sample_admitted sample_marked (mt_Spec sample_maintenance)"
    unfolding goes_on_def snapshot_spec_ok snapshot_ok_def by code_simp
qed

theorem every_node_served_once_witness:
  "\<exists>jobs h. wd_Hist (snd (scheduleMaintenance selective_env ''mt'' sample_world_mt)) = map MjCreate jobs @ NodeList ''sel'' # h \<and>
     served selective_env sample_marked (mt_Spec sample_maintenance) sample_world_mt jobs sample_node"
proof -
  let ?w = "snd (scheduleMaintenance selective_env ''mt'' sample_world_mt)"
  have spec: "sch_Depends (sp_Schedule (mt_Spec sample_maintenance)) = []" by code_simp
  have node: "eligible_node ?w (mt_Spec sample_maintenance) sample_node"
    by (simp add: eligible_node_def sample_node_def sample_defs)
  have sel: "spec_selector selective_env (mt_Spec sample_maintenance) = ''sel''" by code_simp
  have r: "ranges_all selective_env" "int (length (wd_Mj sample_world_mt)) < MaxUint64 - 1"
    by (simp_all add: ranges_all_def selective_env_def sample_env_sched_def sample_env_rec_def sample_world_mt_def sample_world_def MaxUint64_def)
  have n: "en_NodeList selective_env h ''sel'' = Inr [sample_node]" for h by (simp add: selective_env_def)
  have ret: "fst (scheduleMaintenance selective_env ''mt'' sample_world_mt) = Returns None" by code_simp
  from every_node_served_once [OF r sample_goes_on _ ret] spec obtain jobs h nodes where
    j: "wd_Hist ?w = map MjCreate jobs @ NodeList (spec_selector selective_env (mt_Spec sample_maintenance)) # h"
    "en_NodeList selective_env h (spec_selector selective_env (mt_Spec sample_maintenance)) = Inr nodes"
    "\<forall>node \<in> set nodes. eligible_node ?w (mt_Spec sample_maintenance) node \<longrightarrow>
       served selective_env sample_marked (mt_Spec sample_maintenance) sample_world_mt jobs node"
    by (metis (no_types, lifting) ball_empty list.set(1))
  then have "nodes = [sample_node]" using n [of h] by (simp add: sel)
  with j node show ?thesis by (auto simp: sel)
qed

end
