(* ===== verification/Rounds.thy ===== *)
theory Rounds
  imports Controller
begin

text \<open>
  Rounds of a schedule queue that holds one entry: it expires, is taken, and processing it may put it back. What
  the theories of the progress of maintenances and maintenance jobs share.
\<close>

section \<open>A queue with one entry\<close>

text \<open>The queue is running and holds entries of these keys, and nothing is delivered.\<close>

definition holds_only :: "string list \<Rightarrow> (string, unit) TimeoutQueue \<Rightarrow> bool" where
  "holds_only ns q \<longleftrightarrow> tq_keys q = ns \<and> tq_expired q = [] \<and> tq_started q \<and> \<not> tq_stopped q \<and> tq_blackList q = []"

text \<open>The queue is sorted when its first entry expires.\<close>

definition expire_head :: "(string, unit) TimeoutQueue \<Rightarrow> (string, unit) TimeoutQueue" where
  "expire_head q = tq_sort [] (unix_epoch + sint (td_expireAt (hd (tq_data q)))) q"

lemma UnixNano_expiry: "UnixNano (unix_epoch + sint (x :: 64 word)) = x"
  by (simp add: UnixNano_def)

lemma sort_frame: "tq_started (tq_sort [] now q) = tq_started q" "tq_stopped (tq_sort [] now q) = tq_stopped q"
  "tq_blackList (tq_sort [] now q) = tq_blackList q"
  by (auto simp: tq_sort_def Let_def split: list.split)

lemma expire_head_one:
  assumes "holds_only [n] q"
  obtains d where "td_Key d = n" and "tq_expired (expire_head q) = [d]"
    and "holds_only [] ((expire_head q)\<lparr>tq_expired := []\<rparr>)"
proof -
  obtain d where d: "tq_data q = [d]" "td_Key d = n" using assms by (auto simp: holds_only_def map_eq_Cons_conv)
  have due: "due (td_expireAt d) d" by (simp add: due_def Millisecond_def)
  have st: "\<not> tq_stopped q" using assms by (simp add: holds_only_def)
  have "tq_expired (expire_head q) = [d]" "tq_data (expire_head q) = []"
    using tq_sort_split [OF st, of "[]" "unix_epoch + sint (td_expireAt d)"] d due assms
    by (simp_all add: expire_head_def UnixNano_expiry holds_only_def)
  with that [of d] d(2) assms show ?thesis by (simp add: expire_head_def holds_only_def sort_frame)
qed

lemma expire_head_none: "holds_only [] q \<Longrightarrow> expire_head q = q"
  by (simp add: holds_only_def expire_head_def tq_sort_def)

lemma holds_offer: "holds_only [] q \<Longrightarrow> holds_only [n] (snd (OfferWithTime n () t now q))"
  by (simp add: holds_only_def OfferWithTime_def Let_def)

section \<open>Eventually\<close>

text \<open>A sequence of states that stays in one phase as long as something grows below a bound, and then enters
  another one which it does not leave.\<close>

lemma eventually_done:
  fixes len :: "nat \<Rightarrow> nat"
  assumes "active 0" and "\<And>k. active k \<Longrightarrow> len k < len (Suc k) \<and> active (Suc k) \<or> ended (Suc k)"
    and "\<And>k. active k \<Longrightarrow> H \<le> len k \<Longrightarrow> ended (Suc k)" and "\<And>k. ended k \<Longrightarrow> ended (Suc k)"
  obtains K where "\<forall>k \<le> K. active k" and "\<forall>k > K. ended k"
proof -
  have grow: "(\<exists>i < k. active i \<and> ended (Suc i) \<and> (\<forall>j \<le> i. active j)) \<or> active k \<and> k \<le> len k \<and> (\<forall>j \<le> k. active j)" for k
  proof (induction k)
    case 0
    with assms(1) show ?case by simp
  next
    case (Suc k)
    then show ?case
    proof
      assume a: "active k \<and> k \<le> len k \<and> (\<forall>j \<le> k. active j)"
      from assms(2) [of k] a show ?case by (metis Suc_le_eq le_SucE le_trans less_Suc_eq not_less)
    qed (meson less_SucI)
  qed
  obtain i where i: "ended (Suc i)" "\<forall>j \<le> i. active j"
    using grow [of H] assms(3) by blast
  have "ended (Suc i + d)" for d by (induction d) (use i(1) assms(4) in auto)
  then have "\<forall>k > i. ended k" by (metis Suc_le_eq le_Suc_ex)
  with that i(2) show ?thesis by blast
qed

end
