(* ===== verification/MaintenanceLife.thy ===== *)
theory MaintenanceLife
  imports Rounds
begin

text \<open>
  What becomes of a maintenance once it is in its queue (\<open>processMaintenanceSchedule\<close> in \<open>controller.go\<close>,
  \<open>enqueueMaintenanceForScheduling\<close> in \<open>maintenance.go\<close>): it is polled until its window has ended, and only
  then finished, whatever becomes of its jobs.
\<close>

section \<open>Rounds\<close>

text \<open>The jobs in the cache are \<open>js\<close>; the first entry of the queue of maintenances expires, and is taken and
  processed.\<close>

definition mt_round :: "env \<Rightarrow> (string \<times> MaintenanceJob) list \<Rightarrow> world \<Rightarrow> unit outcome \<times> world" where
  "mt_round E js w =
     (let w1 = w\<lparr>wd_Mj := js, wd_MtTQ := expire_head (wd_MtTQ w)\<rparr>
      in case tq_expired (wd_MtTQ w1) of
           [] \<Rightarrow> (Returns (), w1)
         | d # ds \<Rightarrow> processMaintenanceSchedule E (td_Key d) (set_mt_expired ds w1))"

fun mt_rounds :: "env \<Rightarrow> (nat \<Rightarrow> (string \<times> MaintenanceJob) list) \<Rightarrow> nat \<Rightarrow> world \<Rightarrow> world" where
  "mt_rounds E jobs 0 w = w"
| "mt_rounds E jobs (Suc k) w = snd (mt_round E (jobs k) (mt_rounds E jobs k w))"

section \<open>What a run does not do\<close>

text \<open>A status update that finishes a maintenance.\<close>

definition finishes :: "effect \<Rightarrow> bool" where
  "finishes e \<longleftrightarrow> (\<exists>m. e = MtUpdateStatus m \<and> Finished m)"

lemma set_scheduled_phases [simp]: "Finished (set_scheduled t r s h c) = Finished c"
  by (simp add: Finished_def set_scheduled_def)

lemma schedule_never_finishes:
  assumes "map_of (wd_Mt w) n = Some c" and "\<not> Finished c"
  shows "filter finishes (writes (wd_Hist (snd (scheduleMaintenance E n w)))) = filter finishes (writes (wd_Hist w))"
proof (cases "due_now E w c")
  case False
  then have "writes (wd_Hist (snd (scheduleMaintenance E n w))) = writes (wd_Hist w)"
    using assms(1) by (intro schedule_not_due) simp
  then show ?thesis by simp
next
  case True
  have mark: "filter finishes (writes (wd_Hist (snd (mark_scheduled E n c u)))) = filter finishes (writes (wd_Hist u))" for u
    using assms(2) by (simp add: mark_scheduled_run(1) finishes_def split: sum.split)
  have jobs: "filter finishes (writes (wd_Hist (snd (schedule_jobs E m spec u)))) = filter finishes (writes (wd_Hist u))" for m spec u
  proof (cases "writes (wd_Hist (snd (schedule_jobs E m spec u))) = writes (wd_Hist u)")
    case False
    then obtain v nodes js where
      "snd (schedule_jobs E m spec u) = create_jobs E js (log_effect (NodeList (spec_selector E spec)) u)"
      by (rule schedule_jobs_created)
    then show ?thesis by (simp add: create_jobs_writes filter_map o_def finishes_def flip: rev_map)
  qed simp
  show ?thesis
    unfolding schedule_due [OF assms(1) True] Let_def split_beta using mark jobs by (simp split: sum.split)
qed

section \<open>One round\<close>

text \<open>The maintenance waits in its queue, with the times it was admitted with, is not finished, and its snapshot
  can be resolved.\<close>

definition waits :: "env \<Rightarrow> Maintenance \<Rightarrow> string \<Rightarrow> world \<Rightarrow> bool" where
  "waits E c n w \<longleftrightarrow> holds_only [n] (wd_MtTQ w) \<and> tq_inv (wd_MtTQ w) \<and>
     (\<exists>d. map_of (wd_Mt w) n = Some d \<and> mt_Meta d = mt_Meta c \<and> admitted_of d = admitted_of c \<and> \<not> Finished d \<and>
        snapshot_resolvable E d)"

text \<open>The snapshot a run takes is the JSON that it would have decoded.\<close>

lemma maybe_snapshot_resolvable:
  assumes "snapshot_resolvable E d" and "maybe_snapshot E d d'" and "\<And>h. en_Now E h \<noteq> 0"
  shows "snapshot_resolvable E d'"
proof (cases "d' = d")
  case False
  then have "snapshot_json E d' = snapshot_json E d"
    using assms(2,3) by (auto simp: maybe_snapshot_def snapshot_taken_def snapshot_json_def Scheduled_def time_IsZero_def)
  with assms(1) show ?thesis by (simp add: snapshot_resolvable_def)
qed (use assms(1) in simp)

text \<open>The maintenance has left its queue, finished.\<close>

definition left_finished :: "string \<Rightarrow> world \<Rightarrow> bool" where
  "left_finished n w \<longleftrightarrow> holds_only [] (wd_MtTQ w) \<and> (\<exists>d. map_of (wd_Mt w) n = Some d \<and> Finished d)"

lemma process_returns:
  assumes "fst (scheduleMaintenance E n u) = Returns e"
    and "fst (enqueueMaintenanceForScheduling E n (sc_PollInterval (schedule_config E)) (snd (scheduleMaintenance E n u))) = Returns f"
  shows "processMaintenanceSchedule E n u = (Returns (),
    snd (enqueueMaintenanceForScheduling E n (sc_PollInterval (schedule_config E)) (snd (scheduleMaintenance E n u))))"
  using assms by (simp add: processMaintenanceSchedule_def split_beta)

lemma doEnqueue_holds:
  assumes "holds_only [] (wd_MtTQ w)" and "tq_inv (wd_MtTQ w)" and "mt_Name d = n" and "ad_ScheduleSince (admitted_of d) \<noteq> None"
  shows "fst (doEnqueue E d now t w) = Returns None \<and> holds_only [n] (wd_MtTQ (snd (doEnqueue E d now t w))) \<and>
    tq_inv (wd_MtTQ (snd (doEnqueue E d now t w))) \<and> length (wd_Hist w) \<le> length (wd_Hist (snd (doEnqueue E d now t w)))"
proof -
  have f: "tq_Find n (wd_MtTQ w) = None" using tq_Find_iff [OF assms(2)] assms(1) by (simp add: holds_only_def)
  have o: "fst (OfferWithTime n () at u (wd_MtTQ w)) = None" for at u
    using assms(1) by (simp add: offer_result holds_only_def)
  show ?thesis
    using assms(2-4) f o holds_offer [OF assms(1)]
    by (auto simp: doEnqueue_def mtTQ_offer_delay_def OfferWithDelay_def tq_offer_time_queue Let_def split_beta log_effect_def
      intro: tq_inv_offer)
qed

text \<open>The API server accepts status updates of maintenances, and stores the scheduled phase; what else it changes does
  not matter.\<close>

definition accepts_status :: "env \<Rightarrow> bool" where
  "accepts_status E \<longleftrightarrow> (\<forall>h m. \<exists>m'. en_MtUpdateStatus E h m = Inr m') \<and> stores_snapshots E"

text \<open>A round with the maintenance in the queue.\<close>

lemma mt_round_waiting:
  assumes w: "waits E c n w" and c: "mt_Name c = n" "\<not> Canceled c" "ad_ScheduleSince (admitted_of c) \<noteq> None"
    and E: "accepts_status E" "\<And>h. en_Now E h \<noteq> 0"
    and js: "\<forall>(key, j) \<in> set js. spec_stages j \<noteq> []"
  shows "fst (mt_round E js w) = Returns ()" (is "fst ?r = _")
    and "\<exists>h. length (wd_Hist w) \<le> length h \<and>
      (if Expired c (en_Now E h)
       then left_finished n (snd (mt_round E js w)) \<and> Clock (en_Now E h) \<in> set (wd_Hist (snd (mt_round E js w))) \<and>
         (\<exists>m. mt_Meta m = mt_Meta c \<and> filter finishes (writes (wd_Hist (snd (mt_round E js w)))) = MtUpdateStatus m # filter finishes (writes (wd_Hist w)))
       else waits E c n (snd (mt_round E js w)) \<and> length (wd_Hist w) < length (wd_Hist (snd (mt_round E js w))) \<and>
         filter finishes (writes (wd_Hist (snd (mt_round E js w)))) = filter finishes (writes (wd_Hist w)))"
proof -
  obtain d where d: "map_of (wd_Mt w) n = Some d" "mt_Meta d = mt_Meta c" "admitted_of d = admitted_of c" "\<not> Finished d"
      "snapshot_resolvable E d"
    and q: "holds_only [n] (wd_MtTQ w)" "tq_inv (wd_MtTQ w)" using w by (auto simp: waits_def)
  obtain td where td: "td_Key td = n" "tq_expired (expire_head (wd_MtTQ w)) = [td]"
    "holds_only [] ((expire_head (wd_MtTQ w))\<lparr>tq_expired := []\<rparr>)" by (rule expire_head_one [OF q(1)])
  define u where "u = set_mt_expired [] (w\<lparr>wd_Mj := js, wd_MtTQ := expire_head (wd_MtTQ w)\<rparr>)"
  have u: "map_of (wd_Mt u) n = Some d" "wd_Hist u = wd_Hist w" "wd_Mj u = js" "holds_only [] (wd_MtTQ u)" "tq_inv (wd_MtTQ u)"
    using d td(3) tq_inv_sort [OF q(2), of "[]"] by (simp_all add: u_def set_mt_expired_def expire_head_def)
  have run: "mt_round E js w = processMaintenanceSchedule E n u"
    using td by (simp add: mt_round_def u_def)
  let ?v = "snd (scheduleMaintenance E n u)" and ?d = "sc_PollInterval (schedule_config E)"
  have "\<not> panics (fst (scheduleMaintenance E n u))"
    using E(1) u(1,3) d(5) js
    by (intro schedule_returns) (auto simp: accepts_status_def jobs_have_stages_def split: prod.splits)
  then obtain e where e: "fst (scheduleMaintenance E n u) = Returns e" by (metis not_panics_iff)
  note returns = process_returns [OF e]
  obtain d' where d': "map_of (wd_Mt ?v) n = Some d'" "same_but_scheduled d d'" "snapshot_resolvable E d'"
    using schedule_keeps_cached [OF u(1)] maybe_snapshot_same maybe_snapshot_resolvable [OF d(5) _ E(2)] by blast
  note ph = same_but_scheduled_phases [OF d'(2)]
  let ?h = "wd_Hist ?v" and ?now = "en_Now E (wd_Hist ?v)"
  have x: "Expired d' t = Expired c t" for t using ph d(3) by (simp add: phase_defs)
  have cd: "\<not> Canceled d'" "\<not> Finished d'" "mt_Name d' = n" "mt_Meta d' = mt_Meta c" "admitted_of d' = admitted_of c"
    using ph c d d'(2) by (simp_all add: phase_defs same_but_scheduled_def)
  have len: "length (wd_Hist w) \<le> length ?h" using schedule_history [of E n u] u(2) by auto
  have fin: "filter finishes (writes ?h) = filter finishes (writes (wd_Hist w))"
    using schedule_never_finishes [OF u(1) d(4)] u(2) by simp
  have v: "holds_only [] (wd_MtTQ ?v)" "tq_inv (wd_MtTQ ?v)" using u(4,5) by simp_all
  have main: "fst (mt_round E js w) = Returns () \<and> (if Expired c ?now
       then left_finished n (snd (mt_round E js w)) \<and> Clock ?now \<in> set (wd_Hist (snd (mt_round E js w))) \<and>
         (\<exists>m. mt_Meta m = mt_Meta c \<and> filter finishes (writes (wd_Hist (snd (mt_round E js w)))) = MtUpdateStatus m # filter finishes (writes (wd_Hist w)))
       else waits E c n (snd (mt_round E js w)) \<and> length (wd_Hist w) < length (wd_Hist (snd (mt_round E js w))) \<and>
         filter finishes (writes (wd_Hist (snd (mt_round E js w)))) = filter finishes (writes (wd_Hist w)))"
  proof (cases "Expired c ?now")
    case True
    let ?m = "set_finished (en_Now E (Clock ?now # ?h)) (en_ThisPod E) d'"
    let ?w2 = "snd (enqueueMaintenanceForScheduling E n ?d ?v)"
    obtain m2 where m2: "en_MtUpdateStatus E (Clock (en_Now E (Clock ?now # ?h)) # Clock ?now # ?h) ?m = Inr m2"
      using E(1) by (auto simp: accepts_status_def)
    have m: "Finished ?m" by (simp add: Finished_def time_IsZero_def E(2))
    have enq: "fst (enqueueMaintenanceForScheduling E n ?d ?v) = Returns None" "wd_MtTQ ?w2 = wd_MtTQ ?v"
      "writes (wd_Hist ?w2) = MtUpdateStatus ?m # writes ?h" "map_of (wd_Mt ?w2) n = Some ?m" "Clock ?now \<in> set (wd_Hist ?w2)"
      using d'(1) cd True x m2
      by (simp_all add: enqueueMaintenanceForScheduling_def getMaintenanceFromCache_def Let_def mt_UpdateStatus_def)
    have "mt_round E js w = (Returns (), ?w2)" using run returns [OF enq(1)] by simp
    moreover have "left_finished n ?w2" using enq(2,4) m v(1) by (simp add: left_finished_def)
    moreover have "filter finishes (writes (wd_Hist ?w2)) = MtUpdateStatus ?m # filter finishes (writes (wd_Hist w))"
      using enq(3) m fin by (simp add: finishes_def)
    moreover have "mt_Meta ?m = mt_Meta c" using cd(4) by simp
    ultimately show ?thesis using True enq(5) by simp
  next
    case False
    let ?w1 = "log_effect (Clock ?now) ?v"
    let ?w2 = "snd (doEnqueue E d' ?now ?d ?w1)"
    have enq: "enqueueMaintenanceForScheduling E n ?d ?v = doEnqueue E d' ?now ?d ?w1"
      using d'(1) cd(1,2) False x by (intro enqueue_active) simp_all
    have do: "fst (doEnqueue E d' ?now ?d ?w1) = Returns None \<and> holds_only [n] (wd_MtTQ ?w2) \<and> tq_inv (wd_MtTQ ?w2) \<and>
      length (wd_Hist ?w1) \<le> length (wd_Hist ?w2)"
      using v cd c(3) by (intro doEnqueue_holds) simp_all
    have "mt_round E js w = (Returns (), ?w2)" using run returns enq do by simp
    moreover have "waits E c n ?w2" using do d'(1,3) cd by (simp add: waits_def)
    moreover have "length (wd_Hist w) < length (wd_Hist ?w2)" using do len by simp
    ultimately show ?thesis using False fin by simp
  qed
  then show "fst (mt_round E js w) = Returns ()" by blast
  show "\<exists>h. length (wd_Hist w) \<le> length h \<and>
      (if Expired c (en_Now E h)
       then left_finished n (snd (mt_round E js w)) \<and> Clock (en_Now E h) \<in> set (wd_Hist (snd (mt_round E js w))) \<and>
         (\<exists>m. mt_Meta m = mt_Meta c \<and> filter finishes (writes (wd_Hist (snd (mt_round E js w)))) = MtUpdateStatus m # filter finishes (writes (wd_Hist w)))
       else waits E c n (snd (mt_round E js w)) \<and> length (wd_Hist w) < length (wd_Hist (snd (mt_round E js w))) \<and>
         filter finishes (writes (wd_Hist (snd (mt_round E js w)))) = filter finishes (writes (wd_Hist w)))"
    by (rule exI [of _ ?h], rule conjI, rule len, rule main [THEN conjunct2])
qed

text \<open>A round without the maintenance.\<close>

lemma mt_round_left:
  assumes "left_finished n w"
  shows "left_finished n (snd (mt_round E js w))" and "wd_Hist (snd (mt_round E js w)) = wd_Hist w"
proof -
  have q: "holds_only [] (wd_MtTQ w)" using assms by (simp add: left_finished_def)
  then have "mt_round E js w = (Returns (), w\<lparr>wd_Mj := js\<rparr>)"
    by (simp add: mt_round_def expire_head_none [OF q]) (simp add: holds_only_def)
  with assms show "left_finished n (snd (mt_round E js w))" "wd_Hist (snd (mt_round E js w)) = wd_Hist w"
    by (simp_all add: left_finished_def)
qed

section \<open>Properties\<close>

text \<open>C6: A maintenance lives as long as its window: once it is the one entry of its queue, it is polled in every round,
  without a panic, and put back, until a clock reading is past the end of the window; then it is finished with a single
  status update, and leaves the queue for good. Its jobs, whichever the cache holds and whatever has become of them, have
  no influence: a maintenance all of whose jobs have succeeded is not finished before. What is assumed: the cached object
  is named after its key, admitted with a start time and neither canceled nor finished; the clock gets past the end of
  the window at some time and never shows the zero time; the API server accepts every status update and stores the
  scheduled phase; the spec decoded from the snapshot of this object (from the JSON of its spec, as long as it has none)
  can be resolved; every cached job has a stage.\<close>

theorem maintenance_ends_with_window:
  assumes "waits E c n w" and "mt_Name c = n" and "\<not> Canceled c" and "ad_ScheduleSince (admitted_of c) \<noteq> None"
    and "accepts_status E" and "\<And>h. en_Now E h \<noteq> 0"
    and "\<And>h. H \<le> length h \<Longrightarrow> Expired c (en_Now E h)"
    and "\<forall>k. \<forall>(key, j) \<in> set (jobs k). spec_stages j \<noteq> []"
  shows "\<exists>K. let at = \<lambda>k. mt_rounds E jobs k w; ends = \<lambda>k. filter finishes (writes (wd_Hist (at k))) in
    (\<forall>k \<le> K. fst (mt_round E (jobs k) (at k)) = Returns () \<and> tq_keys (wd_MtTQ (at k)) = [n] \<and> ends k = ends 0) \<and>
    (\<forall>k > K. tq_keys (wd_MtTQ (at k)) = [] \<and> (\<exists>m. mt_Meta m = mt_Meta c \<and> ends k = MtUpdateStatus m # ends 0) \<and>
      (\<exists>t. Expired c t \<and> Clock t \<in> set (wd_Hist (at k))))"
proof -
  let ?at = "\<lambda>k. mt_rounds E jobs k w"
  let ?ends = "\<lambda>k. filter finishes (writes (wd_Hist (?at k)))"
  let ?active = "\<lambda>k. waits E c n (?at k) \<and> ?ends k = ?ends 0"
  let ?ended = "\<lambda>k. left_finished n (?at k) \<and> (\<exists>m. mt_Meta m = mt_Meta c \<and> ?ends k = MtUpdateStatus m # ?ends 0) \<and>
    (\<exists>t. Expired c t \<and> Clock t \<in> set (wd_Hist (?at k)))"
  note round = mt_round_waiting [OF _ assms(2-6)]
  have step: "\<exists>h. length (wd_Hist (?at k)) \<le> length h \<and> (if Expired c (en_Now E h) then ?ended (Suc k)
      else length (wd_Hist (?at k)) < length (wd_Hist (?at (Suc k))) \<and> ?active (Suc k))" if a: "?active k" for k
  proof -
    from round(2) [OF a [THEN conjunct1], of "jobs k"] assms(8) obtain h where h: "length (wd_Hist (?at k)) \<le> length h"
      "if Expired c (en_Now E h)
       then left_finished n (?at (Suc k)) \<and> Clock (en_Now E h) \<in> set (wd_Hist (?at (Suc k))) \<and>
         (\<exists>m. mt_Meta m = mt_Meta c \<and> ?ends (Suc k) = MtUpdateStatus m # ?ends k)
       else waits E c n (?at (Suc k)) \<and> length (wd_Hist (?at k)) < length (wd_Hist (?at (Suc k))) \<and> ?ends (Suc k) = ?ends k"
      by auto
    then show ?thesis using a by (intro exI [of _ h]) auto
  qed
  obtain K where K: "\<forall>k \<le> K. ?active k" "\<forall>k > K. ?ended k"
  proof (rule eventually_done [of ?active "\<lambda>k. length (wd_Hist (?at k))" ?ended H])
    show "?active 0" using assms(1) by simp
    show "length (wd_Hist (?at k)) < length (wd_Hist (?at (Suc k))) \<and> ?active (Suc k) \<or> ?ended (Suc k)" if "?active k" for k
      using step [OF that] by (metis (no_types, lifting))
    show "?ended (Suc k)" if "?active k" "H \<le> length (wd_Hist (?at k))" for k
      using step [OF that(1)] assms(7) that(2) le_trans by (metis (no_types, lifting))
    show "?ended (Suc k)" if "?ended k" for k
      using that mt_round_left [of n "?at k" E "jobs k"] by simp
  qed blast
  have "fst (mt_round E (jobs k) (?at k)) = Returns ()" if "k \<le> K" for k
    using round(1) [of "?at k" "jobs k"] assms(8) K(1) that by blast
  then show ?thesis unfolding Let_def using K
    by (intro exI [of _ K]) (auto simp: waits_def left_finished_def holds_only_def)
qed

definition sample_env_end :: env where
  "sample_env_end = sample_env_decoder\<lparr>en_Now := \<lambda>h. if length h < 12 then 100 else 2000\<rparr>"

definition sample_world_waiting :: world where
  "sample_world_waiting = sample_world_mt\<lparr>wd_MtTQ := snd (OfferWithTime ''mt'' () 60 50 (wd_MtTQ sample_world_mt))\<rparr>"

theorem maintenance_ends_with_window_witness:
  "\<exists>k m. MtUpdateStatus m \<in> set (writes (wd_Hist (mt_rounds sample_env_end (\<lambda>_. []) k sample_world_waiting))) \<and> Finished m"
proof -
  have w: "waits sample_env_end sample_admitted ''mt'' sample_world_waiting"
  proof -
    have "holds_only [] (wd_MtTQ sample_world_mt)" "tq_inv (wd_MtTQ sample_world_mt)"
      by (simp_all add: sample_world_mt_def sample_world_def holds_only_def NewTimeoutQueue_def tq_Start_def tq_inv_def index_ok_def)
    then have "holds_only [''mt''] (wd_MtTQ sample_world_waiting)" "tq_inv (wd_MtTQ sample_world_waiting)"
      unfolding sample_world_waiting_def by (simp_all add: holds_offer tq_inv_offer)
    moreover have "map_of (wd_Mt sample_world_waiting) ''mt'' = Some sample_admitted" "\<not> Finished sample_admitted"
      by (simp_all add: sample_world_waiting_def sample_world_mt_def sample_admitted_def sample_defs Finished_def)
    moreover have "snapshot_resolvable sample_env_end sample_admitted"
      by (auto simp: snapshot_resolvable_def snapshot_json_def sample_env_end_def sample_env_decoder_def sample_env_rec_def
          resolvable_spec_def sample_admitted_def sample_defs Scheduled_def)
    ultimately show ?thesis by (simp add: waits_def)
  qed
  have c: "mt_Name sample_admitted = ''mt''" "\<not> Canceled sample_admitted" "ad_ScheduleSince (admitted_of sample_admitted) \<noteq> None"
    by (simp_all add: sample_admitted_def sample_defs phase_defs)
  have E: "accepts_status sample_env_end" "en_Now sample_env_end h \<noteq> 0"
    "12 \<le> length h \<Longrightarrow> Expired sample_admitted (en_Now sample_env_end h)" for h m
    by (simp_all add: accepts_status_def stores_snapshots_def sample_env_end_def sample_env_decoder_def sample_env_rec_def sample_admitted_def phase_defs set_window_def
        set_admitted_def time_Before_def)
  obtain K where "\<forall>k > K. \<exists>m. mt_Meta m = mt_Meta sample_admitted \<and> filter finishes (writes (wd_Hist (mt_rounds sample_env_end (\<lambda>_. []) k sample_world_waiting))) =
      MtUpdateStatus m # filter finishes (writes (wd_Hist sample_world_waiting))"
    using maintenance_ends_with_window [where E = sample_env_end and H = 12 and jobs = "\<lambda>_. []", OF w c E(1) E(2) E(3)]
    unfolding Let_def by auto
  then obtain m where "MtUpdateStatus m \<in> set (filter finishes (writes (wd_Hist (mt_rounds sample_env_end (\<lambda>_. []) (Suc K) sample_world_waiting))))"
    by (metis lessI list.set_intros(1))
  then show ?thesis
    by (intro exI [of _ "Suc K"] exI [of _ m]) (simp add: finishes_def del: mt_rounds.simps)
qed

end
