(* ===== verification/JobProgress.thy ===== *)
theory JobProgress
  imports Rounds
begin

text \<open>
  What becomes of a maintenance job whose entries the schedule queue delivers (\<open>controller.go\<close>,
  \<open>maintenencejob.go\<close>): the rounds of a job with drain stages, from the first delivery to the last, and
  what happens when an update of its status is refused.
\<close>

section \<open>Rounds\<close>

text \<open>The status the API server was last sent, which it stores and the informer brings back.\<close>

fun latest_status :: "history \<Rightarrow> MaintenanceJob option" where
  "latest_status [] = None"
| "latest_status (MjUpdateStatus j # h) = Some j"
| "latest_status (_ # h) = latest_status h"

definition catch_up :: "string \<Rightarrow> world \<Rightarrow> world" where
  "catch_up key w = (case latest_status (wd_Hist w) of None \<Rightarrow> w | Some j \<Rightarrow> put_mj key j w)"

text \<open>The first entry of the queue expires; it is taken and processed, and the informer catches up.\<close>

definition expire_first :: "world \<Rightarrow> world" where
  "expire_first w = w\<lparr>wd_MjTQ := expire_head (wd_MjTQ w)\<rparr>"

definition poll_round :: "env \<Rightarrow> world \<Rightarrow> unit outcome \<times> world" where
  "poll_round E w =
     (let w1 = expire_first w
      in case tq_expired (wd_MjTQ w1) of
           [] \<Rightarrow> (Returns (), w1)
         | d # ds \<Rightarrow>
             (let (r, w2) = processMaintenanceJobSchedule E (td_Key d) (set_mj_expired ds w1)
              in (r, catch_up (mj_key (jobNamespace E) (td_Key d)) w2)))"

fun poll_rounds :: "env \<Rightarrow> nat \<Rightarrow> world \<Rightarrow> world" where
  "poll_rounds E 0 w = w"
| "poll_rounds E (Suc k) w = snd (poll_round E (poll_rounds E k w))"

text \<open>A round is a run of the controller.\<close>

lemma latest_status_in: "latest_status h = Some j \<Longrightarrow> MjUpdateStatus j \<in> set h"
  by (induction h rule: latest_status.induct) auto

lemma catch_up_step: "(ctrl_step E)\<^sup>*\<^sup>* w (catch_up key w)"
proof (cases "latest_status (wd_Hist w)")
  case (Some j)
  from mj_informer [of j w E key "mj_Meta j"] latest_status_in [OF Some]
  have "ctrl_step E w (put_mj key j w)" by simp
  with Some show ?thesis by (auto simp: catch_up_def)
qed (simp add: catch_up_def)

lemma poll_round_steps: "(ctrl_step E)\<^sup>*\<^sup>* w (snd (poll_round E w))"
proof -
  have s: "ctrl_step E w (expire_first w)"
    unfolding expire_first_def expire_head_def by (rule mj_sort) (simp add: swaps_in_range_def)
  show ?thesis
  proof (cases "tq_expired (wd_MjTQ (expire_first w))")
    case Nil
    with s show ?thesis by (auto simp: poll_round_def)
  next
    case (Cons d ds)
    let ?w2 = "snd (processMaintenanceJobSchedule E (td_Key d) (set_mj_expired ds (expire_first w)))"
    from mj_take [OF Cons] have "ctrl_step E (expire_first w) ?w2" .
    moreover have "snd (poll_round E w) = catch_up (mj_key (jobNamespace E) (td_Key d)) ?w2"
      using Cons by (simp add: poll_round_def Let_def split_beta)
    ultimately show ?thesis using s catch_up_step [of E ?w2]
      by (metis converse_rtranclp_into_rtranclp)
  qed
qed

lemma poll_rounds_steps: "(ctrl_step E)\<^sup>*\<^sup>* w (poll_rounds E k w)"
  by (induction k) (auto intro: rtranclp_trans poll_round_steps)

section \<open>The queue in a round\<close>

text \<open>The queue holds an entry of the job and nothing else, or nothing.\<close>

abbreviation queue_holds :: "string list \<Rightarrow> world \<Rightarrow> bool" where
  "queue_holds ns w \<equiv> holds_only ns (wd_MjTQ w)"

lemma expire_first_one:
  assumes "queue_holds [n] w"
  obtains d where "td_Key d = n" and "tq_expired (wd_MjTQ (expire_first w)) = [d]"
    and "queue_holds [] (set_mj_expired [] (expire_first w))"
    and "wd_Mj (expire_first w) = wd_Mj w" and "wd_Hist (expire_first w) = wd_Hist w"
proof -
  obtain d where "td_Key d = n" "tq_expired (expire_head (wd_MjTQ w)) = [d]"
    "holds_only [] ((expire_head (wd_MjTQ w))\<lparr>tq_expired := []\<rparr>)" by (rule expire_head_one [OF assms])
  with that [of d] show ?thesis by (simp add: expire_first_def set_mj_expired_def)
qed

abbreviation taken :: "world \<Rightarrow> world" where
  "taken w \<equiv> set_mj_expired [] (expire_first w)"

lemma offer_delay_holds:
  assumes "queue_holds [] w"
  shows "queue_holds [n] (snd (mjTQ_offer_delay E n d w))"
  using assms by (simp add: holds_only_def mjTQ_offer_delay_def OfferWithDelay_def OfferWithTime_def Let_def
      split_beta)

lemma offer_delay_mj: "wd_Mj (snd (mjTQ_offer_delay E n d w)) = wd_Mj w"
  "latest_status (wd_Hist (snd (mjTQ_offer_delay E n d w))) = latest_status (wd_Hist w)"
  by (simp_all add: mjTQ_offer_delay_def split_beta Let_def)

lemma enqueue_job_history:
  "\<exists>g. wd_Hist (snd (enqueueMaintenanceJobForScheduling E ns n d w)) = g @ wd_Hist w \<and> writes g = []"
  by (simp add: enqueueMaintenanceJobForScheduling_def mjTQ_offer_delay_def Let_def split_beta split: sum.split option.split)

lemma catch_up_history [simp]: "wd_Hist (catch_up key w) = wd_Hist w"
  by (simp add: catch_up_def split: option.split)

text \<open>A round, when the scheduling leaves the object \<open>c1\<close> in the cache and \<open>c2\<close> was sent last.\<close>

lemma poll_round_result:
  assumes q: "queue_holds [n] w"
    and run: "scheduleMaintenanceJob E (jobNamespace E) n (taken w) = (Returns err, u')"
    and c1: "map_of (wd_Mj u') (mj_key (jobNamespace E) n) = Some c1" and c2: "latest_status (wd_Hist u') = Some c2"
  shows "fst (poll_round E w) = Returns ()"
    and "map_of (wd_Mj (snd (poll_round E w))) (mj_key (jobNamespace E) n) = Some c2"
    and "queue_holds (if wants_scheduling c1 then [n] else []) (snd (poll_round E w))"
    and "\<exists>g. wd_Hist (snd (poll_round E w)) = g @ wd_Hist u' \<and> writes g = []"
proof -
  obtain d where d: "td_Key d = n" "tq_expired (wd_MjTQ (expire_first w)) = [d]"
    and u: "queue_holds [] (taken w)"
    using expire_first_one [OF q] .
  have q': "queue_holds [] u'"
    using u scheduleMaintenanceJob_frame(3) [of E "jobNamespace E" n "taken w"] run by (simp add: holds_only_def)
  let ?w = "snd (enqueueMaintenanceJobForScheduling E (jobNamespace E) n (jc_PollInterval (jobs_config E)) u')"
  have w: "poll_round E w = (Returns (), catch_up (mj_key (jobNamespace E) n) ?w)"
    using d run by (simp add: poll_round_def Let_def processMaintenanceJobSchedule_def split_beta)
  have e: "queue_holds (if wants_scheduling c1 then [n] else []) ?w" "latest_status (wd_Hist ?w) = Some c2"
    using c1 c2 q' offer_delay_holds [OF q']
    by (auto simp: enqueueMaintenanceJobForScheduling_def getMaintenanceJobFromCache_def finished_count_eq
        wants_scheduling_def Let_def offer_delay_mj)
  show "fst (poll_round E w) = Returns ()"
      "map_of (wd_Mj (snd (poll_round E w))) (mj_key (jobNamespace E) n) = Some c2"
      "queue_holds (if wants_scheduling c1 then [n] else []) (snd (poll_round E w))"
    using e by (simp_all add: w catch_up_def holds_only_def)
  show "\<exists>g. wd_Hist (snd (poll_round E w)) = g @ wd_Hist u' \<and> writes g = []"
    using enqueue_job_history by (simp add: w)
qed

lemma taken_frame:
  assumes "queue_holds [n] w"
  shows "wd_Mj (taken w) = wd_Mj w" and "wd_Hist (taken w) = wd_Hist w"
  using expire_first_one [OF assms] by (simp_all add: set_mj_expired_def)

section \<open>A job of drain stages\<close>

text \<open>A stage that was started at \<open>t0\<close> or later and has not ended.\<close>

definition stage_draining :: "gotime \<Rightarrow> MaintenanceJobStageStatus \<Rightarrow> bool" where
  "stage_draining t0 s \<longleftrightarrow> ss_Running s \<and> \<not> ss_Succeeded s \<and> \<not> ss_Failed s \<and> ss_FinishedAt s = None \<and>
     (\<exists>a. ss_ScheduledAt s = Some a \<and> t0 \<le> a)"

text \<open>The job \<open>c\<close>, of which \<open>m\<close> stages are in the state \<open>P\<close> and the others in the state \<open>Q\<close>.\<close>

definition job_at :: "MaintenanceJob \<Rightarrow> nat \<Rightarrow> (MaintenanceJobStageStatus \<Rightarrow> bool) \<Rightarrow> (MaintenanceJobStageStatus \<Rightarrow> bool)
    \<Rightarrow> MaintenanceJob \<Rightarrow> bool" where
  "job_at c m P Q j \<longleftrightarrow> mj_Meta j = mj_Meta c \<and> mj_Spec j = mj_Spec c \<and>
     jt_SucceededAt (mj_Status j) = None \<and> jt_FailedAt (mj_Status j) = None \<and>
     length (status_stages j) = length (spec_stages c) \<and>
     (\<forall>i < length (spec_stages c). if i < m then P (status_stages j ! i) else Q (status_stages j ! i))"

definition stage_drained :: "MaintenanceJobStageStatus \<Rightarrow> bool" where
  "stage_drained s \<longleftrightarrow> ss_Succeeded s \<and> \<not> ss_Failed s \<and> \<not> ss_Running s \<and> time_set (ss_FinishedAt s)"

text \<open>What the rounds of the job \<open>c\<close> meet: updates are accepted, draining succeeds, and the clock stays between
  \<open>t0\<close>, when every delay has passed, and \<open>t1\<close>, before which no stage times out.\<close>

definition drains_well :: "env \<Rightarrow> gotime \<Rightarrow> gotime \<Rightarrow> MaintenanceJob \<Rightarrow> bool" where
  "drains_well E t0 t1 c \<longleftrightarrow> (\<forall>h j. en_MjUpdateStatus E h j = Inr j) \<and> (\<forall>h. t0 \<le> en_Now E h \<and> en_Now E h \<le> t1) \<and>
     0 < t0 \<and> spec_stages c \<noteq> [] \<and> om_CreationTimestamp (mj_Meta c) + sint (st_Delay (hd (spec_stages c))) \<le> t0 \<and>
     (\<forall>st \<in> set (spec_stages c). st_Drain st \<noteq> None \<and> sint (st_Delay st) \<le> t0 \<and> t1 - t0 \<le> sint (st_Timeout st) \<and>
        (\<forall>j w. mj_Spec j = mj_Spec c \<longrightarrow> fst (drainNodes E j st w) = Returns None))"

lemma drains_wellD:
  assumes "drains_well E t0 t1 c"
  shows "en_MjUpdateStatus E h j = Inr j" and "t0 \<le> en_Now E h" and "en_Now E h \<le> t1" and "0 < t0"
    and "spec_stages c \<noteq> []" and "om_CreationTimestamp (mj_Meta c) + sint (st_Delay (hd (spec_stages c))) \<le> t0"
    and "i < length (spec_stages c) \<Longrightarrow> st_Drain (spec_stages c ! i) \<noteq> None \<and> sint (st_Delay (spec_stages c ! i)) \<le> t0 \<and>
      t1 - t0 \<le> sint (st_Timeout (spec_stages c ! i))"
    and "i < length (spec_stages c) \<Longrightarrow> mj_Spec j = mj_Spec c \<Longrightarrow> fst (drainNodes E j (spec_stages c ! i) w) = Returns None"
  using assms by (auto simp: drains_well_def)

lemma job_at_set_stage:
  assumes "job_at c m P Q j" and "m < length (spec_stages c)" and "Q (status_stages j ! m) \<Longrightarrow> P (f (status_stages j ! m))"
  shows "job_at c (Suc m) P Q (set_stage m f j)"
proof -
  have "if i < Suc m then P ((status_stages j)[m := f (status_stages j ! m)] ! i)
      else Q ((status_stages j)[m := f (status_stages j ! m)] ! i)" if "i < length (spec_stages c)" for i
    using assms that by (cases "i = m") (auto simp: job_at_def dest: spec [of _ i])
  with assms(1) show ?thesis by (simp add: job_at_def set_stage_def set_stages_def)
qed

lemma update_stage_accepted:
  assumes "\<And>h j. en_MjUpdateStatus E h j = Inr j" and "i < length (status_stages j)"
  shows "update_stage E key b i f j w = (Returns (set_stage i f j, None),
    log_effect (MjUpdateStatus (set_stage i f j)) (assign key b (set_stage i f j) w))"
  using assms by (simp add: update_stage_def mj_UpdateStatus_def Let_def)

text \<open>An idle drain stage is started and the walk goes on.\<close>

lemma start_drain_stage:
  assumes d: "drains_well E t0 t1 c" and j: "job_at c i (stage_draining t0) Q j" and i: "i < length (spec_stages c)"
    and s: "idle s"
  shows "\<exists>t w1. t0 \<le> t \<and> wd_Mj w1 = wd_Mj w \<and> stage_body E key b i s j w =
    (Returns (Continue (set_stage i (stage_started t) j) False),
     log_effect (MjUpdateStatus (set_stage i (stage_started t) j)) (assign key b (set_stage i (stage_started t) j) w1))"
proof -
  note D = drains_wellD [OF d]
  have js: "spec_stages j = spec_stages c" "length (status_stages j) = length (spec_stages c)" "mj_Meta j = mj_Meta c"
    using j by (simp_all add: job_at_def)
  have "\<exists>prev. prevFinishedAt i j = Returns prev \<and> prev + sint (st_Delay (spec_stages c ! i)) \<le> t0"
  proof (cases i)
    case 0
    then show ?thesis using D(5,6) js by (simp add: prevFinishedAt_def hd_conv_nth)
  next
    case (Suc m)
    then have "stage_draining t0 (status_stages j ! m)" using j i by (auto simp: job_at_def dest: spec [of _ m])
    then show ?thesis using Suc i D(7) [OF i] js by (simp add: prevFinishedAt_def stage_draining_def)
  qed
  then obtain prev where p: "prevFinishedAt i j = Returns prev" "prev + sint (st_Delay (spec_stages c ! i)) \<le> t0" by blast
  let ?w1 = "log_effect (Clock (en_Now E (wd_Hist w))) w"
  let ?t = "en_Now E (wd_Hist ?w1)"
  have "\<not> time_Before (en_Now E (wd_Hist w)) (time_Add prev (st_Delay (spec_stages c ! i)))"
    using p(2) D(2) [of "wd_Hist w"] by (simp add: time_defs)
  then have "stage_body E key b i s j w =
    (Returns (Continue (set_stage i (stage_started ?t) j) False),
     log_effect (MjUpdateStatus (set_stage i (stage_started ?t) j))
       (assign key b (set_stage i (stage_started ?t) j) (log_effect (Clock ?t) ?w1)))"
    using s i p(1) D(7) [OF i] js update_stage_accepted [OF D(1)]
    by (simp add: stage_body_def idle_stage_def idle_def Let_def)
  with D(2) show ?thesis by (intro exI [of _ ?t] exI [of _ "log_effect (Clock ?t) ?w1"]) simp
qed

text \<open>A stage as \<open>onMaintenanceJobAdded\<close> adds it.\<close>

definition stage_new :: "MaintenanceJobStageStatus \<Rightarrow> bool" where
  "stage_new s \<longleftrightarrow> idle s \<and> ss_FinishedAt s = None"

lemma stage_started_draining: "stage_new s \<Longrightarrow> t0 \<le> t \<Longrightarrow> stage_draining t0 (stage_started t s)"
  by (simp add: stage_new_def idle_def stage_draining_def stage_started_def)

text \<open>The stages from the \<open>i\<close>-th on are started one after the other.\<close>

lemma start_drain_stages:
  assumes d: "drains_well E t0 t1 c"
  shows "job_at c i (stage_draining t0) stage_new j \<Longrightarrow> i + length ss = length (spec_stages c) \<Longrightarrow> \<forall>s \<in> set ss. idle s \<Longrightarrow>
    latest_status (wd_Hist w) = Some j \<Longrightarrow>
    \<exists>w' j'. schedule_stages E key ss i j False w = (Returns None, w') \<and> wd_Mj w' = wd_Mj w \<and>
      latest_status (wd_Hist w') = Some j' \<and> job_at c (length (spec_stages c)) (stage_draining t0) stage_new j'"
proof (induction ss arbitrary: i j w)
  case Nil
  then show ?case by auto
next
  case (Cons s ss)
  have i: "i < length (spec_stages c)" using Cons.prems(2) by simp
  obtain t w1 where t: "t0 \<le> t" and w1: "wd_Mj w1 = wd_Mj w"
    and b: "stage_body E key False i s j w = (Returns (Continue (set_stage i (stage_started t) j) False),
      log_effect (MjUpdateStatus (set_stage i (stage_started t) j)) (assign key False (set_stage i (stage_started t) j) w1))"
    using start_drain_stage [OF d Cons.prems(1) i, where s = s and w = w and key = key and b = False] Cons.prems(3) by auto
  let ?j = "set_stage i (stage_started t) j"
  let ?w = "log_effect (MjUpdateStatus ?j) w1"
  have "job_at c (Suc i) (stage_draining t0) stage_new ?j"
    by (rule job_at_set_stage [OF Cons.prems(1) i]) (rule stage_started_draining [OF _ t])
  from Cons.IH [OF this _ _ , of ?w] Cons.prems(2,3) obtain w' j' where
    "schedule_stages E key ss (Suc i) ?j False ?w = (Returns None, w')" "wd_Mj w' = wd_Mj w1"
    "latest_status (wd_Hist w') = Some j'" "job_at c (length (spec_stages c)) (stage_draining t0) stage_new j'"
    by auto
  with b w1 show ?case by (auto simp: assign_def)
qed

lemma job_at_unfinished:
  assumes "job_at c m P Q j" and "m < length (spec_stages c)" and "\<And>s. Q s \<Longrightarrow> \<not> ss_Succeeded s"
  shows "unfinished j"
proof -
  have n: "spec_stages j = spec_stages c" "length (status_stages j) = length (spec_stages c)" "spec_stages c \<noteq> []"
    using assms(1,2) by (auto simp: job_at_def)
  then have "status_stages j \<noteq> []" by auto
  moreover have "Q (status_stages j ! (length (spec_stages c) - 1))"
    using assms(1,2) by (auto simp: job_at_def dest: spec [of _ "length (spec_stages c) - 1"])
  ultimately have "\<not> ss_Succeeded (last (status_stages j))" using n assms(3) by (simp add: last_conv_nth)
  with n assms(1) show ?thesis by (simp add: unfinished_def JobSucceeded_def last_stage_test_ok job_at_def)
qed

text \<open>The first round starts all stages. The entry goes back to the queue.\<close>

lemma first_round:
  assumes d: "drains_well E t0 t1 c" and q: "queue_holds [n] w"
    and c: "map_of (wd_Mj w) (mj_key (jobNamespace E) n) = Some j" "job_at c 0 (stage_draining t0) stage_new j"
  shows "fst (poll_round E w) = Returns () \<and> queue_holds [n] (snd (poll_round E w)) \<and>
    (\<exists>j'. map_of (wd_Mj (snd (poll_round E w))) (mj_key (jobNamespace E) n) = Some j' \<and>
      job_at c 0 stage_drained (stage_draining t0) j')"
proof -
  let ?key = "mj_key (jobNamespace E) n"
  have n: "0 < length (spec_stages c)" "length (status_stages j) = length (spec_stages c)"
    using drains_wellD(5) [OF d] c(2) by (simp_all add: job_at_def)
  then obtain s ss where ss: "status_stages j = s # ss" by (cases "status_stages j") auto
  have new: "\<forall>s \<in> set (s # ss). stage_new s"
    unfolding ss [symmetric] using c(2) n(2) by (auto simp: job_at_def in_set_conv_nth)
  have un: "unfinished j" by (rule job_at_unfinished [OF c(2) n(1)]) (simp add: stage_new_def idle_def)
  let ?u = "taken w"
    obtain t u1 where t: "t0 \<le> t" "wd_Mj u1 = wd_Mj ?u"
      and b: "stage_body E ?key True 0 s j ?u = (Returns (Continue (set_stage 0 (stage_started t) j) False),
        log_effect (MjUpdateStatus (set_stage 0 (stage_started t) j)) (assign ?key True (set_stage 0 (stage_started t) j) u1))"
      using start_drain_stage [OF d c(2) n(1), where s = s and w = ?u and key = ?key and b = True] new by (auto simp: stage_new_def)
    let ?j = "set_stage 0 (stage_started t) j"
    let ?u2 = "log_effect (MjUpdateStatus ?j) (put_mj ?key ?j u1)"
    have "job_at c (Suc 0) (stage_draining t0) stage_new ?j"
      by (rule job_at_set_stage [OF c(2) n(1)]) (rule stage_started_draining [OF _ t(1)])
    from start_drain_stages [OF d this, where ss = ss and w = ?u2 and key = ?key] new n(2) ss obtain u' j' where
      s: "schedule_stages E ?key ss (Suc 0) ?j False ?u2 = (Returns None, u')" "wd_Mj u' = wd_Mj ?u2"
        "latest_status (wd_Hist u') = Some j'" "job_at c (length (spec_stages c)) (stage_draining t0) stage_new j'"
      by (auto simp: stage_new_def)
  have run: "scheduleMaintenanceJob E (jobNamespace E) n ?u = (Returns None, u')"
    using scheduleMaintenanceJob_at [of ?u "jobNamespace E" n j "[]" s ss E] taken_frame [OF q] c(1) un ss b s(1)
    by (simp add: all_succeeded_def assign_def)
  have "map_of (wd_Mj u') ?key = Some ?j" using s(2) by simp
  note r = poll_round_result [OF q run this s(3)]
  have "wants_scheduling ?j"
    using n ss new c(2)
    by (auto simp: wants_scheduling_def set_stage_def stage_started_def job_at_def stage_new_def idle_def Let_def)
  moreover have "job_at c 0 stage_drained (stage_draining t0) j'" using s(4) by (auto simp: job_at_def)
  ultimately show ?thesis using r by auto
qed

text \<open>Each further round drains the nodes of one stage. The entry goes back to the queue unless it was the last.\<close>

lemma all_drained:
  assumes "job_at c k stage_drained Q j" and "k \<le> length (spec_stages c)"
  shows "\<forall>s \<in> set (take k (status_stages j)). stage_drained s" and "all_succeeded (take k (status_stages j))"
proof -
  show "\<forall>s \<in> set (take k (status_stages j)). stage_drained s"
  proof
    fix s assume "s \<in> set (take k (status_stages j))"
    then obtain i where "i < k" "s = status_stages j ! i" by (auto simp: in_set_conv_nth)
    with assms show "stage_drained s" by (auto simp: job_at_def dest: spec [of _ i])
  qed
  then show "all_succeeded (take k (status_stages j))" by (simp add: all_succeeded_def stage_drained_def)
qed

text \<open>A running drain stage that is in time and whose nodes are drained: one status update marks it as
  succeeded, whatever the answer.\<close>

lemma running_drain_ends:
  assumes "ss_ScheduledAt s = Some a" and "ss_Running s" and "\<not> ss_Succeeded s" and "\<not> ss_Failed s"
    and "k < length (status_stages j)" and "k < length (spec_stages j)" and "st_Drain (spec_stages j ! k) = Some d"
    and "en_Now E (wd_Hist u) \<le> a + sint (st_Timeout (spec_stages j ! k))"
    and "drainNodes E j (spec_stages j ! k) (log_effect (Clock (en_Now E (wd_Hist u))) u) = (Returns None, u2)"
    and "t = en_Now E (wd_Hist u2)" and "j' = set_stage k (stage_succeeded t) j"
  shows "stage_body E key True k s j u =
    (Returns (Return (case en_MjUpdateStatus E (Clock t # wd_Hist u2) j' of Inl e \<Rightarrow> Some e | Inr _ \<Rightarrow> None)),
     log_effect (MjUpdateStatus j') (put_mj key j' (log_effect (Clock t) u2)))"
  using assms by (simp add: stage_body_def running_stage_def time_defs update_stage_err_result Let_def)

lemma wants_scheduling_drained:
  assumes "job_at c k stage_drained (stage_draining t0) j" and "k \<le> length (spec_stages c)"
  shows "wants_scheduling j \<longleftrightarrow> k < length (spec_stages c)"
proof -
  have l: "length (status_stages j) = length (spec_stages c)" "spec_stages j = spec_stages c"
    using assms(1) by (simp_all add: job_at_def)
  have drained: "\<forall>s \<in> set (take k (status_stages j)). stage_drained s"
    by (rule all_drained [OF assms])
  have rest: "drop k (status_stages j) = [] \<or> ss_Running (hd (drop k (status_stages j))) \<and> \<not> ss_Failed (hd (drop k (status_stages j)))"
    using assms l by (cases "k < length (spec_stages c)") (auto simp: job_at_def stage_draining_def hd_drop_conv_nth)
  have "takeWhile (\<lambda>s. \<not> ss_Running s) (take k (status_stages j) @ drop k (status_stages j)) = take k (status_stages j)"
    using drained rest
    by (subst takeWhile_append2) (auto simp: stage_drained_def takeWhile_eq_Nil_iff)
  then have t: "takeWhile (\<lambda>s. \<not> ss_Running s) (status_stages j) = take k (status_stages j)" by simp
  have "list_all (\<lambda>s. \<not> ss_Failed s) (take (Suc k) (status_stages j))"
    using drained rest
    by (cases "k < length (status_stages j)") (auto simp: take_Suc_conv_app_nth list_all_iff stage_drained_def hd_drop_conv_nth)
  moreover have "filter ss_Succeeded (take k (status_stages j)) = take k (status_stages j)"
    using drained by (simp add: filter_id_conv stage_drained_def)
  ultimately show ?thesis using assms(2) l by (simp add: wants_scheduling_def t Let_def min_def)
qed

text \<open>From one world to the next, the nodes of the \<open>k\<close>-th stage are drained; the one other write is the status update
  after it, which sends the job \<open>j'\<close>.\<close>

definition round_drains :: "env \<Rightarrow> MaintenanceJob \<Rightarrow> nat \<Rightarrow> world \<Rightarrow> world \<Rightarrow> MaintenanceJob \<Rightarrow> bool" where
  "round_drains E c k w w' j' \<longleftrightarrow> (\<exists>wa wb j g g'. mj_Spec j = mj_Spec c \<and> drain_done E j (spec_stages c ! k) wa wb \<and>
     wd_Hist wa = g @ wd_Hist w \<and> writes g = [] \<and> wd_Hist w' = g' @ wd_Hist wb \<and> writes g' = [MjUpdateStatus j'])"

lemma drain_round:
  assumes d: "drains_well E t0 t1 c" and q: "queue_holds [n] w" and k: "k < length (spec_stages c)"
    and c: "map_of (wd_Mj w) (mj_key (jobNamespace E) n) = Some j" "job_at c k stage_drained (stage_draining t0) j"
  shows "fst (poll_round E w) = Returns () \<and>
    queue_holds (if Suc k < length (spec_stages c) then [n] else []) (snd (poll_round E w)) \<and>
    (\<exists>j'. map_of (wd_Mj (snd (poll_round E w))) (mj_key (jobNamespace E) n) = Some j' \<and>
      job_at c (Suc k) stage_drained (stage_draining t0) j' \<and> round_drains E c k w (snd (poll_round E w)) j')"
proof -
  note D = drains_wellD [OF d]
  let ?key = "mj_key (jobNamespace E) n" and ?u = "taken w" and ?s = "status_stages j ! k" and ?st = "spec_stages c ! k"
  have l: "length (status_stages j) = length (spec_stages c)" "mj_Spec j = mj_Spec c" using c(2) by (simp_all add: job_at_def)
  have s: "stage_draining t0 ?s" using c(2) k by (simp add: job_at_def)
  then obtain a where a: "ss_ScheduledAt ?s = Some a" "t0 \<le> a" by (auto simp: stage_draining_def)
  have un: "unfinished j" by (rule job_at_unfinished [OF c(2) k]) (simp add: stage_draining_def)
  let ?u1 = "log_effect (Clock (en_Now E (wd_Hist ?u))) ?u"
  obtain d' where d': "st_Drain ?st = Some d'" using D(7) [OF k] by blast
  obtain u2 where u2: "drainNodes E j ?st ?u1 = (Returns None, u2)"
    using D(8) [OF k l(2), of ?u1] by (cases "drainNodes E j ?st ?u1") simp
  then have m: "wd_Mj u2 = wd_Mj w"
    using drainNodes_same_state [of ?u1 E j ?st] taken_frame [OF q] by (simp add: same_state_def)
  let ?t = "en_Now E (wd_Hist u2)" let ?j = "set_stage k (stage_succeeded ?t) j"
  have "en_Now E (wd_Hist ?u) \<le> a + sint (st_Timeout ?st)"
    using D(3) [of "wd_Hist ?u"] D(7) [OF k] a(2) by linarith
  then have "stage_body E ?key True k ?s j ?u = (Returns (Return None),
      log_effect (MjUpdateStatus ?j) (put_mj ?key ?j (log_effect (Clock ?t) u2)))"
    using running_drain_ends [of ?s a k j d' E ?u u2 ?t ?j ?key] s a(1) k l D(1) d' u2
    by (simp add: stage_draining_def)
  then have run: "scheduleMaintenanceJob E (jobNamespace E) n ?u =
      (Returns None, log_effect (MjUpdateStatus ?j) (put_mj ?key ?j (log_effect (Clock ?t) u2)))"
    using scheduleMaintenanceJob_at [of ?u "jobNamespace E" n j "take k (status_stages j)" ?s "drop (Suc k) (status_stages j)" E]
      all_drained(2) [OF c(2)] un c(1) k l taken_frame [OF q] by (simp add: id_take_nth_drop [symmetric])
  have "job_at c (Suc k) stage_drained (stage_draining t0) ?j"
    using D(2) [of "wd_Hist u2"] D(4)
    by (intro job_at_set_stage [OF c(2) k]) (simp add: stage_drained_def stage_succeeded_def time_defs)
  note r = poll_round_result [OF q run, of ?j ?j] wants_scheduling_drained [OF this] this
  obtain g where g: "wd_Hist (snd (poll_round E w)) = g @ MjUpdateStatus ?j # Clock ?t # wd_Hist u2" "writes g = []"
    using r(4) by auto
  have "drain_done E j ?st ?u1 u2" by (rule drainNodes_done [OF u2])
  then have "round_drains E c k w (snd (poll_round E w)) ?j"
    unfolding round_drains_def using g taken_frame(2) [OF q] l(2)
    by (intro exI [of _ ?u1] exI [of _ u2] exI [of _ j] exI [of _ "[Clock (en_Now E (wd_Hist ?u))]"]
        exI [of _ "g @ [MjUpdateStatus ?j, Clock ?t]"]) simp
  with r k show ?thesis by simp
qed


section \<open>Properties\<close>

lemma pad_empty_new:
  assumes "mj_Status c = \<lparr>jt_SucceededAt = None, jt_FailedAt = None, jt_Stages = []\<rparr>"
  shows "job_at c 0 P stage_new (pad_stages c)"
  using assms by (simp add: job_at_def pad_stages_def set_stages_def stage_new_def idle_def new_stage_status_def)

text \<open>The addition of a job without status pads it and puts it into the queue.\<close>

lemma added_round:
  assumes d: "drains_well E t0 t1 c" and q: "queue_holds [] w"
    and c: "map_of (wd_Mj w) (mj_key (jobNamespace E) (mj_Name c)) = Some c" "om_Namespace (mj_Meta c) = jobNamespace E"
      "mj_Status c = \<lparr>jt_SucceededAt = None, jt_FailedAt = None, jt_Stages = []\<rparr>"
    and w1: "w1 = catch_up (mj_key (jobNamespace E) (mj_Name c)) (snd (onMaintenanceJobAdded E c w))"
  shows "fst (onMaintenanceJobAdded E c w) = Returns None \<and> queue_holds [mj_Name c] w1 \<and>
    map_of (wd_Mj w1) (mj_key (jobNamespace E) (mj_Name c)) = Some (pad_stages c)"
proof -
  let ?u = "log_effect (MjUpdateStatus (pad_stages c)) w"
  have n: "spec_stages c \<noteq> []" using drains_wellD(5) [OF d] .
  then have p: "status_stages (pad_stages c) \<noteq> []"
    using pad_stages_simps(3) [of c] by (metis length_0_conv max.absorb_iff2 le0 list.size(3) max_def)
  have q': "queue_holds [] ?u" using q by (simp add: holds_only_def)
  have e: "enqueueMaintenanceJobForScheduling E (jobNamespace E) (mj_Name c) 0 ?u = mjTQ_offer_delay E (mj_Name c) 0 ?u"
    using c n by (simp add: enqueueMaintenanceJobForScheduling_def getMaintenanceJobFromCache_def)
  have "fst (mjTQ_offer_delay E (mj_Name c) 0 ?u) = None"
    using q by (simp add: mjTQ_offer_delay_def OfferWithDelay_def offer_result split_beta Let_def holds_only_def)
  then have "onMaintenanceJobAdded E c w = (Returns None, snd (mjTQ_offer_delay E (mj_Name c) 0 ?u))"
    using c n p e drains_wellD(1) [OF d]
    by (cases "mjTQ_offer_delay E (mj_Name c) 0 ?u")
      (simp add: onMaintenanceJobAdded_def JobFinished_def last_stage_test_def mj_UpdateStatus_def Let_def)
  with offer_delay_holds [OF q', of "mj_Name c" E 0] show ?thesis
    by (simp add: w1 catch_up_def offer_delay_mj holds_only_def)
qed

lemma poll_rounds_drain:
  assumes d: "drains_well E t0 t1 c" and q: "queue_holds [n] w"
    and c: "map_of (wd_Mj w) (mj_key (jobNamespace E) n) = Some j" "job_at c 0 (stage_draining t0) stage_new j"
  shows "k \<le> length (spec_stages c) \<Longrightarrow>
    queue_holds (if k < length (spec_stages c) then [n] else []) (poll_rounds E (Suc k) w) \<and>
    fst (poll_round E (poll_rounds E k w)) = Returns () \<and>
    (\<exists>j'. map_of (wd_Mj (poll_rounds E (Suc k) w)) (mj_key (jobNamespace E) n) = Some j' \<and>
      job_at c k stage_drained (stage_draining t0) j' \<and>
      (0 < k \<longrightarrow> round_drains E c (k - 1) (poll_rounds E k w) (poll_rounds E (Suc k) w) j'))"
proof (induction k)
  case 0
  from first_round [OF d q c] drains_wellD(5) [OF d] show ?case by simp
next
  case (Suc k)
  then obtain j' where "queue_holds [n] (poll_rounds E (Suc k) w)"
    "map_of (wd_Mj (poll_rounds E (Suc k) w)) (mj_key (jobNamespace E) n) = Some j'"
    "job_at c k stage_drained (stage_draining t0) j'" "k < length (spec_stages c)" by auto
  with drain_round [OF d, of n "poll_rounds E (Suc k) w" k j'] show ?case by simp
qed

text \<open>C7: A maintenance job of drain stages that the controller has created runs to its end. When it is added it is
  padded and enqueued; the first delivery of its entry starts every stage (running, with the time, and neither succeeded
  nor failed); each of the next deliveries drains the nodes of one stage, in the order of the stages, marks this
  stage as succeeded and finished and leaves those behind it running, and writes nothing but the patches of the drain and
  one status update. No delivery panics; the entry is put back until all stages have succeeded, and not any more after
  it. As nothing processes the job again, the time of its success is never recorded in its status. What is assumed
  (\<open>drains_well\<close>): the API server accepts the status updates of jobs and answers with what it was sent, which the informer
  brings back; draining the nodes of each stage succeeds whenever it is tried; every reading of the clock is
  after the delays of all stages and before the timeout of each; and the queue holds nothing else.\<close>

theorem drain_job_finishes:
  assumes "drains_well E t0 t1 c" and "om_Namespace (mj_Meta c) = jobNamespace E"
    and "mj_Status c = \<lparr>jt_SucceededAt = None, jt_FailedAt = None, jt_Stages = []\<rparr>"
    and "map_of (wd_Mj w) (mj_key (jobNamespace E) (mj_Name c)) = Some c" and "queue_holds [] w"
  shows "let N = length (spec_stages c); key = mj_key (jobNamespace E) (mj_Name c);
      w1 = catch_up key (snd (onMaintenanceJobAdded E c w)); at = \<lambda>k. poll_rounds E k w1;
      cached = \<lambda>k j. map_of (wd_Mj (at k)) key = Some j in
    cached 0 (pad_stages c) \<and>
    (\<forall>k \<le> N. fst (poll_round E (at k)) = Returns () \<and> tq_keys (wd_MjTQ (at k)) = [mj_Name c]) \<and>
    (\<exists>j. cached 1 j \<and> job_at c 0 stage_drained (stage_draining t0) j) \<and>
    (\<forall>k < N. \<exists>j. cached (k + 2) j \<and> job_at c (Suc k) stage_drained (stage_draining t0) j \<and>
       round_drains E c k (at (k + 1)) (at (k + 2)) j) \<and>
    tq_keys (wd_MjTQ (at (N + 1))) = [] \<and> tq_expired (wd_MjTQ (at (N + 1))) = [] \<and>
    (\<exists>j. cached (N + 1) j \<and> length (status_stages j) = N \<and> all_succeeded (status_stages j) \<and>
       jt_SucceededAt (mj_Status j) = None)"
proof -
  let ?N = "length (spec_stages c)" and ?key = "mj_key (jobNamespace E) (mj_Name c)"
  let ?w1 = "catch_up ?key (snd (onMaintenanceJobAdded E c w))"
  have a: "queue_holds [mj_Name c] ?w1" "map_of (wd_Mj ?w1) ?key = Some (pad_stages c)"
    using added_round [OF assms(1,5,4,2,3) refl] by simp_all
  note r = poll_rounds_drain [OF assms(1) a pad_empty_new [OF assms(3)]]
  have k: "fst (poll_round E (poll_rounds E k ?w1)) = Returns () \<and> tq_keys (wd_MjTQ (poll_rounds E k ?w1)) = [mj_Name c]"
    if "k \<le> ?N" for k
    using r [of k] r [of "k - 1"] that a(1) by (cases k) (auto simp: holds_only_def)
  have s: "\<exists>j. map_of (wd_Mj (poll_rounds E (k + 2) ?w1)) ?key = Some j \<and> job_at c (Suc k) stage_drained (stage_draining t0) j \<and>
      round_drains E c k (poll_rounds E (k + 1) ?w1) (poll_rounds E (k + 2) ?w1) j" if "k < ?N" for k
    using r [of "Suc k"] that by (simp del: poll_rounds.simps)
  obtain j where j: "map_of (wd_Mj (poll_rounds E (?N + 1) ?w1)) ?key = Some j" "job_at c ?N stage_drained (stage_draining t0) j"
    using r [of ?N] by (auto simp del: poll_rounds.simps)
  have e: "\<exists>j. map_of (wd_Mj (poll_rounds E (?N + 1) ?w1)) ?key = Some j \<and> length (status_stages j) = ?N \<and>
      all_succeeded (status_stages j) \<and> jt_SucceededAt (mj_Status j) = None"
    using all_drained(2) [OF j(2)] j by (intro exI [of _ j]) (simp add: job_at_def)
  have f: "\<exists>j. map_of (wd_Mj (poll_rounds E 1 ?w1)) ?key = Some j \<and> job_at c 0 stage_drained (stage_draining t0) j"
    using r [of 0] by (auto simp del: poll_rounds.simps)
  have q: "tq_keys (wd_MjTQ (poll_rounds E (?N + 1) ?w1)) = [] \<and> tq_expired (wd_MjTQ (poll_rounds E (?N + 1) ?w1)) = []"
    using r [of ?N] by (simp add: holds_only_def del: poll_rounds.simps)
  show ?thesis unfolding Let_def using a(2) k s f q e by (simp del: poll_rounds.simps(2))
qed

definition sample_drain_job :: MaintenanceJob where
  "sample_drain_job = sample_job\<lparr>mj_Spec := (mj_Spec sample_job)\<lparr>js_Stages := [sample_drain_stage, sample_drain_stage]\<rparr>\<rparr>"

lemma sample_drains: "fst (drainNodes sample_env_rec j sample_drain_stage w) = Returns None"
  by (simp add: drainNodes_def getNodesByMaintenanceNodeSelectors_def api_defs sample_env_rec_def
      sample_drain_stage_def sample_node_def hasExpectedTaints_def patchUpdateNode_def Let_def)

lemma sample_drains_well: "drains_well sample_env_rec 100 100 sample_drain_job"
  using sample_drains
  by (simp add: drains_well_def sample_drain_job_def sample_job_def zero_MaintenanceJob_def zero_ObjectMeta_def)
    (simp add: sample_env_rec_def sample_drain_stage_def)

theorem drain_job_finishes_witness:
  "let at = \<lambda>k. poll_rounds sample_env_rec k (catch_up ''ns/mt.n'' (snd (onMaintenanceJobAdded sample_env_rec sample_drain_job
       (sample_world_mj sample_drain_job)))) in
   (\<exists>j. round_drains sample_env_rec sample_drain_job 0 (at 1) (at 2) j) \<and>
   (\<exists>j. round_drains sample_env_rec sample_drain_job 1 (at 2) (at 3) j) \<and>
   tq_keys (wd_MjTQ (at 2)) = [''mt.n''] \<and> tq_keys (wd_MjTQ (at 3)) = [] \<and>
   (\<exists>j. map_of (wd_Mj (at 3)) ''ns/mt.n'' = Some j \<and> all_succeeded (status_stages j))"
proof -
  have s: "length (spec_stages sample_drain_job) = 2" "mj_Name sample_drain_job = ''mt.n''"
    "om_Namespace (mj_Meta sample_drain_job) = ''ns''" "jobNamespace sample_env_rec = ''ns''"
    "mj_Status sample_drain_job = \<lparr>jt_SucceededAt = None, jt_FailedAt = None, jt_Stages = []\<rparr>"
    by (simp_all add: sample_drain_job_def sample_job_def zero_MaintenanceJob_def sample_env_rec_def sample_config_def)
  have w: "map_of (wd_Mj (sample_world_mj sample_drain_job)) (mj_key (jobNamespace sample_env_rec) (mj_Name sample_drain_job)) =
      Some sample_drain_job" "queue_holds [] (sample_world_mj sample_drain_job)"
    using s by (simp_all add: sample_world_mj_def holds_only_def sample_world_def tq_Start_def NewTimeoutQueue_def mj_key_def)
  have n: "om_Namespace (mj_Meta sample_drain_job) = jobNamespace sample_env_rec" using s by simp
  have k: "mj_key (jobNamespace sample_env_rec) (mj_Name sample_drain_job) = ''ns/mt.n''" using s by (simp add: mj_key_def)
  have lt: "(\<forall>k < (2 :: nat). P k) \<longleftrightarrow> P 0 \<and> P 1" for P by (auto simp: less_2_cases_iff)
  have i: "(0 :: nat) + 1 = 1" "(0 :: nat) + 2 = 2" "(1 :: nat) + 1 = 2" "(1 :: nat) + 2 = 3" "(2 :: nat) + 1 = 3" by simp_all
  note t = drain_job_finishes [OF sample_drains_well n s(5) w, unfolded Let_def s(1) k lt i, unfolded s(2)]
  let ?at = "\<lambda>k. poll_rounds sample_env_rec k (catch_up ''ns/mt.n'' (snd (onMaintenanceJobAdded sample_env_rec sample_drain_job
      (sample_world_mj sample_drain_job))))"
  from t have "\<forall>k \<le> 2. fst (poll_round sample_env_rec (?at k)) = Returns () \<and> tq_keys (wd_MjTQ (?at k)) = [''mt.n'']" by blast
  then have "tq_keys (wd_MjTQ (?at 2)) = [''mt.n'']" by blast
  with t show ?thesis unfolding Let_def by blast
qed

text \<open>C34: When the API server refuses the status update that ends the last stage of a maintenance job, the error is
  only logged: the cached object already counts as finished, so that the job is not put back into the
  queue, and on the server the stage goes on running, although its nodes are drained.\<close>

theorem refused_update_strands_job:
  assumes "map_of (wd_Mj w) (mj_key (jobNamespace E) n) = Some c" and "unfinished c"
    and "status_stages c = pre @ [s]" and "\<forall>s \<in> set pre. stage_drained s" and "stage_draining t0 s"
    and "length (spec_stages c) = Suc (length pre)" and "st_Drain (last (spec_stages c)) = Some d"
    and "en_Now E (wd_Hist w) \<le> t0 + sint (st_Timeout (last (spec_stages c)))"
    and "drainNodes E c (last (spec_stages c)) (log_effect (Clock (en_Now E (wd_Hist w))) w) = (Returns None, w1)"
    and "\<And>h j. en_MjUpdateStatus E h j = Inl err" and "t0 > 0" and "\<And>h. t0 \<le> en_Now E h"
  shows "let (r, w') = processMaintenanceJobSchedule E n w; t = en_Now E (wd_Hist w1);
      c' = set_stage (length pre) (stage_succeeded t) c in
    r = Returns () \<and> wd_MjTQ w' = wd_MjTQ w \<and> map_of (wd_Mj w') (mj_key (jobNamespace E) n) = Some c' \<and>
    writes (wd_Hist w') = MjUpdateStatus c' # writes (wd_Hist w1)"
proof -
  let ?key = "mj_key (jobNamespace E) n" and ?k = "length pre" and ?t = "en_Now E (wd_Hist w1)"
  let ?c = "set_stage ?k (stage_succeeded ?t) c"
  have l: "spec_stages c ! ?k = last (spec_stages c)" "status_stages c ! ?k = s" "length (status_stages c) = Suc ?k"
    using assms(3,6) last_conv_nth [of "spec_stages c"] by (auto simp: length_Suc_conv_rev)
  obtain a where a: "ss_ScheduledAt s = Some a" "t0 \<le> a" using assms(5) by (auto simp: stage_draining_def)
  have "stage_body E ?key True ?k s c w = (Returns (Return (Some err)),
      log_effect (MjUpdateStatus ?c) (put_mj ?key ?c (log_effect (Clock ?t) w1)))"
    using running_drain_ends [of s a ?k c d E w w1 ?t ?c ?key] a assms(5-10) l
    by (simp add: stage_draining_def)
  moreover have "all_succeeded pre" using assms(4) by (simp add: all_succeeded_def stage_drained_def)
  ultimately have run: "scheduleMaintenanceJob E (jobNamespace E) n w = (Returns (Some err),
      log_effect (MjUpdateStatus ?c) (put_mj ?key ?c (log_effect (Clock ?t) w1)))"
    using scheduleMaintenanceJob_at [OF assms(1,2), of pre s "[]" E] assms(3) by simp
  have "\<forall>s \<in> set (status_stages ?c). stage_drained s"
    using assms(3,4,11) assms(12) [of "wd_Hist w1"]
    by (auto simp: set_stage_def stage_drained_def stage_succeeded_def time_defs)
  then have "\<not> wants_scheduling ?c"
    using l assms(3,6) by (auto simp: wants_scheduling_def Let_def stage_drained_def takeWhile_eq_all_conv
        filter_id_conv set_stage_def)
  moreover have "wd_MjTQ w1 = wd_MjTQ w"
    using drainNodes_same_state [of "log_effect (Clock (en_Now E (wd_Hist w))) w" E c "last (spec_stages c)"] assms(9)
    by (simp add: same_state_def)
  ultimately show ?thesis
    using run by (simp add: processMaintenanceJobSchedule_def enqueueMaintenanceJobForScheduling_def
        getMaintenanceJobFromCache_def finished_count_eq wants_scheduling_def Let_def)
qed

definition refusing_env :: env where
  "refusing_env = sample_env_rec\<lparr>en_MjUpdateStatus := \<lambda>_ _. Inl (ErrorString ''conflict'')\<rparr>"

definition sample_draining_job :: MaintenanceJob where
  "sample_draining_job = set_stages [stage_started 90 (new_stage_status ''drain'')]
     (sample_job\<lparr>mj_Spec := (mj_Spec sample_job)\<lparr>js_Stages := [sample_drain_stage]\<rparr>\<rparr>)"

theorem refused_update_strands_job_witness:
  "\<exists>p. writes (wd_Hist (snd (processMaintenanceJobSchedule refusing_env ''mt.n'' (sample_world_mj sample_draining_job)))) =
     [MjUpdateStatus (set_stage 0 (stage_succeeded 100) sample_draining_job), NodePatch ''n1'' p] \<and>
   tq_keys (wd_MjTQ (snd (processMaintenanceJobSchedule refusing_env ''mt.n'' (sample_world_mj sample_draining_job)))) = []"
proof -
  let ?w = "sample_world_mj sample_draining_job" and ?c = sample_draining_job
  let ?u = "log_effect (Clock (en_Now refusing_env (wd_Hist ?w))) ?w"
  have e: "jobNamespace refusing_env = ''ns''" "en_Now refusing_env = (\<lambda>_. 100)"
    by (simp_all add: refusing_env_def sample_env_rec_def sample_config_def)
  have c: "spec_stages ?c = [sample_drain_stage]" "status_stages ?c = [] @ [stage_started 90 (new_stage_status ''drain'')]"
    by (simp_all add: sample_draining_job_def set_stages_def)
  define w1 where "w1 = snd (drainNodes refusing_env ?c sample_drain_stage ?u)"
  have w1: "drainNodes refusing_env ?c sample_drain_stage ?u = (Returns None, w1)"
      "\<exists>p. writes (wd_Hist w1) = [NodePatch ''n1'' p]"
    unfolding w1_def
    by (simp_all add: drainNodes_def getNodesByMaintenanceNodeSelectors_def api_defs refusing_env_def sample_env_rec_def
      sample_drain_stage_def sample_node_def hasExpectedTaints_def patchUpdateNode_def Let_def sample_world_mj_def sample_world_def)
  have "unfinished ?c"
    by (simp add: unfinished_def sample_draining_job_def set_stages_def sample_job_def zero_MaintenanceJob_def
        job_test_defs new_stage_status_def stage_started_def)
  moreover have "stage_draining 90 (stage_started 90 (new_stage_status ''drain''))"
    by (simp add: stage_draining_def stage_started_def new_stage_status_def)
  moreover have "map_of (wd_Mj ?w) (mj_key (jobNamespace refusing_env) ''mt.n'') = Some ?c"
    by (simp add: sample_world_mj_def mj_key_def e)
  ultimately show ?thesis
    using refused_update_strands_job [where w = ?w and E = refusing_env and n = "''mt.n''" and c = ?c and pre = "[]"
        and ?t0.0 = 90 and ?w1.0 = w1 and err = "ErrorString ''conflict''"] c e w1
    by (simp add: refusing_env_def sample_drain_stage_def split_beta Let_def sample_world_mj_def sample_world_def
        tq_Start_def NewTimeoutQueue_def)
qed

end
