(* ===== verification/QueueRaces.thy ===== *)
theory QueueRaces
  imports Controller
begin

text \<open>
  The two goroutines that use the queue of maintenances (\<open>controller.go\<close>, \<open>maintenance.go\<close>): the worker of the
  reconciler, which runs the handlers, and the consumer of the queue. Both look a key up before they
  offer it (\<open>doEnqueue\<close>), but each call locks the queue for itself, so that the other goroutine may run
  between the two. The worker also removes keys. What else they do does not touch the queue.
\<close>

section \<open>Steps\<close>

text \<open>\<open>ra_worker\<close> and \<open>ra_consumer\<close> are the keys the goroutines have looked up in vain and are about to offer.\<close>

record racing =
  ra_q :: "(string, unit) TimeoutQueue"
  ra_worker :: "string option"
  ra_consumer :: "string option"

datatype goroutine = Worker | Consumer

fun about_to_offer :: "goroutine \<Rightarrow> racing \<Rightarrow> string option" where
  "about_to_offer Worker s = ra_worker s"
| "about_to_offer Consumer s = ra_consumer s"

fun set_about :: "goroutine \<Rightarrow> string option \<Rightarrow> racing \<Rightarrow> racing" where
  "set_about Worker k s = s\<lparr>ra_worker := k\<rparr>"
| "set_about Consumer k s = s\<lparr>ra_consumer := k\<rparr>"

datatype race_action =
    Look goroutine string
  | Offer goroutine gotime gotime
  | Remove string
  | Sort "(nat \<times> nat) list" gotime
  | Take

text \<open>\<open>None\<close> when the goroutine is not there. A key that is found is not offered.\<close>

fun race_step :: "race_action \<Rightarrow> racing \<Rightarrow> racing option" where
  "race_step (Look g k) s =
     (if about_to_offer g s \<noteq> None then None
      else if tq_Find k (ra_q s) \<noteq> None then Some s
      else Some (set_about g (Some k) s))"
| "race_step (Offer g at now) s =
     (case about_to_offer g s of
        None \<Rightarrow> None
      | Some k \<Rightarrow> Some (set_about g None (s\<lparr>ra_q := snd (OfferWithTime k () at now (ra_q s))\<rparr>)))"
| "race_step (Remove k) s =
     (if ra_worker s \<noteq> None then None else Some (s\<lparr>ra_q := snd (tq_Remove k (ra_q s))\<rparr>))"
| "race_step (Sort swaps now) s =
     (if swaps_in_range swaps (ra_q s) then Some (s\<lparr>ra_q := tq_sort swaps now (ra_q s)\<rparr>) else None)"
| "race_step Take s =
     (if ra_consumer s \<noteq> None then None
      else case tq_expired (ra_q s) of
             [] \<Rightarrow> None
           | d # ds \<Rightarrow> Some (s\<lparr>ra_q := (ra_q s)\<lparr>tq_expired := ds\<rparr>\<rparr>))"

fun race_run :: "race_action list \<Rightarrow> racing \<Rightarrow> racing option" where
  "race_run [] s = Some s"
| "race_run (a # as) s = Option.bind (race_step a s) (race_run as)"

definition race_moves :: "racing \<Rightarrow> racing \<Rightarrow> bool" where
  "race_moves s s' \<longleftrightarrow> (\<exists>a. race_step a s = Some s')"

definition race_start :: racing where
  "race_start = \<lparr>ra_q = tq_Start NewTimeoutQueue, ra_worker = None, ra_consumer = None\<rparr>"

lemma race_run_moves: "race_run as s = Some s' \<Longrightarrow> race_moves\<^sup>*\<^sup>* s s'"
proof (induction as arbitrary: s)
  case (Cons a as)
  then obtain s1 where "race_step a s = Some s1" "race_run as s1 = Some s'" by (auto simp: bind_eq_Some_conv)
  with Cons.IH [of s1] show ?case by (auto simp: race_moves_def intro: converse_rtranclp_into_rtranclp)
qed simp

text \<open>What the enqueueing and the deletion do to the queue are two of these steps, one after the other, and
  a removal.\<close>

lemma enqueue_is_race:
  assumes "fst (doEnqueue E mt now d w) \<noteq> Panics NilDereference" and "ra_q s = wd_MtTQ w" and "about_to_offer g s = None"
  shows "\<exists>as. set as \<subseteq> {Look g (mt_Name mt)} \<union> range (\<lambda>(at, now). Offer g at now) \<and>
    race_run as s = Some (s\<lparr>ra_q := wd_MtTQ (snd (doEnqueue E mt now d w))\<rparr>)"
proof (cases "tq_Find (mt_Name mt) (wd_MtTQ w)")
  case (Some x)
  with assms(2,3) have "race_run [Look g (mt_Name mt)] s = Some (s\<lparr>ra_q := wd_MtTQ (snd (doEnqueue E mt now d w))\<rparr>)"
    by (simp add: doEnqueue_def)
  then show ?thesis by (intro exI [of _ "[Look g (mt_Name mt)]"]) simp
next
  case None
  with assms(1) obtain at now' where
    q: "wd_MtTQ (snd (doEnqueue E mt now d w)) = snd (OfferWithTime (mt_Name mt) () at now' (wd_MtTQ w))"
    by (auto simp: doEnqueue_def mtTQ_offer_delay_def mtTQ_offer_time_def OfferWithDelay_def Let_def split_beta
        split: if_splits option.splits)
  have "race_run [Look g (mt_Name mt), Offer g at now'] s = Some (s\<lparr>ra_q := wd_MtTQ (snd (doEnqueue E mt now d w))\<rparr>)"
    using None assms(2,3) q by (cases g) simp_all
  then show ?thesis by (intro exI [of _ "[Look g (mt_Name mt), Offer g at now']"]) auto
qed

lemma deletion_is_race:
  assumes "ra_q s = wd_MtTQ w" and "ra_worker s = None"
  shows "\<exists>as. set as \<subseteq> {Remove (mt_Name mt)} \<and>
    race_run as s = Some (s\<lparr>ra_q := wd_MtTQ (snd (onMaintenanceDeleting E mt w))\<rparr>)"
proof -
  have "wd_MtTQ (snd (onMaintenanceDeleting E mt w)) = wd_MtTQ w \<or>
      wd_MtTQ (snd (onMaintenanceDeleting E mt w)) = snd (tq_Remove (mt_Name mt) (wd_MtTQ w))"
    by (auto simp: onMaintenanceDeleting_def mt_Delete_def Let_def split: option.split)
  with assms show ?thesis
    by (auto intro: exI [of _ "[]"] exI [of _ "[Remove (mt_Name mt)]"])
qed

section \<open>How often a key is queued\<close>

definition queued :: "string \<Rightarrow> (string, unit) TimeoutQueue \<Rightarrow> nat" where
  "queued k q = count (mset (tq_keys q)) k"

definition waiting :: "string \<Rightarrow> string option \<Rightarrow> nat" where
  "waiting k about = (if about = Some k then 1 else 0)"

lemma waiting_simps [simp]: "waiting k None = 0" "waiting k (Some k') = (if k' = k then 1 else 0)" "waiting k x \<le> 1"
  by (simp_all add: waiting_def)

text \<open>The entries of a key, there and about to be there.\<close>

definition demand :: "racing \<Rightarrow> string \<Rightarrow> nat" where
  "demand s k = queued k (ra_q s) + waiting k (ra_worker s) + waiting k (ra_consumer s)"

definition race_inv :: "racing \<Rightarrow> bool" where
  "race_inv s \<longleftrightarrow> tq_inv (ra_q s) \<and> (\<forall>k. demand s k \<le> 2)"

lemma queued_absent: "tq_inv q \<Longrightarrow> tq_Find k q = None \<Longrightarrow> queued k q = 0"
  using tq_Find_iff [of q k] by (auto simp: queued_def count_eq_zero_iff)

lemma queued_offer: "queued k' (snd (OfferWithTime k () at now q)) \<le> queued k' q + waiting k' (Some k)"
  unfolding queued_def by (simp add: tq_keys_offer waiting_def)

lemma queued_remove: "tq_inv q \<Longrightarrow> queued k' (snd (tq_Remove k q)) \<le> queued k' q"
  using tq_data_remove [of q k] by (simp add: queued_def)

lemma queued_sort:
  assumes "swaps_in_range swaps q"
  shows "queued k (tq_sort swaps now q) \<le> queued k q"
proof -
  let ?d = "tq_data (tq_swaps swaps q)"
  have m: "mset ?d = mset (tq_data q)" using assms mset_swaps by (simp add: swaps_in_range_def)
  have "mset (tq_data (tq_sort swaps now q)) \<subseteq># mset ?d"
  proof -
    have "mset (dropWhile p ?d) \<subseteq># mset ?d" for p
      by (metis mset_append mset_subset_eq_add_right takeWhile_dropWhile_id)
    then show ?thesis using m by (simp add: tq_sort_def Let_def split: list.split)
  qed
  then have "mset (tq_keys (tq_sort swaps now q)) \<subseteq># mset (tq_keys q)"
    using m image_mset_subseteq_mono [of _ _ td_Key] by (metis mset_map)
  then show ?thesis unfolding queued_def by (rule mset_subset_eq_count)
qed

lemma demand_less:
  assumes "race_inv s" and "tq_inv (ra_q s')" and "\<And>k. demand s' k \<le> demand s k"
  shows "race_inv s'"
  using assms order_trans unfolding race_inv_def by blast

lemma race_inv_look:
  assumes "race_inv s" and "about_to_offer g s = None" and "tq_Find k (ra_q s) = None"
  shows "race_inv (set_about g (Some k) s)"
proof -
  have i: "tq_inv (ra_q s)" and c: "demand s k' \<le> 2" for k' using assms(1) by (simp_all add: race_inv_def)
  have "demand (set_about g (Some k) s) k' \<le> 2" for k'
    using c [of k'] queued_absent [OF i assms(3)] assms(2) waiting_simps(3) [of k "ra_worker s"]
      waiting_simps(3) [of k "ra_consumer s"]
    by (cases g; cases "k' = k") (simp_all add: demand_def)
  with i show ?thesis by (cases g) (simp_all add: race_inv_def)
qed

lemma race_inv_offer:
  assumes "race_inv s" and "about_to_offer g s = Some k"
  shows "race_inv (set_about g None (s\<lparr>ra_q := snd (OfferWithTime k () at now (ra_q s))\<rparr>))"
proof (rule demand_less [OF assms(1)])
  show "tq_inv (ra_q (set_about g None (s\<lparr>ra_q := snd (OfferWithTime k () at now (ra_q s))\<rparr>)))"
    using assms(1) tq_inv_offer [of "ra_q s" k "()" at now] by (cases g) (simp_all add: race_inv_def)
  show "demand (set_about g None (s\<lparr>ra_q := snd (OfferWithTime k () at now (ra_q s))\<rparr>)) k' \<le> demand s k'" for k'
    using assms(2) queued_offer [of k' k at now "ra_q s"] by (cases g) (simp_all add: demand_def split: if_splits)
qed

lemma race_inv_queue:
  assumes "race_inv s" and "tq_inv q" and "\<And>k. queued k q \<le> queued k (ra_q s)"
  shows "race_inv (s\<lparr>ra_q := q\<rparr>)"
  by (rule demand_less [OF assms(1)]) (simp_all add: assms(2,3) demand_def)

lemma race_inv_step:
  assumes "race_inv s" and "race_moves s s'"
  shows "race_inv s'"
proof -
  obtain a where a: "race_step a s = Some s'" using assms(2) by (auto simp: race_moves_def)
  have i: "tq_inv (ra_q s)" using assms(1) by (simp add: race_inv_def)
  show ?thesis
  proof (cases a)
    case (Look g k)
    with a assms(1) race_inv_look show ?thesis by (auto split: if_splits)
  next
    case (Offer g at now)
    with a assms(1) race_inv_offer show ?thesis by (auto split: option.splits)
  next
    case (Remove k)
    with a have "s' = s\<lparr>ra_q := snd (tq_Remove k (ra_q s))\<rparr>" by (simp split: if_splits)
    with race_inv_queue [OF assms(1) tq_inv_remove [OF i] queued_remove [OF i]] show ?thesis by simp
  next
    case (Sort swaps now)
    with a have sw: "swaps_in_range swaps (ra_q s)" "s' = s\<lparr>ra_q := tq_sort swaps now (ra_q s)\<rparr>"
      by (auto split: if_splits)
    have "tq_inv (tq_sort swaps now (ra_q s))"
      using tq_inv_sort [OF i] sw(1) unfolding swaps_in_range_def .
    from race_inv_queue [OF assms(1) this queued_sort [OF sw(1)]] sw(2) show ?thesis by simp
  next
    case Take
    with a obtain ds where "s' = s\<lparr>ra_q := (ra_q s)\<lparr>tq_expired := ds\<rparr>\<rparr>" by (auto split: if_splits list.splits)
    with race_inv_queue [OF assms(1), of "(ra_q s)\<lparr>tq_expired := ds\<rparr>"] i show ?thesis
      by (simp add: queued_def tq_inv_def)
  qed
qed

interpretation race: step_invariant race_moves race_start race_inv
proof
  show "race_inv race_start"
    by (simp add: race_inv_def demand_def race_start_def queued_def waiting_def tq_Start_def NewTimeoutQueue_def tq_inv_def index_ok_def)
qed (rule race_inv_step)

section \<open>Properties\<close>

text \<open>An entry of a maintenance has been taken; while the consumer schedules it, an update of the
  maintenance looks it up, and so does the consumer before it puts it back.\<close>

definition both_offer :: "string \<Rightarrow> race_action list" where
  "both_offer k = [Look Worker k, Look Consumer k, Offer Worker 0 0, Offer Consumer 0 0]"

lemma both_offer_twice: "map_option (\<lambda>s. queued k (ra_q s)) (race_run (both_offer k) race_start) = Some 2"
  by (simp add: both_offer_def race_start_def tq_Start_def NewTimeoutQueue_def tq_Find_def OfferWithTime_def queued_def Let_def)

text \<open>A key that is queued twice stays in the queue when it is removed.\<close>

lemma removed_still_queued:
  "map_option (\<lambda>s. queued k (ra_q s)) (race_run (both_offer k @ [Remove k]) race_start) = Some 1"
  by (simp add: both_offer_def race_start_def tq_Start_def NewTimeoutQueue_def tq_Find_def OfferWithTime_def
      tq_Remove_def queued_def Let_def)

text \<open>C13: The look-up before the offer does not keep the keys of the queue unique, since another goroutine may come in
  between, but at no time does the queue hold more than two entries of a maintenance, whatever the
  interleaving of the two goroutines; two do occur, and then the deletion of the maintenance leaves
  one behind.\<close>

theorem queue_entries_bounded:
  "(\<forall>s k. race_moves\<^sup>*\<^sup>* race_start s \<longrightarrow> queued k (ra_q s) \<le> 2) \<and>
   (\<exists>s. race_moves\<^sup>*\<^sup>* race_start s \<and> queued k (ra_q s) = 2 \<and>
     (\<exists>s'. race_step (Remove k) s = Some s' \<and> queued k (ra_q s') = 1))"
proof (intro conjI allI impI)
  fix s k assume "race_moves\<^sup>*\<^sup>* race_start s"
  from race.reachable_inv [OF this] have "demand s k \<le> 2" by (simp add: race_inv_def)
  then show "queued k (ra_q s) \<le> 2" by (simp add: demand_def)
next
  obtain s where s: "race_run (both_offer k) race_start = Some s" "queued k (ra_q s) = 2"
    using both_offer_twice [of k] by auto
  have "race_run (as @ [a]) s = Option.bind (race_run as s) (race_step a)" for as a s
    by (induction as arbitrary: s) (auto split: Option.bind_splits)
  with s(1) removed_still_queued [of k]
  have "map_option (\<lambda>s. queued k (ra_q s)) (race_step (Remove k) s) = Some 1" by simp
  then obtain s' where "race_step (Remove k) s = Some s'" "queued k (ra_q s') = 1" by blast
  with s(2) race_run_moves [OF s(1)] show "\<exists>s. race_moves\<^sup>*\<^sup>* race_start s \<and> queued k (ra_q s) = 2 \<and>
     (\<exists>s'. race_step (Remove k) s = Some s' \<and> queued k (ra_q s') = 1)" by blast
qed

theorem queue_entries_bounded_witness:
  "\<exists>s. race_moves\<^sup>*\<^sup>* race_start s \<and> queued ''mt'' (ra_q s) = 2"
  using queue_entries_bounded [of "''mt''"] by blast

end
