(* ===== verification/ObjectTracker.thy ===== *)
theory ObjectTracker
  imports Clientset "HOL-Library.Sublist" "HOL-Library.List_Lexorder" "HOL-Library.Char_ord" "HOL-Library.Product_Lexorder"
begin

text \<open>
  The object tracker of \<open>k8s.io/client-go/testing/fixture.go\<close> behind the fake clientset: objects by resource, namespace
  and name, and the watchers (\<open>k8s.io/apimachinery/pkg/watch\<close>) that are sent each change. A
  watcher is a number, its place in the list of all watchers made, as the tracker and its user share it.
\<close>

section \<open>Objects and watchers\<close>

datatype api_object = MtObject Maintenance | JobObject MaintenanceJob

fun obj_meta :: "api_object \<Rightarrow> ObjectMeta" where
  "obj_meta (MtObject m) = mt_Meta m"
| "obj_meta (JobObject j) = mj_Meta j"

fun SetNamespace :: "string \<Rightarrow> api_object \<Rightarrow> api_object" where
  "SetNamespace ns (MtObject m) = MtObject (m\<lparr>mt_Meta := (mt_Meta m)\<lparr>om_Namespace := ns\<rparr>\<rparr>)"
| "SetNamespace ns (JobObject j) = JobObject (j\<lparr>mj_Meta := (mj_Meta j)\<lparr>om_Namespace := ns\<rparr>\<rparr>)"

fun obj_type :: "api_object \<Rightarrow> go_type" where
  "obj_type (MtObject _) = (''v1alpha1'', ''Maintenance'')"
| "obj_type (JobObject _) = (''v1alpha1'', ''MaintenanceJob'')"

type_synonym gvr = "string \<times> string \<times> string"

datatype watch_event = Added api_object | Modified api_object | Deleted api_object

text \<open>The channel of a watcher is buffered. When it is full, sending panics.\<close>

record RaceFreeFakeWatcher =
  fw_result :: "watch_event list"
  fw_Stopped :: bool

definition DefaultChanSize :: nat where
  "DefaultChanSize = 100"

definition NewRaceFreeFake :: RaceFreeFakeWatcher where
  "NewRaceFreeFake = \<lparr>fw_result = [], fw_Stopped = False\<rparr>"

definition send :: "watch_event \<Rightarrow> RaceFreeFakeWatcher \<Rightarrow> RaceFreeFakeWatcher outcome" where
  "send e f =
     (if fw_Stopped f then Returns f
      else if length (fw_result f) < DefaultChanSize then Returns (f\<lparr>fw_result := fw_result f @ [e]\<rparr>)
      else Panics ChannelFull)"

definition watcher_Stop :: "RaceFreeFakeWatcher \<Rightarrow> RaceFreeFakeWatcher" where
  "watcher_Stop f = (if fw_Stopped f then f else f\<lparr>fw_Stopped := True\<rparr>)"

text \<open>Receiving from the channel; \<open>None\<close> when there is nothing in it.\<close>

definition receive :: "RaceFreeFakeWatcher \<Rightarrow> (watch_event \<times> RaceFreeFakeWatcher) option" where
  "receive f = (case fw_result f of [] \<Rightarrow> None | e # es \<Rightarrow> Some (e, f\<lparr>fw_result := es\<rparr>))"

section \<open>The tracker\<close>

record tracker =
  tk_objects :: "(gvr \<times> ((string \<times> string) \<times> api_object) list) list"
  tk_watchers :: "(gvr \<times> (string \<times> nat list) list) list"
  tk_fakes :: "RaceFreeFakeWatcher list"

definition NewObjectTracker :: tracker where
  "NewObjectTracker = \<lparr>tk_objects = [], tk_watchers = [], tk_fakes = []\<rparr>"

definition objects_of :: "gvr \<Rightarrow> tracker \<Rightarrow> ((string \<times> string) \<times> api_object) list" where
  "objects_of gvr t = (case map_of (tk_objects t) gvr of None \<Rightarrow> [] | Some objs \<Rightarrow> objs)"

definition store :: "gvr \<Rightarrow> string \<times> string \<Rightarrow> api_object \<Rightarrow> tracker \<Rightarrow> tracker" where
  "store gvr k obj t = t\<lparr>tk_objects := AList.update gvr (AList.update k obj (objects_of gvr t)) (tk_objects t)\<rparr>"

definition watchers_of :: "gvr \<Rightarrow> string \<Rightarrow> tracker \<Rightarrow> nat list" where
  "watchers_of gvr ns t =
     (case map_of (tk_watchers t) gvr of
        None \<Rightarrow> []
      | Some m \<Rightarrow> (case map_of m ns of None \<Rightarrow> [] | Some w \<Rightarrow> w))"

definition getWatches :: "gvr \<Rightarrow> string \<Rightarrow> tracker \<Rightarrow> nat list" where
  "getWatches gvr ns t = watchers_of gvr ns t @ (if ns \<noteq> [] then watchers_of gvr [] t else [])"

definition tracker_Watch :: "gvr \<Rightarrow> string \<Rightarrow> tracker \<Rightarrow> nat \<times> tracker" where
  "tracker_Watch gvr ns t =
     (let fakewatcher = length (tk_fakes t);
          m = (case map_of (tk_watchers t) gvr of None \<Rightarrow> [] | Some m \<Rightarrow> m)
      in (fakewatcher, t\<lparr>
            tk_watchers := AList.update gvr (AList.update ns (watchers_of gvr ns t @ [fakewatcher]) m) (tk_watchers t),
            tk_fakes := tk_fakes t @ [NewRaceFreeFake]\<rparr>))"

text \<open>One event to each of some watchers, in turn.\<close>

fun broadcast :: "watch_event \<Rightarrow> nat list \<Rightarrow> tracker \<Rightarrow> unit outcome \<times> tracker" where
  "broadcast e [] t = (Returns (), t)"
| "broadcast e (w # ws) t =
     (case send e (tk_fakes t ! w) of
        Panics p \<Rightarrow> (Panics p, t)
      | Returns f \<Rightarrow> broadcast e ws (t\<lparr>tk_fakes := (tk_fakes t)[w := f]\<rparr>))"

definition NotFound :: "string \<Rightarrow> go_error" where
  "NotFound name = StatusError StatusReasonNotFound name"

definition tracker_add :: "gvr \<Rightarrow> api_object \<Rightarrow> string \<Rightarrow> bool \<Rightarrow> tracker \<Rightarrow> go_error option outcome \<times> tracker" where
  "tracker_add gvr obj ns replaceExisting t =
     (let obj = (if om_Namespace (obj_meta obj) = [] then SetNamespace ns obj else obj);
          newMeta = obj_meta obj
      in if ns \<noteq> om_Namespace newMeta
         then (Returns (Some (StatusError (OtherReason ''BadRequest'') ''request namespace does not match object namespace'')), t)
         else
           (let namespacedName = (om_Namespace newMeta, om_Name newMeta);
                t0 = t\<lparr>tk_objects := AList.update gvr (objects_of gvr t) (tk_objects t)\<rparr>
            in if map_of (objects_of gvr t0) namespacedName \<noteq> None
               then if replaceExisting
                    then (case broadcast (Modified obj) (getWatches gvr ns t0) t0 of
                            (Panics p, t1) \<Rightarrow> (Panics p, t1)
                          | (Returns _, t1) \<Rightarrow> (Returns None, store gvr namespacedName obj t1))
                    else (Returns (Some (StatusError StatusReasonAlreadyExists (om_Name newMeta))), t0)
               else if replaceExisting then (Returns (Some (NotFound (om_Name newMeta))), t0)
               else (case broadcast (Added obj) (getWatches gvr ns t0) (store gvr namespacedName obj t0) of
                       (Panics p, t1) \<Rightarrow> (Panics p, t1)
                     | (Returns _, t1) \<Rightarrow> (Returns None, t1))))"

definition tracker_Get :: "gvr \<Rightarrow> string \<Rightarrow> string \<Rightarrow> tracker \<Rightarrow> go_error + api_object" where
  "tracker_Get gvr ns name t =
     (case map_of (tk_objects t) gvr of
        None \<Rightarrow> Inl (NotFound name)
      | Some objs \<Rightarrow> (case map_of objs (ns, name) of None \<Rightarrow> Inl (NotFound name) | Some obj \<Rightarrow> Inr obj))"

definition tracker_Delete :: "gvr \<Rightarrow> string \<Rightarrow> string \<Rightarrow> tracker \<Rightarrow> go_error option outcome \<times> tracker" where
  "tracker_Delete gvr ns name t =
     (case map_of (tk_objects t) gvr of
        None \<Rightarrow> (Returns (Some (NotFound name)), t)
      | Some objs \<Rightarrow>
          (case map_of objs (ns, name) of
             None \<Rightarrow> (Returns (Some (NotFound name)), t)
           | Some obj \<Rightarrow>
               (case broadcast (Deleted obj) (getWatches gvr ns t)
                       (t\<lparr>tk_objects := AList.update gvr (AList.delete (ns, name) objs) (tk_objects t)\<rparr>) of
                  (Panics p, t1) \<Rightarrow> (Panics p, t1)
                | (Returns _, t1) \<Rightarrow> (Returns None, t1))))"

definition filterByNamespace :: "((string \<times> string) \<times> api_object) list \<Rightarrow> string \<Rightarrow> api_object list" where
  "filterByNamespace objs ns =
     sort_key (\<lambda>obj. (om_Namespace (obj_meta obj), om_Name (obj_meta obj)))
       (filter (\<lambda>obj. ns = [] \<or> om_Namespace (obj_meta obj) = ns) (map snd objs))"

text \<open>The kinds of the group have list types; the check that the type found is one is left out.\<close>

definition tracker_List :: "Scheme \<Rightarrow> gvr \<Rightarrow> gvk \<Rightarrow> string \<Rightarrow> tracker \<Rightarrow> go_error + api_object list" where
  "tracker_List s gvr k ns t =
     (let listGVK = (fst k, if fst (snd k) = [] then ''__internal'' else fst (snd k), snd (snd k) @ ''List'')
      in if map_of (sm_gvkToType s) listGVK = None \<and> map_of (sm_unversionedKinds s) (snd (snd listGVK)) = None
         then Inl (ErrorString ''no kind is registered'')
         else (case map_of (tk_objects t) gvr of None \<Rightarrow> Inr [] | Some objs \<Rightarrow> Inr (filterByNamespace objs ns)))"

text \<open>The plural of a kind, as it is guessed for objects given in advance.\<close>

definition lower_char :: "char \<Rightarrow> char" where
  "lower_char c = (if 65 \<le> (of_char c :: nat) \<and> (of_char c :: nat) \<le> 90 then char_of ((of_char c :: nat) + 32) else c)"

definition UnsafeGuessKindToResource :: "gvk \<Rightarrow> gvr" where
  "UnsafeGuessKindToResource k =
     (let singular = map lower_char (snd (snd k)); plural =
        (if snd (snd k) = [] then []
         else if suffix ''endpoints'' singular then singular
         else if last singular = CHR ''s'' then singular @ ''es''
         else if last singular = CHR ''y'' then butlast singular @ ''ies''
         else singular @ ''s'')
      in if snd (snd k) = [] then ([], [], []) else (fst k, fst (snd k), plural))"

text \<open>Objects given in advance are stored under the plural of each kind the scheme knows for them; of its
  versions the tracker has no \<open>__internal\<close>.\<close>

definition guessed_resource :: "gvk \<Rightarrow> gvr" where
  "guessed_resource k = (let (g, v, r) = UnsafeGuessKindToResource k in (g, if v = ''__internal'' then [] else v, r))"

fun add_kinds :: "gvk list \<Rightarrow> api_object \<Rightarrow> tracker \<Rightarrow> go_error option outcome \<times> tracker" where
  "add_kinds [] obj t = (Returns None, t)"
| "add_kinds (k # ks) obj t =
     (case tracker_add (guessed_resource k) obj (om_Namespace (obj_meta obj)) False t of
        (Returns None, t1) \<Rightarrow> add_kinds ks obj t1
      | (r, t1) \<Rightarrow> (r, t1))"

definition tracker_Add :: "Scheme \<Rightarrow> api_object \<Rightarrow> tracker \<Rightarrow> go_error option outcome \<times> tracker" where
  "tracker_Add s obj t =
     (if kinds_of s (obj_type obj) = [] then (Returns (Some (ErrorString ''no registered kinds'')), t)
      else add_kinds (kinds_of s (obj_type obj)) obj t)"

section \<open>Objects by resource and name\<close>

definition lookup :: "tracker \<Rightarrow> gvr \<Rightarrow> string \<times> string \<Rightarrow> api_object option" where
  "lookup t gvr k = Option.bind (map_of (tk_objects t) gvr) (\<lambda>objs. map_of objs k)"

lemma lookup_new [simp]: "lookup NewObjectTracker gvr k = None"
  by (simp add: lookup_def NewObjectTracker_def)

lemma lookup_objects_of: "map_of (objects_of gvr t) k = lookup t gvr k"
  by (simp add: objects_of_def lookup_def split: option.split)

lemma lookup_store: "lookup (store gvr k obj t) g k' = (if g = gvr \<and> k' = k then Some obj else lookup t g k')"
  by (auto simp: store_def lookup_def update_conv' objects_of_def split: option.split)

lemma lookup_touch [simp]: "lookup (t\<lparr>tk_objects := AList.update gvr (objects_of gvr t) (tk_objects t)\<rparr>) = lookup t"
  by (auto simp: fun_eq_iff lookup_def update_conv' objects_of_def split: option.split)

lemma tracker_Get_lookup:
  "tracker_Get gvr ns name t = (case lookup t gvr (ns, name) of None \<Rightarrow> Inl (NotFound name) | Some obj \<Rightarrow> Inr obj)"
  by (simp add: tracker_Get_def lookup_def split: option.split)

text \<open>The object as it is stored, with its namespace.\<close>

definition stored :: "string \<Rightarrow> api_object \<Rightarrow> api_object" where
  "stored ns obj = (if om_Namespace (obj_meta obj) = [] then SetNamespace ns obj else obj)"

lemma stored_name [simp]: "om_Name (obj_meta (stored ns obj)) = om_Name (obj_meta obj)"
  "obj_type (stored ns obj) = obj_type obj"
  by (cases obj; simp add: stored_def)+

lemma stored_own [simp]: "stored (om_Namespace (obj_meta obj)) obj = obj"
  by (cases obj) (simp_all add: stored_def)

lemma broadcast_frame:
  "tk_objects (snd (broadcast e ws t)) = tk_objects t" "tk_watchers (snd (broadcast e ws t)) = tk_watchers t"
  by (induction ws arbitrary: t) (auto split: outcome.split)

lemma lookup_broadcast [simp]: "lookup (snd (broadcast e ws t)) = lookup t"
  by (simp add: fun_eq_iff lookup_def broadcast_frame)

lemma watchers_of_frame: "tk_watchers t' = tk_watchers t \<Longrightarrow> watchers_of gvr ns t' = watchers_of gvr ns t"
  by (simp add: watchers_of_def)

text \<open>An addition without its lookups in nested tables.\<close>

lemma tracker_add_cases:
  "tracker_add gvr obj ns replace t =
     (let k = (ns, om_Name (obj_meta obj)); obj' = stored ns obj;
          t0 = t\<lparr>tk_objects := AList.update gvr (objects_of gvr t) (tk_objects t)\<rparr>
      in if ns \<noteq> om_Namespace (obj_meta obj')
         then (Returns (Some (StatusError (OtherReason ''BadRequest'') ''request namespace does not match object namespace'')), t)
         else if lookup t gvr k = None \<and> \<not> replace
         then (case broadcast (Added obj') (getWatches gvr ns t) (store gvr k obj' t0) of
                 (r, t1) \<Rightarrow> (case r of Panics p \<Rightarrow> Panics p | Returns _ \<Rightarrow> Returns None, t1))
         else if lookup t gvr k \<noteq> None \<and> replace
         then (case broadcast (Modified obj') (getWatches gvr ns t) t0 of
                 (Panics p, t1) \<Rightarrow> (Panics p, t1)
               | (Returns _, t1) \<Rightarrow> (Returns None, store gvr k obj' t1))
         else (Returns (Some (if replace then NotFound (om_Name (obj_meta obj))
                 else StatusError StatusReasonAlreadyExists (om_Name (obj_meta obj)))), t0))"
proof -
  let ?t0 = "t\<lparr>tk_objects := AList.update gvr (objects_of gvr t) (tk_objects t)\<rparr>"
  have g: "getWatches gvr ns ?t0 = getWatches gvr ns t" by (simp add: getWatches_def watchers_of_def)
  show ?thesis
    unfolding tracker_add_def stored_def [symmetric] Let_def lookup_objects_of lookup_touch g
    by (auto split: prod.splits outcome.splits)
qed

lemma tracker_add_lookup:
  assumes "tracker_add gvr obj ns replace t = (Returns err, t')"
  shows "lookup t' g k = (if err = None \<and> g = gvr \<and> k = (ns, om_Name (obj_meta obj)) then Some (stored ns obj) else lookup t g k)"
proof -
  have b: "lookup t1 = lookup t0" if "broadcast e ws t0 = (r, t1)" for e ws t0 r t1
    using lookup_broadcast [of e ws t0] that by simp
  show ?thesis
    using assms by (auto simp: tracker_add_cases Let_def lookup_store split: if_splits prod.splits outcome.splits dest!: b)
qed

lemma tracker_Delete_lookup:
  "lookup (snd (tracker_Delete gvr ns name t)) g k = (if g = gvr \<and> k = (ns, name) then None else lookup t g k)"
proof (cases "lookup t gvr (ns, name)")
  case None
  then have "snd (tracker_Delete gvr ns name t) = t"
    by (auto simp: tracker_Delete_def lookup_def split: option.split)
  with None show ?thesis by simp
next
  case (Some obj)
  then obtain objs where o: "map_of (tk_objects t) gvr = Some objs" "map_of objs (ns, name) = Some obj"
    by (auto simp: lookup_def bind_eq_Some_conv)
  let ?t0 = "t\<lparr>tk_objects := AList.update gvr (AList.delete (ns, name) objs) (tk_objects t)\<rparr>"
  have "snd (tracker_Delete gvr ns name t) = snd (broadcast (Deleted obj) (getWatches gvr ns t) ?t0)"
    using o by (auto simp: tracker_Delete_def split: prod.split outcome.split)
  moreover have "lookup ?t0 g k = (if g = gvr \<and> k = (ns, name) then None else lookup t g k)"
    using o(1) by (auto simp: lookup_def update_conv' delete_conv')
  ultimately show ?thesis by simp
qed

lemma tracker_add_new:
  assumes "tracker_add gvr obj ns False t = (Returns None, t')"
  shows "lookup t gvr (ns, om_Name (obj_meta obj)) = None" and "ns = om_Namespace (obj_meta (stored ns obj))"
  using assms by (auto simp: tracker_add_cases Let_def split: if_splits)

lemma objects_update_other:
  "g \<noteq> gvr \<Longrightarrow> map_of (AList.update gvr x objs) g = map_of objs g"
  by (simp add: update_conv')

lemma tracker_add_other:
  assumes "tracker_add gvr obj ns replace t = (r, t')" and "g \<noteq> gvr"
  shows "map_of (tk_objects t') g = map_of (tk_objects t) g"
proof -
  have b: "tk_objects t1 = tk_objects t0" if "broadcast e ws t0 = (r, t1)" for e ws t0 r t1
    using broadcast_frame(1) [of e ws t0] that by simp
  show ?thesis using assms
    by (auto simp: tracker_add_cases Let_def store_def update_conv' split: if_splits prod.splits outcome.splits dest!: b)
qed

text \<open>Without watchers nothing is sent.\<close>

lemma tracker_add_unwatched:
  assumes "tk_watchers t = []"
  shows "\<exists>err t'. tracker_add gvr obj ns replace t = (Returns err, t') \<and> tk_watchers t' = [] \<and> tk_fakes t' = tk_fakes t"
  using assms by (simp add: tracker_add_cases Let_def getWatches_def watchers_of_def store_def)

section \<open>What a change tells the watchers\<close>

fun event_object :: "watch_event \<Rightarrow> api_object" where
  "event_object (Added obj) = obj"
| "event_object (Modified obj) = obj"
| "event_object (Deleted obj) = obj"

definition obj_key :: "api_object \<Rightarrow> string \<times> string" where
  "obj_key obj = (om_Namespace (obj_meta obj), om_Name (obj_meta obj))"

text \<open>The table of a reader after an event.\<close>

definition replay_event :: "watch_event \<Rightarrow> (string \<times> string \<Rightarrow> api_object option) \<Rightarrow> string \<times> string \<Rightarrow> api_object option" where
  "replay_event e m = m(obj_key (event_object e) := (case e of Deleted _ \<Rightarrow> None | _ \<Rightarrow> Some (event_object e)))"

definition told :: "watch_event \<Rightarrow> RaceFreeFakeWatcher \<Rightarrow> RaceFreeFakeWatcher" where
  "told e f = (if fw_Stopped f then f else f\<lparr>fw_result := fw_result f @ [e]\<rparr>)"

lemma send_told: "send e f = Returns f' \<Longrightarrow> f' = told e f"
  by (auto simp: send_def told_def split: if_splits)

lemma broadcast_told:
  assumes "broadcast e ws t = (Returns u, t')" and "distinct ws" and "\<forall>w \<in> set ws. w < length (tk_fakes t)"
  shows "length (tk_fakes t') = length (tk_fakes t) \<and>
    (\<forall>i < length (tk_fakes t). tk_fakes t' ! i = (if i \<in> set ws then told e (tk_fakes t ! i) else tk_fakes t ! i))"
  using assms
proof (induction ws arbitrary: t)
  case (Cons w ws)
  obtain f where f: "send e (tk_fakes t ! w) = Returns f" "broadcast e ws (t\<lparr>tk_fakes := (tk_fakes t)[w := f]\<rparr>) = (Returns u, t')"
    using Cons.prems(1) by (auto split: outcome.splits)
  from Cons.IH [OF f(2)] Cons.prems(2,3) send_told [OF f(1)]
  show ?case by (auto simp: nth_list_update)
qed simp

definition quiet :: "tracker \<Rightarrow> tracker \<Rightarrow> bool" where
  "quiet t t' \<longleftrightarrow> lookup t' = lookup t \<and> tk_watchers t' = tk_watchers t \<and> tk_fakes t' = tk_fakes t"

definition changed :: "gvr \<Rightarrow> watch_event \<Rightarrow> tracker \<Rightarrow> tracker \<Rightarrow> bool" where
  "changed gvr e t t' \<longleftrightarrow> lookup t' = (lookup t)(gvr := replay_event e (lookup t gvr)) \<and> tk_watchers t' = tk_watchers t \<and>
     length (tk_fakes t') = length (tk_fakes t) \<and>
     (\<forall>i < length (tk_fakes t). tk_fakes t' ! i =
        (if i \<in> set (getWatches gvr (fst (obj_key (event_object e))) t) then told e (tk_fakes t ! i) else tk_fakes t ! i))"

text \<open>Objects are stored under their names; a watcher stands at one place.\<close>

definition tracker_ok :: "tracker \<Rightarrow> bool" where
  "tracker_ok t \<longleftrightarrow> (\<forall>gvr k obj. lookup t gvr k = Some obj \<longrightarrow> obj_key obj = k) \<and>
     (\<forall>gvr ns. distinct (watchers_of gvr ns t) \<and> (\<forall>i \<in> set (watchers_of gvr ns t). i < length (tk_fakes t) \<and>
        (\<forall>gvr' ns'. i \<in> set (watchers_of gvr' ns' t) \<longrightarrow> gvr' = gvr \<and> ns' = ns)))"

lemma tracker_ok_lookup: "tracker_ok t \<Longrightarrow> lookup t gvr k = Some obj \<Longrightarrow> obj_key obj = k"
  unfolding tracker_ok_def by blast

lemma tracker_ok_watchers:
  assumes "tracker_ok t"
  shows "distinct (watchers_of gvr ns t)" and "i \<in> set (watchers_of gvr ns t) \<Longrightarrow> i < length (tk_fakes t)"
    and "i \<in> set (watchers_of gvr ns t) \<Longrightarrow> i \<in> set (watchers_of gvr' ns' t) \<longleftrightarrow> gvr' = gvr \<and> ns' = ns"
  using assms unfolding tracker_ok_def by blast+

lemma getWatches_ok:
  assumes "tracker_ok t"
  shows "distinct (getWatches gvr ns t)" and "\<forall>i \<in> set (getWatches gvr ns t). i < length (tk_fakes t)"
proof -
  have "set (watchers_of gvr ns t) \<inter> set (watchers_of gvr [] t) = {}" if "ns \<noteq> []"
    using tracker_ok_watchers(3) [OF assms] that by blast
  then show "distinct (getWatches gvr ns t)" using tracker_ok_watchers(1) [OF assms] by (simp add: getWatches_def)
  show "\<forall>i \<in> set (getWatches gvr ns t). i < length (tk_fakes t)"
  proof
    fix i assume "i \<in> set (getWatches gvr ns t)"
    then consider "i \<in> set (watchers_of gvr ns t)" | "i \<in> set (watchers_of gvr [] t)"
      by (auto simp: getWatches_def split: if_splits)
    then show "i < length (tk_fakes t)" by cases (rule tracker_ok_watchers(2) [OF assms], assumption)+
  qed
qed

lemma changed_by_broadcast:
  assumes "tracker_ok t" and "broadcast e (getWatches gvr (fst (obj_key (event_object e))) t) t0 = (Returns u, t1)"
    and "tk_watchers t0 = tk_watchers t" and "tk_fakes t0 = tk_fakes t" and "tk_watchers t' = tk_watchers t1"
    and "tk_fakes t' = tk_fakes t1" and "lookup t' = (lookup t)(gvr := replay_event e (lookup t gvr))"
  shows "changed gvr e t t'"
proof -
  have "tk_watchers t1 = tk_watchers t0"
    using broadcast_frame(2) [of e "getWatches gvr (fst (obj_key (event_object e))) t" t0] assms(2) by simp
  with broadcast_told [OF assms(2) getWatches_ok(1) [OF assms(1)]] getWatches_ok(2) [OF assms(1)] assms(3-7) show ?thesis
    by (simp add: changed_def)
qed

lemma tracker_add_tells:
  assumes "tracker_ok t" and "tracker_add gvr obj ns replace t = (Returns err, t')"
  shows "quiet t t' \<or> (\<exists>e. changed gvr e t t')"
proof (cases "err = None")
  case False
  with assms(2) show ?thesis by (auto simp: quiet_def tracker_add_cases Let_def split: if_splits prod.splits outcome.splits)
next
  case True
  let ?o = "stored ns obj" and ?k = "(ns, om_Name (obj_meta obj))"
  let ?t0 = "t\<lparr>tk_objects := AList.update gvr (objects_of gvr t) (tk_objects t)\<rparr>"
  have k: "obj_key ?o = ?k" using assms(2) True by (simp add: tracker_add_cases obj_key_def Let_def split: if_splits)
  have l: "lookup t' = (lookup t)(gvr := (lookup t gvr)(?k \<mapsto> ?o))"
    using tracker_add_lookup [OF assms(2)] True by (auto simp: fun_eq_iff)
  consider (add) u t1 where "broadcast (Added ?o) (getWatches gvr ns t) (store gvr ?k ?o ?t0) = (Returns u, t1)" "t' = t1"
    | (modify) u t1 where "broadcast (Modified ?o) (getWatches gvr ns t) ?t0 = (Returns u, t1)" "t' = store gvr ?k ?o t1"
    using assms(2) True by (auto simp: tracker_add_cases Let_def split: if_splits prod.splits outcome.splits)
  then have "\<exists>e. changed gvr e t t'"
  proof cases
    case add
    with changed_by_broadcast [OF assms(1), of "Added ?o" gvr "store gvr ?k ?o ?t0" u t1 t'] k l show ?thesis
      by (auto simp: store_def replay_event_def)
  next
    case modify
    with changed_by_broadcast [OF assms(1), of "Modified ?o" gvr ?t0 u t1 t'] k l show ?thesis
      by (auto simp: store_def replay_event_def)
  qed
  then show ?thesis ..
qed

lemma tracker_Delete_tells:
  assumes "tracker_ok t" and "tracker_Delete gvr ns name t = (Returns err, t')"
  shows "quiet t t' \<or> (\<exists>e. changed gvr e t t')"
proof (cases "lookup t gvr (ns, name)")
  case None
  with assms(2) show ?thesis by (auto simp: quiet_def tracker_Delete_def lookup_def split: option.splits)
next
  case (Some obj)
  then obtain objs where o: "map_of (tk_objects t) gvr = Some objs" "map_of objs (ns, name) = Some obj"
    by (auto simp: lookup_def bind_eq_Some_conv)
  let ?t0 = "t\<lparr>tk_objects := AList.update gvr (AList.delete (ns, name) objs) (tk_objects t)\<rparr>"
  have k: "obj_key obj = (ns, name)" by (rule tracker_ok_lookup [OF assms(1) Some])
  obtain u where b: "broadcast (Deleted obj) (getWatches gvr ns t) ?t0 = (Returns u, t')"
    using assms(2) o by (auto simp: tracker_Delete_def split: prod.splits outcome.splits)
  have "lookup t' = (lookup t)(gvr := replay_event (Deleted obj) (lookup t gvr))"
    using tracker_Delete_lookup [of gvr ns name t] assms(2) k by (auto simp: fun_eq_iff replay_event_def)
  with changed_by_broadcast [OF assms(1), of "Deleted obj" gvr ?t0 u t' t'] b k show ?thesis by auto
qed

text \<open>Changes keep the tracker in order.\<close>

lemma quiet_ok: "quiet t t' \<Longrightarrow> tracker_ok t \<Longrightarrow> tracker_ok t'"
  by (simp add: quiet_def tracker_ok_def watchers_of_def)

lemma changed_ok:
  assumes "changed gvr e t t'" and "tracker_ok t"
  shows "tracker_ok t'"
proof -
  have l: "lookup t' = (lookup t)(gvr := replay_event e (lookup t gvr))" and w: "watchers_of g ns t' = watchers_of g ns t"
    and n: "length (tk_fakes t') = length (tk_fakes t)" for g ns
    using assms(1) by (simp_all add: changed_def watchers_of_def)
  have "obj_key obj = k" if "lookup t' g k = Some obj" for g k obj
    using that tracker_ok_lookup [OF assms(2)] l
    by (cases "g = gvr \<and> k = obj_key (event_object e)") (auto simp: replay_event_def split: watch_event.splits if_splits)
  with assms(2) w n show ?thesis unfolding tracker_ok_def by simp
qed

lemma watch_ok:
  assumes "tracker_ok t" and "tracker_Watch gvr ns t = (i, t')"
  shows "tracker_ok t'" and "i \<in> set (watchers_of gvr ns t')" and "lookup t' = lookup t"
    and "tk_objects t' = tk_objects t" and "i = length (tk_fakes t)" and "tk_fakes t' = tk_fakes t @ [NewRaceFreeFake]"
    and "watchers_of g n t' = (if g = gvr \<and> n = ns then watchers_of g n t @ [i] else watchers_of g n t)"
proof -
  let ?m = "case map_of (tk_watchers t) gvr of None \<Rightarrow> [] | Some m \<Rightarrow> m"
  have t': "t' = t\<lparr>tk_watchers := AList.update gvr (AList.update ns (watchers_of gvr ns t @ [i]) ?m) (tk_watchers t),
      tk_fakes := tk_fakes t @ [NewRaceFreeFake]\<rparr>" and i: "i = length (tk_fakes t)"
    using assms(2) unfolding tracker_Watch_def Let_def prod.inject by (metis, metis)
  from i show "i = length (tk_fakes t)" .
  show f: "tk_fakes t' = tk_fakes t @ [NewRaceFreeFake]" and l: "lookup t' = lookup t"
    and "tk_objects t' = tk_objects t"
    by (simp_all add: t' lookup_def fun_eq_iff)
  have w: "watchers_of g n t' = (if g = gvr \<and> n = ns then watchers_of g n t @ [i] else watchers_of g n t)" for g n
    unfolding watchers_of_def t' by (cases "map_of (tk_watchers t) gvr") (simp_all add: update_conv')
  then show "watchers_of g n t' = (if g = gvr \<and> n = ns then watchers_of g n t @ [i] else watchers_of g n t)"
    and "i \<in> set (watchers_of gvr ns t')" by simp_all
  have new: "i \<notin> set (watchers_of g n t)" for g n
    using tracker_ok_watchers(2) [OF assms(1)] i by fastforce
  show "tracker_ok t'"
    unfolding tracker_ok_def
  proof (intro conjI allI ballI impI)
    fix g k obj assume "lookup t' g k = Some obj"
    with tracker_ok_lookup [OF assms(1)] l show "obj_key obj = k" by simp
  next
    fix g n show "distinct (watchers_of g n t')"
      using w new tracker_ok_watchers(1) [OF assms(1)] by simp
  next
    fix g n j assume j: "j \<in> set (watchers_of g n t')"
    then have "j = i \<and> g = gvr \<and> n = ns \<or> j \<noteq> i \<and> j \<in> set (watchers_of g n t)"
      using w [of g n] new [of g n] by (auto split: if_splits)
    then consider "j = i" "g = gvr" "n = ns" | "j \<noteq> i" "j \<in> set (watchers_of g n t)" by blast
    note j = this
    from j show "j < length (tk_fakes t')"
      using tracker_ok_watchers(2) [OF assms(1), of j g n] f i by cases simp_all
    fix g' n' assume "j \<in> set (watchers_of g' n' t')"
    then have j': "j = i \<and> g' = gvr \<and> n' = ns \<or> j \<noteq> i \<and> j \<in> set (watchers_of g' n' t)"
      using w [of g' n'] new [of g' n'] by (auto split: if_splits)
    from j have "g' = g \<and> n' = n"
    proof cases
      case 2
      with j' tracker_ok_watchers(3) [OF assms(1) 2(2), of g' n'] show ?thesis by simp
    qed (use j' in simp)
    then show "g' = g" "n' = n" by simp_all
  qed
qed

section \<open>Listing\<close>

text \<open>The tables have no key twice.\<close>

definition tidy :: "tracker \<Rightarrow> bool" where
  "tidy t \<longleftrightarrow> (\<forall>gvr. distinct (map fst (objects_of gvr t)))"

lemma tidyI: "(\<And>gvr. distinct (map fst (objects_of gvr t))) \<Longrightarrow> tidy t"
  by (simp add: tidy_def)

lemma tidy_frame: "tk_objects t' = tk_objects t \<Longrightarrow> tidy t' = tidy t"
  by (simp add: tidy_def objects_of_def)

lemma tidy_broadcast [simp]: "tidy (snd (broadcast e ws t)) = tidy t"
  by (rule tidy_frame) (rule broadcast_frame)

lemma tidy_update:
  assumes "tidy t" and "distinct (map fst objs)"
  shows "tidy (t\<lparr>tk_objects := AList.update gvr objs (tk_objects t)\<rparr>)"
proof (rule tidyI)
  fix g
  show "distinct (map fst (objects_of g (t\<lparr>tk_objects := AList.update gvr objs (tk_objects t)\<rparr>)))"
  proof (cases "g = gvr")
    case False
    then have "objects_of g (t\<lparr>tk_objects := AList.update gvr objs (tk_objects t)\<rparr>) = objects_of g t"
      by (simp add: objects_of_def update_conv')
    with assms(1) show ?thesis unfolding tidy_def by metis
  qed (simp add: objects_of_def update_conv' assms(2))
qed

lemma tidy_store: "tidy t \<Longrightarrow> tidy (store gvr k obj t)"
  unfolding store_def by (rule tidy_update, assumption) (simp only: tidy_def distinct_update)

lemma tidy_add:
  assumes "tidy t"
  shows "tidy (snd (tracker_add gvr obj ns replace t))"
proof -
  let ?t0 = "t\<lparr>tk_objects := AList.update gvr (objects_of gvr t) (tk_objects t)\<rparr>"
  have 0: "tidy ?t0" using assms unfolding tidy_def by (intro tidy_update [unfolded tidy_def]) blast+
  have b: "tidy t1 = tidy t0" if "broadcast e ws t0 = (r, t1)" for e ws t0 r t1
    using tidy_broadcast [of e ws t0] that by simp
  show ?thesis using assms 0
    by (auto simp: tracker_add_cases Let_def tidy_store split: prod.splits outcome.splits dest!: b)
qed

lemma tidy_Delete:
  assumes "tidy t"
  shows "tidy (snd (tracker_Delete gvr ns name t))"
proof (cases "map_of (tk_objects t) gvr")
  case (Some objs)
  then have "distinct (map fst objs)" using assms unfolding tidy_def objects_of_def by (metis option.simps(5))
  from tidy_update [OF assms distinct_delete [OF this]]
  have 0: "tidy (t\<lparr>tk_objects := AList.update gvr (AList.delete (ns, name) objs) (tk_objects t)\<rparr>)" .
  have b: "tidy t1 = tidy t0" if "broadcast e ws t0 = (r, t1)" for e ws t0 r t1
    using tidy_broadcast [of e ws t0] that by simp
  show ?thesis using assms 0 Some
    by (auto simp: tracker_Delete_def split: prod.splits outcome.splits option.splits dest!: b)
qed (simp add: tracker_Delete_def assms)

text \<open>The objects of a list by their names, and what a request for a namespace sees of a resource.\<close>

definition by_key :: "api_object list \<Rightarrow> string \<times> string \<Rightarrow> api_object option" where
  "by_key objs = map_of (map (\<lambda>obj. (obj_key obj, obj)) objs)"

definition table :: "gvr \<Rightarrow> string \<Rightarrow> tracker \<Rightarrow> string \<times> string \<Rightarrow> api_object option" where
  "table gvr ns t k = (if ns = [] \<or> fst k = ns then lookup t gvr k else None)"

lemma by_key_filter:
  assumes "tracker_ok t" and "tidy t"
  shows "by_key (filterByNamespace (objects_of gvr t) ns) = table gvr ns t"
proof
  fix k
  let ?objs = "objects_of gvr t"
  have d: "distinct (map fst ?objs)" using assms(2) unfolding tidy_def by blast
  have key: "obj_key obj = k'" if "(k', obj) \<in> set ?objs" for k' obj
    using that d tracker_ok_lookup [OF assms(1), of gvr k' obj] lookup_objects_of [of gvr t k'] by simp
  then have "map obj_key (map snd ?objs) = map fst ?objs" by (auto simp: comp_def)
  with d have "distinct (map obj_key (filter P (map snd ?objs)))" for P by (metis distinct_map_filter)
  moreover have "mset (map obj_key (filterByNamespace ?objs ns)) =
      mset (map obj_key (filter (\<lambda>obj. ns = [] \<or> om_Namespace (obj_meta obj) = ns) (map snd ?objs)))"
    by (simp add: filterByNamespace_def)
  ultimately have "distinct (map obj_key (filterByNamespace ?objs ns))"
    using mset_eq_imp_distinct_iff by blast
  then have "distinct (map fst (map (\<lambda>obj. (obj_key obj, obj)) (filterByNamespace ?objs ns)))"
    by (simp add: comp_def)
  then have "by_key (filterByNamespace ?objs ns) k = Some obj \<longleftrightarrow>
      obj \<in> snd ` set ?objs \<and> (ns = [] \<or> om_Namespace (obj_meta obj) = ns) \<and> obj_key obj = k" for obj
    unfolding by_key_def by (subst map_of_eq_Some_iff) (auto simp: filterByNamespace_def)
  moreover have "table gvr ns t k = Some obj \<longleftrightarrow>
      obj \<in> snd ` set ?objs \<and> (ns = [] \<or> om_Namespace (obj_meta obj) = ns) \<and> obj_key obj = k" for obj
  proof -
    have "table gvr ns t k = Some obj \<longleftrightarrow> (k, obj) \<in> set ?objs \<and> (ns = [] \<or> fst k = ns)"
      using d lookup_objects_of [of gvr t k] by (auto simp: table_def)
    also have "\<dots> \<longleftrightarrow> obj \<in> snd ` set ?objs \<and> obj_key obj = k \<and> (ns = [] \<or> fst k = ns)"
    proof -
      have "(k, obj) \<in> set ?objs \<longleftrightarrow> obj \<in> snd ` set ?objs \<and> obj_key obj = k"
      proof
        assume "(k, obj) \<in> set ?objs"
        with key [OF this] image_eqI [of obj snd "(k, obj)"] show "obj \<in> snd ` set ?objs \<and> obj_key obj = k" by simp
      next
        assume o: "obj \<in> snd ` set ?objs \<and> obj_key obj = k"
        then obtain k' where "(k', obj) \<in> set ?objs" by auto
        with key [OF this] o show "(k, obj) \<in> set ?objs" by simp
      qed
      then show ?thesis by blast
    qed
    also have "\<dots> \<longleftrightarrow> obj \<in> snd ` set ?objs \<and> (ns = [] \<or> om_Namespace (obj_meta obj) = ns) \<and> obj_key obj = k"
      by (auto simp: obj_key_def)
    finally show ?thesis .
  qed
  ultimately show "by_key (filterByNamespace ?objs ns) k = table gvr ns t k"
    by (metis not_Some_eq)
qed

lemma by_key_list:
  assumes "tracker_ok t" and "tidy t" and "tracker_List s gvr kind ns t = Inr objs"
  shows "by_key objs = table gvr ns t"
proof -
  have "objs = filterByNamespace (objects_of gvr t) ns"
    using assms(3) by (auto simp: tracker_List_def Let_def objects_of_def filterByNamespace_def split: if_splits option.splits)
  with by_key_filter [OF assms(1,2)] show ?thesis by simp
qed

end
