(* ===== verification/FakeClientset.thy ===== *)
theory FakeClientset
  imports ObjectTracker
begin

text \<open>
  The fake clientset (\<open>generated/clientset/versioned/fake/clientset_generated.go\<close>, \<open>fake_vihara_client.go\<close>): the actions
  of the fake clients (\<open>Clients\<close>) are recorded and answered by the object tracker. The data of a patch stand for
  its type too, and applying it is a parameter, as is the parser of label selectors.
\<close>

section \<open>Construction\<close>

definition fake_init :: "Scheme option" where
  "fake_init = Option.bind (AddToGroupVersion ([], ''v1'') NewScheme) (AddToScheme [AddToScheme [addKnownTypes]])"

record fake_Clientset =
  fk_actions :: "api_object action list"
  fk_tracker :: tracker

fun add_all :: "Scheme \<Rightarrow> api_object list \<Rightarrow> tracker \<Rightarrow> tracker option" where
  "add_all s [] t = Some t"
| "add_all s (obj # objs) t =
     (case tracker_Add s obj t of (Returns None, t1) \<Rightarrow> add_all s objs t1 | _ \<Rightarrow> None)"

text \<open>\<open>None\<close> is the panic for an object that cannot be added.\<close>

definition NewSimpleClientset :: "Scheme \<Rightarrow> api_object list \<Rightarrow> fake_Clientset option" where
  "NewSimpleClientset s objects = map_option (\<lambda>t. \<lparr>fk_actions = [], fk_tracker = t\<rparr>) (add_all s objects NewObjectTracker)"

section \<open>Answering actions\<close>

datatype answer = NilObject | AnObject api_object | ObjectList "api_object list" | AWatcher nat

type_synonym answered = "answer \<times> go_error option"

definition get_answer :: "go_error + api_object \<Rightarrow> answered" where
  "get_answer r = (case r of Inl e \<Rightarrow> (NilObject, Some e) | Inr obj \<Rightarrow> (AnObject obj, None))"

text \<open>After a write: its error, or what \<open>found\<close> reads then.\<close>

definition written :: "(tracker \<Rightarrow> answered) \<Rightarrow> go_error option outcome \<times> tracker \<Rightarrow> answered outcome \<times> tracker" where
  "written found r =
     (case r of
        (Panics p, t1) \<Rightarrow> (Panics p, t1)
      | (Returns (Some e), t1) \<Rightarrow> (Returns (NilObject, Some e), t1)
      | (Returns None, t1) \<Rightarrow> (Returns (found t1), t1))"

text \<open>\<open>None\<close> when the reaction does not handle the action.\<close>

definition ObjectReaction :: "(string \<Rightarrow> api_object \<Rightarrow> go_error + api_object) \<Rightarrow> Scheme \<Rightarrow> gvk \<Rightarrow> api_object action \<Rightarrow> tracker
    \<Rightarrow> (answered outcome \<times> tracker) option" where
  "ObjectReaction patch s kind a t =
     (let ns = ac_Namespace a; gvr = (fst kind, fst (snd kind), ac_Resource a);
          get_written = (\<lambda>obj t1. get_answer (tracker_Get gvr ns (om_Name (obj_meta obj)) t1))
      in if ac_Verb a = ''list''
         then Some (Returns (case tracker_List s gvr kind ns t of
                 Inl e \<Rightarrow> (NilObject, Some e)
               | Inr objs \<Rightarrow> (ObjectList objs, None)), t)
         else if ac_Verb a = ''get'' then Some (Returns (get_answer (tracker_Get gvr ns (ac_Name a) t)), t)
         else if ac_Verb a = ''create'' \<and> ac_Object a \<noteq> None
         then Some (written (get_written (the (ac_Object a)))
                (tracker_add gvr (the (ac_Object a)) ns (ac_Subresource a \<noteq> []) t))
         else if ac_Verb a = ''update'' \<and> ac_Object a \<noteq> None
         then Some (written (get_written (the (ac_Object a))) (tracker_add gvr (the (ac_Object a)) ns True t))
         else if ac_Verb a = ''delete''
         then Some (written (\<lambda>_. (NilObject, None)) (tracker_Delete gvr ns (ac_Name a) t))
         else if ac_Verb a = ''patch''
         then Some (case tracker_Get gvr ns (ac_Name a) t of
                      Inl e \<Rightarrow> (Returns (NilObject, Some e), t)
                    | Inr obj \<Rightarrow>
                        (case patch (ac_Patch a) obj of
                           Inl e \<Rightarrow> (Returns (NilObject, Some e), t)
                         | Inr obj1 \<Rightarrow> written (\<lambda>_. (AnObject obj1, None)) (tracker_add gvr obj1 ns True t)))
         else None)"

text \<open>\<open>Invokes\<close> records the action; the only reactor takes every verb and resource. An action it does not
  handle is answered with the default object and no error. Watches have a reactor of their own,
  which takes every resource and always handles them.\<close>

definition Invokes :: "(string \<Rightarrow> api_object \<Rightarrow> go_error + api_object) \<Rightarrow> Scheme \<Rightarrow> gvk \<Rightarrow> api_object action \<Rightarrow> answer
    \<Rightarrow> fake_Clientset \<Rightarrow> answered outcome \<times> fake_Clientset" where
  "Invokes patch s kind a defaultReturnObj c =
     (let c1 = c\<lparr>fk_actions := fk_actions c @ [a]\<rparr>
      in case ObjectReaction patch s kind a (fk_tracker c1) of
           Some (r, t) \<Rightarrow> (r, c1\<lparr>fk_tracker := t\<rparr>)
         | None \<Rightarrow> (Returns (defaultReturnObj, None), c1))"

definition InvokesWatch :: "gvk \<Rightarrow> api_object action \<Rightarrow> fake_Clientset \<Rightarrow> answered outcome \<times> fake_Clientset" where
  "InvokesWatch kind a c =
     (let c1 = c\<lparr>fk_actions := fk_actions c @ [a]\<rparr>;
          (w, t) = tracker_Watch (fst kind, fst (snd kind), ac_Resource a) (ac_Namespace a) (fk_tracker c1)
      in (Returns (AWatcher w, None), c1\<lparr>fk_tracker := t\<rparr>))"

section \<open>The clients\<close>

text \<open>The clients hand their actions over as actions on objects of the API.\<close>

definition api_action :: "('o \<Rightarrow> api_object) \<Rightarrow> 'o action \<Rightarrow> api_object action" where
  "api_action f a = \<lparr>ac_Verb = ac_Verb a, ac_Resource = ac_Resource a, ac_Namespace = ac_Namespace a,
     ac_Name = ac_Name a, ac_Subresource = ac_Subresource a, ac_Object = map_option f (ac_Object a),
     ac_Patch = ac_Patch a, ac_Restrictions = ac_Restrictions a\<rparr>"

text \<open>Of a list the client returns the items whose labels match.\<close>

definition matching :: "(string \<Rightarrow> ((string \<times> string) list \<Rightarrow> bool) option) \<Rightarrow> ListOptions \<Rightarrow> answered \<Rightarrow> answered" where
  "matching parse opts r =
     (case fake_list parse (\<lambda>obj. om_Labels (obj_meta obj)) opts
             (case fst r of ObjectList objs \<Rightarrow> Some objs | _ \<Rightarrow> None, snd r) of
        (None, err) \<Rightarrow> (NilObject, err)
      | (Some objs, err) \<Rightarrow> (ObjectList objs, err))"

definition fake_client :: "(string \<Rightarrow> api_object \<Rightarrow> go_error + api_object) \<Rightarrow> (string \<Rightarrow> ((string \<times> string) list \<Rightarrow> bool) option)
    \<Rightarrow> Scheme \<Rightarrow> gvk \<Rightarrow> api_object \<Rightarrow> 'o client_op \<Rightarrow> api_object action \<Rightarrow> fake_Clientset \<Rightarrow> answered outcome \<times> fake_Clientset" where
  "fake_client patch parse s kind zero op a c =
     (case op of
        OpWatch opts \<Rightarrow> InvokesWatch kind a c
      | OpList opts \<Rightarrow>
          (case Invokes patch s kind a (ObjectList []) c of
             (Returns r, c1) \<Rightarrow> (Returns (matching parse opts r), c1)
           | (Panics p, c1) \<Rightarrow> (Panics p, c1))
      | OpDeleteCollection opts listOpts \<Rightarrow> Invokes patch s kind a (ObjectList []) c
      | _ \<Rightarrow> Invokes patch s kind a (AnObject zero) c)"

definition fake_Maintenance where
  "fake_Maintenance patch parse s op = fake_client patch parse s (''vihara.arhat.dev'', ''v1alpha1'', ''Maintenance'')
     (MtObject zero_Maintenance) op (api_action MtObject (maintenance_action op))"

definition fake_MaintenanceJobs where
  "fake_MaintenanceJobs patch parse s namespace op = fake_client patch parse s (''vihara.arhat.dev'', ''v1alpha1'', ''MaintenanceJob'')
     (JobObject zero_MaintenanceJob) op (api_action JobObject (jobs_action namespace op))"

section \<open>What the fake clients find\<close>

text \<open>The plurals guessed for the two kinds.\<close>

lemma guessed:
  "UnsafeGuessKindToResource (''vihara.arhat.dev'', ''v1alpha1'', ''Maintenance'') = (''vihara.arhat.dev'', ''v1alpha1'', ''maintenances'')"
  "UnsafeGuessKindToResource (''vihara.arhat.dev'', ''v1alpha1'', ''MaintenanceJob'') = (''vihara.arhat.dev'', ''v1alpha1'', ''maintenancejobs'')"
  by code_simp+

lemma fake_kinds:
  assumes "fake_init = Some s"
  shows "kinds_of s (obj_type obj) = [(''vihara.arhat.dev'', ''v1alpha1'', snd (obj_type obj))]"
    and "map_of (sm_gvkToType s) (''vihara.arhat.dev'', ''v1alpha1'', snd (obj_type obj) @ ''List'') \<noteq> None"
proof -
  have k: "map_option (\<lambda>s. (kinds_of s (''v1alpha1'', ''Maintenance''), kinds_of s (''v1alpha1'', ''MaintenanceJob''))) fake_init =
      Some ([(''vihara.arhat.dev'', ''v1alpha1'', ''Maintenance'')], [(''vihara.arhat.dev'', ''v1alpha1'', ''MaintenanceJob'')])"
    by code_simp
  have l: "map_option (\<lambda>s. (map_of (sm_gvkToType s) (''vihara.arhat.dev'', ''v1alpha1'', ''MaintenanceList'') = None,
      map_of (sm_gvkToType s) (''vihara.arhat.dev'', ''v1alpha1'', ''MaintenanceJobList'') = None)) fake_init = Some (False, False)"
    by code_simp
  show "kinds_of s (obj_type obj) = [(''vihara.arhat.dev'', ''v1alpha1'', snd (obj_type obj))]"
    using k [unfolded assms] by (cases obj) simp_all
  show "map_of (sm_gvkToType s) (''vihara.arhat.dev'', ''v1alpha1'', snd (obj_type obj) @ ''List'') \<noteq> None"
    using l [unfolded assms] by (cases obj) simp_all
qed

text \<open>The resource under which an object given in advance is stored.\<close>

fun preset_gvr :: "api_object \<Rightarrow> gvr" where
  "preset_gvr (MtObject _) = (''vihara.arhat.dev'', ''v1alpha1'', ''maintenances'')"
| "preset_gvr (JobObject _) = (''vihara.arhat.dev'', ''v1alpha1'', ''maintenancejobs'')"

lemma tracker_Add_preset:
  assumes "fake_init = Some s" and "tracker_Add s obj t = (Returns None, t')"
  shows "tracker_add (preset_gvr obj) obj (om_Namespace (obj_meta obj)) False t = (Returns None, t')"
  using assms(2) fake_kinds(1) [OF assms(1), of obj] guessed
  by (cases obj) (auto simp: tracker_Add_def guessed_resource_def Let_def split: prod.splits option.splits outcome.splits)

lemma add_all_first:
  assumes "add_all s (obj # objs) t = Some t'"
  obtains t1 where "tracker_Add s obj t = (Returns None, t1)" and "add_all s objs t1 = Some t'"
  using assms by (auto split: prod.splits option.splits outcome.splits)

lemma add_all_keeps:
  assumes "fake_init = Some s" and "add_all s objs t = Some t'"
  shows "(lookup t g k \<noteq> None \<longrightarrow> lookup t' g k = lookup t g k) \<and> (g \<notin> preset_gvr ` set objs \<longrightarrow> map_of (tk_objects t') g = map_of (tk_objects t) g)"
  using assms(2)
proof (induction objs arbitrary: t)
  case (Cons obj objs)
  obtain t1 where t1: "tracker_Add s obj t = (Returns None, t1)" "add_all s objs t1 = Some t'"
    using add_all_first [OF Cons.prems] .
  note a = tracker_Add_preset [OF assms(1) t1(1)]
  have "lookup t g k \<noteq> None \<longrightarrow> lookup t1 g k = lookup t g k"
    using tracker_add_lookup [OF a] tracker_add_new(1) [OF a] by auto
  moreover have "g \<noteq> preset_gvr obj \<longrightarrow> map_of (tk_objects t1) g = map_of (tk_objects t) g"
    using tracker_add_other [OF a] by blast
  ultimately show ?case using Cons.IH [OF t1(2)] by auto
qed simp

lemma add_all_preset:
  assumes "fake_init = Some s" and "add_all s objs t = Some t'" and "obj \<in> set objs"
  shows "lookup t' (preset_gvr obj) (om_Namespace (obj_meta obj), om_Name (obj_meta obj)) = Some obj"
  using assms(2,3)
proof (induction objs arbitrary: t)
  case (Cons u objs)
  obtain t1 where t1: "tracker_Add s u t = (Returns None, t1)" "add_all s objs t1 = Some t'"
    using add_all_first [OF Cons.prems(1)] .
  show ?case
  proof (cases "obj \<in> set objs")
    case True
    with Cons.IH [OF t1(2)] show ?thesis by blast
  next
    case False
    with Cons.prems(2) have u: "u = obj" by simp
    have "lookup t1 (preset_gvr obj) (om_Namespace (obj_meta obj), om_Name (obj_meta obj)) = Some obj"
      using tracker_add_lookup [OF tracker_Add_preset [OF assms(1) t1(1)]] by (simp add: u)
    with add_all_keeps [OF assms(1) t1(2)] show ?thesis by simp
  qed
qed simp

lemmas fake_defs = fake_Maintenance_def fake_MaintenanceJobs_def fake_client_def Invokes_def InvokesWatch_def ObjectReaction_def
  api_action_def new_action_def Let_def

lemma fake_Get:
  "fst (fake_Maintenance patch parse s (OpGet name opts) c) =
     Returns (get_answer (tracker_Get (''vihara.arhat.dev'', ''v1alpha1'', ''maintenance'') [] name (fk_tracker c)))"
  "fst (fake_MaintenanceJobs patch parse s ns (OpGet name opts) c) =
     Returns (get_answer (tracker_Get (''vihara.arhat.dev'', ''v1alpha1'', ''maintenancejobs'') ns name (fk_tracker c)))"
  by (simp_all add: fake_defs FakeMaintenance_Get_def FakeMaintenanceJobs_Get_def)

definition listed :: "go_error + api_object list \<Rightarrow> answered" where
  "listed r = (case r of Inl e \<Rightarrow> (NilObject, Some e) | Inr objs \<Rightarrow> (ObjectList objs, None))"

lemma fake_List:
  "fst (fake_Maintenance patch parse s (OpList opts) c) = Returns (matching parse opts (listed (tracker_List s
     (''vihara.arhat.dev'', ''v1alpha1'', ''maintenance'') (''vihara.arhat.dev'', ''v1alpha1'', ''Maintenance'') [] (fk_tracker c))))"
  "fst (fake_MaintenanceJobs patch parse s ns (OpList opts) c) = Returns (matching parse opts (listed (tracker_List s
     (''vihara.arhat.dev'', ''v1alpha1'', ''maintenancejobs'') (''vihara.arhat.dev'', ''v1alpha1'', ''MaintenanceJob'') ns (fk_tracker c))))"
  by (simp_all add: fake_defs FakeMaintenance_List_action_def FakeMaintenanceJobs_List_action_def listed_def split: sum.split)

lemma fake_Delete:
  "fk_tracker (snd (fake_MaintenanceJobs patch parse s ns (OpDelete name opts) c)) =
     snd (tracker_Delete (''vihara.arhat.dev'', ''v1alpha1'', ''maintenancejobs'') ns name (fk_tracker c))"
  by (auto simp: fake_defs FakeMaintenanceJobs_Delete_def written_def split: prod.splits outcome.splits option.splits)

section \<open>Properties\<close>

text \<open>A fake clientset made with objects answers with those that are maintenance jobs, but with none of the
  maintenances: they are stored under the guessed plural \<open>maintenances\<close>, while the resource the
  clients ask for is \<open>maintenance\<close>. Getting one is answered with NotFound, listing them with nothing.\<close>

lemma preset_maintenances_not_found:
  assumes "fake_init = Some s" and "NewSimpleClientset s objects = Some c"
  shows "fst (fake_Maintenance patch parse s (OpGet name opts) c) = Returns (NilObject, Some (NotFound name)) \<and>
    fst (fake_Maintenance patch parse s (OpList listOpts) c) = Returns (ObjectList [], None) \<and>
    (\<forall>j. JobObject j \<in> set objects \<longrightarrow>
       fst (fake_MaintenanceJobs patch parse s (om_Namespace (mj_Meta j)) (OpGet (mj_Name j) opts) c) =
         Returns (AnObject (JobObject j), None))"
proof -
  let ?g = "(''vihara.arhat.dev'', ''v1alpha1'', ''maintenance'')"
  have t: "add_all s objects NewObjectTracker = Some (fk_tracker c)" using assms(2) by (auto simp: NewSimpleClientset_def)
  have "?g \<noteq> preset_gvr obj" for obj by (cases obj) simp_all
  then have "?g \<notin> preset_gvr ` set objects" by blast
  with add_all_keeps [OF assms(1) t, of ?g]
  have "map_of (tk_objects (fk_tracker c)) ?g = map_of (tk_objects NewObjectTracker) ?g" by blast
  then have g: "map_of (tk_objects (fk_tracker c)) ?g = None" by (simp add: NewObjectTracker_def)
  obtain ty where l: "map_of (sm_gvkToType s) (''vihara.arhat.dev'', ''v1alpha1'', ''MaintenanceList'') = Some ty"
    using fake_kinds(2) [OF assms(1), of "MtObject zero_Maintenance"] by force
  have "fst (fake_MaintenanceJobs patch parse s (om_Namespace (mj_Meta j)) (OpGet (mj_Name j) opts) c) =
      Returns (AnObject (JobObject j), None)" if "JobObject j \<in> set objects" for j
    using add_all_preset [OF assms(1) t that] by (simp add: fake_Get tracker_Get_lookup get_answer_def)
  moreover have "fst (fake_Maintenance patch parse s (OpList listOpts) c) = Returns (ObjectList [], None)"
    using g l by (simp add: fake_List tracker_List_def listed_def matching_def fake_list_def)
  moreover have "fst (fake_Maintenance patch parse s (OpGet name opts) c) = Returns (NilObject, Some (NotFound name))"
    using g by (simp add: fake_Get tracker_Get_def get_answer_def)
  ultimately show ?thesis by blast
qed

lemma preset_maintenances_not_found_witness:
  "\<exists>s c. fake_init = Some s \<and> NewSimpleClientset s [MtObject zero_Maintenance, JobObject zero_MaintenanceJob] = Some c \<and>
     fst (fake_Maintenance (\<lambda>_. Inr) (\<lambda>_. None) s (OpGet [] []) c) = Returns (NilObject, Some (NotFound [])) \<and>
     fst (fake_MaintenanceJobs (\<lambda>_. Inr) (\<lambda>_. None) s [] (OpGet [] []) c) =
       Returns (AnObject (JobObject zero_MaintenanceJob), None)"
proof -
  have "\<not> Option.is_none (Option.bind fake_init (\<lambda>s. NewSimpleClientset s [MtObject zero_Maintenance, JobObject zero_MaintenanceJob]))"
    by code_simp
  then obtain s c where s: "fake_init = Some s"
    "NewSimpleClientset s [MtObject zero_Maintenance, JobObject zero_MaintenanceJob] = Some c"
    by (auto simp: Option.is_none_def bind_eq_Some_conv)
  from preset_maintenances_not_found [OF s, of "\<lambda>_. Inr" "\<lambda>_. None" "[]" "[]"] s show ?thesis
    by (auto simp: zero_MaintenanceJob_def zero_ObjectMeta_def)
qed

text \<open>Created objects are found: what was created in a namespace is returned by a later get, until it is deleted.\<close>

lemma written_done:
  assumes "written found r = (Returns (obj, None), t')"
  shows "(fst r = Returns None \<and> snd r = t' \<and> found t' = (obj, None)) \<or> obj = NilObject"
  using assms by (auto simp: written_def split: prod.splits outcome.splits option.splits)

lemma fake_create_get:
  assumes "fake_MaintenanceJobs patch parse s ns (OpCreate j opts) c = (Returns (AnObject obj, None), c')"
  shows "obj = stored ns (JobObject j)"
    and "fst (fake_MaintenanceJobs patch parse s ns (OpGet (mj_Name j) opts') c') = Returns (AnObject obj, None)"
    and "fake_MaintenanceJobs patch parse s ns (OpDelete (mj_Name j) o') c' = (Returns (NilObject, None), c'') \<Longrightarrow>
      fst (fake_MaintenanceJobs patch parse s ns (OpGet (mj_Name j) opts') c'') =
        Returns (NilObject, Some (NotFound (mj_Name j)))"
proof -
  let ?g = "(''vihara.arhat.dev'', ''v1alpha1'', ''maintenancejobs'')"
  have "written (\<lambda>t1. get_answer (tracker_Get ?g ns (mj_Name j) t1)) (tracker_add ?g (JobObject j) ns False (fk_tracker c)) =
      (Returns (AnObject obj, None), fk_tracker c')"
    using assms by (auto simp: fake_defs FakeMaintenanceJobs_Create_def split: prod.splits)
  from written_done [OF this] obtain t' where a: "tracker_add ?g (JobObject j) ns False (fk_tracker c) = (Returns None, t')"
    and t': "fk_tracker c' = t'" and o: "get_answer (tracker_Get ?g ns (mj_Name j) t') = (AnObject obj, None)"
    by (cases "tracker_add ?g (JobObject j) ns False (fk_tracker c)") auto
  from tracker_add_lookup [OF a, of ?g "(ns, mj_Name j)"]
  have l: "lookup t' ?g (ns, mj_Name j) = Some (stored ns (JobObject j))" by simp
  then show b: "obj = stored ns (JobObject j)" using o by (simp add: tracker_Get_lookup get_answer_def)
  show "fst (fake_MaintenanceJobs patch parse s ns (OpGet (mj_Name j) opts') c') = Returns (AnObject obj, None)"
    using l b t' by (simp add: fake_Get tracker_Get_lookup get_answer_def)
  assume "fake_MaintenanceJobs patch parse s ns (OpDelete (mj_Name j) o') c' = (Returns (NilObject, None), c'')"
  then have "fk_tracker c'' = snd (tracker_Delete ?g ns (mj_Name j) t')"
    using t' fake_Delete [of patch parse s ns "mj_Name j" o' c'] by simp
  moreover have "lookup (snd (tracker_Delete ?g ns (mj_Name j) t')) ?g (ns, mj_Name j) = None"
    using l tracker_Delete_lookup [of ?g ns "mj_Name j" t'] by simp
  ultimately show "fst (fake_MaintenanceJobs patch parse s ns (OpGet (mj_Name j) opts') c'') =
      Returns (NilObject, Some (NotFound (mj_Name j)))"
    by (simp add: fake_Get tracker_Get_lookup get_answer_def)
qed

text \<open>A deletion of a collection is answered without error and deletes nothing.\<close>

lemma fake_collection_not_deleted:
  "fake_Maintenance patch parse s (OpDeleteCollection opts listOpts) c =
     (Returns (ObjectList [], None), c\<lparr>fk_actions := fk_actions c @ [api_action MtObject (FakeMaintenance_DeleteCollection listOpts)]\<rparr>)"
  by (simp add: fake_defs FakeMaintenance_DeleteCollection_def)

end
