(* ===== verification/FakeWatch.thy ===== *)
theory FakeWatch
  imports FakeClientset
begin

text \<open>
  Lists and watches of the fake clientset agree: whoever lists the objects of a resource, watches it, and
  replays what the watcher brings, has the list of any later time. Calls of the clients by
  any users, receiving and stopping of watchers are interleaved freely.
\<close>

section \<open>Calls\<close>

datatype fake_call =
    OnMaintenance "Maintenance client_op"
  | OnJobs string "MaintenanceJob client_op"
  | Receive nat
  | StopWatch nat

definition set_watcher :: "nat \<Rightarrow> RaceFreeFakeWatcher \<Rightarrow> fake_Clientset \<Rightarrow> fake_Clientset" where
  "set_watcher w f c = c\<lparr>fk_tracker := (fk_tracker c)\<lparr>tk_fakes := (tk_fakes (fk_tracker c))[w := f]\<rparr>\<rparr>"

definition fake_watcher :: "nat \<Rightarrow> fake_Clientset \<Rightarrow> RaceFreeFakeWatcher" where
  "fake_watcher w c = tk_fakes (fk_tracker c) ! w"

text \<open>What \<open>patch\<close> and \<open>parse\<close> do and the scheme are fixed for a run.\<close>

record fake_lib =
  fl_patch :: "string \<Rightarrow> api_object \<Rightarrow> go_error + api_object"
  fl_parse :: "string \<Rightarrow> ((string \<times> string) list \<Rightarrow> bool) option"
  fl_scheme :: Scheme

definition call_maintenance :: "fake_lib \<Rightarrow> Maintenance client_op \<Rightarrow> fake_Clientset \<Rightarrow> answered outcome \<times> fake_Clientset" where
  "call_maintenance L = fake_Maintenance (fl_patch L) (fl_parse L) (fl_scheme L)"

definition call_jobs :: "fake_lib \<Rightarrow> string \<Rightarrow> MaintenanceJob client_op \<Rightarrow> fake_Clientset \<Rightarrow> answered outcome \<times> fake_Clientset" where
  "call_jobs L = fake_MaintenanceJobs (fl_patch L) (fl_parse L) (fl_scheme L)"

definition not_panicked :: "answered outcome \<times> fake_Clientset \<Rightarrow> fake_Clientset option" where
  "not_panicked r = (case r of (Returns _, c) \<Rightarrow> Some c | (Panics _, _) \<Rightarrow> None)"

text \<open>A step, with the events the watcher \<open>i\<close> hands over in it; \<open>None\<close> when it panics or blocks.\<close>

fun fake_step :: "fake_lib \<Rightarrow> nat \<Rightarrow> fake_call \<Rightarrow> fake_Clientset \<Rightarrow> (watch_event list \<times> fake_Clientset) option" where
  "fake_step L i (OnMaintenance op) c = map_option (Pair []) (not_panicked (call_maintenance L op c))"
| "fake_step L i (OnJobs ns op) c = map_option (Pair []) (not_panicked (call_jobs L ns op c))"
| "fake_step L i (Receive w) c =
     (if w < length (tk_fakes (fk_tracker c))
      then map_option (\<lambda>(e, f). (if w = i then [e] else [], set_watcher w f c)) (receive (fake_watcher w c))
      else None)"
| "fake_step L i (StopWatch w) c =
     (if w < length (tk_fakes (fk_tracker c))
      then Some ([], set_watcher w (watcher_Stop (fake_watcher w c)) c) else None)"

fun fake_run :: "fake_lib \<Rightarrow> nat \<Rightarrow> fake_call list \<Rightarrow> fake_Clientset \<Rightarrow> (watch_event list \<times> fake_Clientset) option" where
  "fake_run L i [] c = Some ([], c)"
| "fake_run L i (x # xs) c =
     (case fake_step L i x c of
        None \<Rightarrow> None
      | Some (es, c1) \<Rightarrow> map_option (apfst (append es)) (fake_run L i xs c1))"

section \<open>What a call does to the tracker\<close>

definition tracker_moves :: "tracker \<Rightarrow> tracker \<Rightarrow> bool" where
  "tracker_moves t t' \<longleftrightarrow> quiet t t' \<or> (\<exists>gvr e. changed gvr e t t') \<or> (\<exists>gvr ns i. tracker_Watch gvr ns t = (i, t'))"

definition in_order :: "tracker \<Rightarrow> bool" where
  "in_order t \<longleftrightarrow> tracker_ok t \<and> tidy t"

lemma quiet_refl [simp]: "quiet t t"
  by (simp add: quiet_def)

lemma tracker_moves_refl [simp]: "tracker_moves t t"
  by (simp add: tracker_moves_def)

lemma moves_add:
  assumes "in_order t" and "tracker_add gvr obj ns replace t = (Returns err, t')"
  shows "tracker_moves t t' \<and> tidy t'"
proof
  have t: "tracker_ok t" "tidy t" using assms(1) by (simp_all add: in_order_def)
  from tracker_add_tells [OF t(1) assms(2)] show "tracker_moves t t'" unfolding tracker_moves_def by blast
  from tidy_add [OF t(2), of gvr obj ns replace] assms(2) show "tidy t'" by simp
qed

lemma moves_Delete:
  assumes "in_order t" and "tracker_Delete gvr ns name t = (Returns err, t')"
  shows "tracker_moves t t' \<and> tidy t'"
proof
  have t: "tracker_ok t" "tidy t" using assms(1) by (simp_all add: in_order_def)
  from tracker_Delete_tells [OF t(1) assms(2)] show "tracker_moves t t'" unfolding tracker_moves_def by blast
  from tidy_Delete [OF t(2), of gvr ns name] assms(2) show "tidy t'" by simp
qed

lemma written_tracker:
  assumes "written found r = (Returns x, t')"
  obtains err where "r = (Returns err, t')"
  using assms by (auto simp: written_def split: prod.splits outcome.splits option.splits)

lemma moves_reaction:
  assumes "in_order t" and "ObjectReaction patch s kind a t = Some (Returns x, t')"
  shows "tracker_moves t t' \<and> tidy t'"
proof -
  have w: "tracker_moves t t' \<and> tidy t'" if "written found (tracker_add gvr obj ns replace t) = (Returns x, t')"
    for found gvr obj ns replace
    using written_tracker [OF that] moves_add [OF assms(1)] by metis
  have d: "tracker_moves t t' \<and> tidy t'" if "written found (tracker_Delete gvr ns name t) = (Returns x, t')"
    for found gvr ns name
    using written_tracker [OF that] moves_Delete [OF assms(1)] by metis
  have "tracker_moves t t \<and> tidy t" using assms(1) by (simp add: in_order_def)
  then show ?thesis
    using assms(2) unfolding ObjectReaction_def Let_def by (auto split: if_splits sum.splits dest: w d)
qed

lemma moves_Invokes:
  assumes "in_order (fk_tracker c)" and "Invokes patch s kind a d c = (Returns x, c')"
  shows "tracker_moves (fk_tracker c) (fk_tracker c') \<and> tidy (fk_tracker c')"
  using assms moves_reaction [OF assms(1), of patch s kind a]
  by (auto simp: Invokes_def Let_def in_order_def split: option.splits prod.splits)

lemma moves_InvokesWatch:
  assumes "in_order (fk_tracker c)" and "InvokesWatch kind a c = (Returns x, c')"
  shows "tracker_moves (fk_tracker c) (fk_tracker c') \<and> tidy (fk_tracker c')"
proof -
  obtain gvr ns i where w: "tracker_Watch gvr ns (fk_tracker c) = (i, fk_tracker c')"
    using assms(2) by (auto simp: InvokesWatch_def Let_def split: prod.splits)
  have "tidy (fk_tracker c')"
    using watch_ok(4) [OF _ w] tidy_frame assms(1) unfolding in_order_def by blast
  with w show ?thesis unfolding tracker_moves_def by blast
qed

lemma moves_client:
  assumes "in_order (fk_tracker c)" and "fake_client patch parse s kind zero op a c = (Returns x, c')"
  shows "tracker_moves (fk_tracker c) (fk_tracker c') \<and> tidy (fk_tracker c')"
  using assms(2) moves_InvokesWatch [OF assms(1)] moves_Invokes [OF assms(1)]
  by (cases op) (auto simp: fake_client_def split: prod.splits outcome.splits)

lemma moves_call:
  assumes "in_order (fk_tracker c)"
  shows "not_panicked (call_maintenance L op c) = Some c' \<Longrightarrow> tracker_moves (fk_tracker c) (fk_tracker c') \<and> tidy (fk_tracker c')"
    and "not_panicked (call_jobs L ns op' c) = Some c' \<Longrightarrow> tracker_moves (fk_tracker c) (fk_tracker c') \<and> tidy (fk_tracker c')"
proof -
  have r: "\<exists>x. r = (Returns x, c')" if "not_panicked r = Some c'" for r
    using that by (auto simp: not_panicked_def split: prod.splits outcome.splits)
  show "not_panicked (call_maintenance L op c) = Some c' \<Longrightarrow> tracker_moves (fk_tracker c) (fk_tracker c') \<and> tidy (fk_tracker c')"
    by (drule r) (auto simp: call_maintenance_def fake_Maintenance_def dest: moves_client [OF assms])
  show "not_panicked (call_jobs L ns op' c) = Some c' \<Longrightarrow> tracker_moves (fk_tracker c) (fk_tracker c') \<and> tidy (fk_tracker c')"
    by (drule r) (auto simp: call_jobs_def fake_MaintenanceJobs_def dest: moves_client [OF assms])
qed

lemma moves_ok: "tracker_moves t t' \<Longrightarrow> tracker_ok t \<Longrightarrow> tracker_ok t'"
  unfolding tracker_moves_def using quiet_ok changed_ok watch_ok(1) by blast

lemma moves_in_order: "tracker_moves t t' \<and> tidy t' \<Longrightarrow> in_order t \<Longrightarrow> in_order t'"
  using moves_ok by (auto simp: in_order_def)

section \<open>What a watcher has been told\<close>

text \<open>The watcher \<open>i\<close> of a resource and a namespace, with the events \<open>es\<close> taken from it and those that wait, brings a
  reader from the table \<open>m\<close> to the present one.\<close>

definition follows :: "nat \<Rightarrow> gvr \<Rightarrow> string \<Rightarrow> (string \<times> string \<Rightarrow> api_object option) \<Rightarrow> watch_event list \<Rightarrow> tracker \<Rightarrow> bool" where
  "follows i gvr ns m es t \<longleftrightarrow> in_order t \<and> i \<in> set (watchers_of gvr ns t) \<and> \<not> fw_Stopped (tk_fakes t ! i) \<and>
     table gvr ns t = fold replay_event (es @ fw_result (tk_fakes t ! i)) m"

lemma table_changed:
  assumes "changed g e t t'"
  shows "table gvr ns t' =
    (if g = gvr \<and> (ns = [] \<or> fst (obj_key (event_object e)) = ns) then replay_event e (table gvr ns t) else table gvr ns t)"
proof -
  have l: "lookup t' = (lookup t)(g := replay_event e (lookup t g))" using assms by (simp add: changed_def)
  show ?thesis
    by (rule ext) (auto simp: table_def l replay_event_def)
qed

lemma told_changed:
  assumes "tracker_ok t" and "i \<in> set (watchers_of gvr ns t)"
  shows "i \<in> set (getWatches g ns' t) \<longleftrightarrow> g = gvr \<and> (ns = [] \<or> ns' = ns)"
  using tracker_ok_watchers(3) [OF assms(1,2), of g ns'] tracker_ok_watchers(3) [OF assms(1,2), of g "[]"]
  by (auto simp: getWatches_def)

lemma follows_moves:
  assumes "follows i gvr ns m es t" and "tracker_moves t t'" and "tidy t'"
  shows "follows i gvr ns m es t'"
proof -
  have t: "tracker_ok t" "tidy t" "i \<in> set (watchers_of gvr ns t)" "\<not> fw_Stopped (tk_fakes t ! i)"
    "table gvr ns t = fold replay_event (es @ fw_result (tk_fakes t ! i)) m"
    using assms(1) by (simp_all add: follows_def in_order_def)
  have i: "i < length (tk_fakes t)" by (rule tracker_ok_watchers(2) [OF t(1,3)])
  have ok: "in_order t'" using moves_ok [OF assms(2) t(1)] assms(3) by (simp add: in_order_def)
  consider (quiet) "quiet t t'" | (changed) g e where "changed g e t t'"
    | (watch) g n j where "tracker_Watch g n t = (j, t')"
    using assms(2) unfolding tracker_moves_def by blast
  then show ?thesis
  proof cases
    case quiet
    then have l: "lookup t' = lookup t" and "watchers_of gvr ns t' = watchers_of gvr ns t" "tk_fakes t' = tk_fakes t"
      by (simp_all add: quiet_def watchers_of_def)
    moreover have "table gvr ns t' = table gvr ns t" unfolding table_def l ..
    ultimately show ?thesis using t ok by (simp add: follows_def)
  next
    case (changed g e)
    let ?n = "fst (obj_key (event_object e))"
    have f: "tk_fakes t' ! i = (if i \<in> set (getWatches g ?n t) then told e (tk_fakes t ! i) else tk_fakes t ! i)"
      "watchers_of gvr ns t' = watchers_of gvr ns t"
      using changed i by (simp_all add: changed_def watchers_of_def)
    show ?thesis
      using t ok f told_changed [OF t(1,3), of g ?n] table_changed [OF changed, of gvr ns]
      by (auto simp: follows_def told_def)
  next
    case (watch g n j)
    note w = watch_ok [OF t(1) watch]
    have "table gvr ns t' = table gvr ns t" unfolding table_def w(3) ..
    moreover have "i \<in> set (watchers_of gvr ns t')" using t(3) w(7) [of gvr ns] by auto
    ultimately show ?thesis using t(4,5) ok w(6) i by (simp add: follows_def nth_append)
  qed
qed

lemma set_watcher_frame [simp]:
  "lookup (fk_tracker (set_watcher w f c)) = lookup (fk_tracker c)"
  "watchers_of gvr ns (fk_tracker (set_watcher w f c)) = watchers_of gvr ns (fk_tracker c)"
  "tidy (fk_tracker (set_watcher w f c)) = tidy (fk_tracker c)"
  "length (tk_fakes (fk_tracker (set_watcher w f c))) = length (tk_fakes (fk_tracker c))"
  by (simp_all add: set_watcher_def fun_eq_iff lookup_def watchers_of_def tidy_def objects_of_def)

lemma set_watcher_order [simp]: "in_order (fk_tracker (set_watcher w f c)) = in_order (fk_tracker c)"
  unfolding in_order_def tracker_ok_def by simp

lemma set_watcher_table [simp]: "table gvr ns (fk_tracker (set_watcher w f c)) = table gvr ns (fk_tracker c)"
  by (simp add: fun_eq_iff table_def)

lemma set_watcher_nth:
  "w < length (tk_fakes (fk_tracker c)) \<Longrightarrow>
   tk_fakes (fk_tracker (set_watcher w f c)) ! i = (if i = w then f else tk_fakes (fk_tracker c) ! i)"
  by (simp add: set_watcher_def)

lemma follows_step:
  assumes "follows i gvr ns m es (fk_tracker c)" and "fake_step L i x c = Some (es', c')" and "x \<noteq> StopWatch i"
  shows "follows i gvr ns m (es @ es') (fk_tracker c')"
proof -
  have o: "in_order (fk_tracker c)" using assms(1) by (simp add: follows_def)
  show ?thesis
  proof (cases x)
    case (OnMaintenance op)
    with assms(2) moves_call [OF o] follows_moves [OF assms(1)] show ?thesis by auto
  next
    case (OnJobs n op)
    with assms(2) moves_call [OF o] follows_moves [OF assms(1)] show ?thesis by auto
  next
    case (Receive w)
    then obtain e rest where w: "w < length (tk_fakes (fk_tracker c))" and r: "fw_result (fake_watcher w c) = e # rest"
      and c': "es' = (if w = i then [e] else [])" "c' = set_watcher w ((fake_watcher w c)\<lparr>fw_result := rest\<rparr>) c"
      using assms(2) by (auto simp: receive_def split: if_splits list.splits)
    show ?thesis
      using assms(1) r w by (cases "w = i") (auto simp: c' follows_def set_watcher_nth fake_watcher_def)
  next
    case (StopWatch w)
    then have "w \<noteq> i" and w: "w < length (tk_fakes (fk_tracker c))" and "es' = []"
      and "c' = set_watcher w (watcher_Stop (fake_watcher w c)) c"
      using assms(2,3) by (auto split: if_splits)
    with assms(1) show ?thesis by (simp add: follows_def set_watcher_nth)
  qed
qed

lemma follows_run:
  "follows i gvr ns m es (fk_tracker c) \<Longrightarrow> fake_run L i xs c = Some (es', c') \<Longrightarrow> StopWatch i \<notin> set xs \<Longrightarrow>
   follows i gvr ns m (es @ es') (fk_tracker c')"
proof (induction xs arbitrary: c es es')
  case (Cons x xs)
  then obtain e1 c1 e2 where s: "fake_step L i x c = Some (e1, c1)" "fake_run L i xs c1 = Some (e2, c')" "es' = e1 @ e2"
    by (auto split: option.splits)
  have "x \<noteq> StopWatch i" using Cons.prems(3) by auto
  from Cons.IH [OF follows_step [OF Cons.prems(1) s(1) this] s(2)] Cons.prems(3) s(3) show ?case by simp
qed simp

lemma order_run:
  "in_order (fk_tracker c) \<Longrightarrow> fake_run L i xs c = Some (es, c') \<Longrightarrow> in_order (fk_tracker c')"
proof (induction xs arbitrary: c es)
  case (Cons x xs)
  then obtain e1 c1 e2 where s: "fake_step L i x c = Some (e1, c1)" "fake_run L i xs c1 = Some (e2, c')"
    by (auto split: option.splits)
  have "in_order (fk_tracker c1)"
  proof (cases x)
    case (Receive w)
    with s(1) Cons.prems(1) show ?thesis by (auto split: if_splits)
  next
    case (StopWatch w)
    with s(1) Cons.prems(1) show ?thesis by (auto split: if_splits)
  next
    case (OnMaintenance op)
    with s(1) have "not_panicked (call_maintenance L op c) = Some c1" by auto
    from moves_in_order [OF moves_call(1) [OF Cons.prems(1) this] Cons.prems(1)] show ?thesis .
  next
    case (OnJobs n op)
    with s(1) have "not_panicked (call_jobs L n op c) = Some c1" by auto
    from moves_in_order [OF moves_call(2) [OF Cons.prems(1) this] Cons.prems(1)] show ?thesis .
  qed
  with Cons.IH [OF _ s(2)] show ?case by simp
qed simp

text \<open>Trackers start in order.\<close>

lemma order_new: "in_order NewObjectTracker"
  by (simp add: in_order_def tracker_ok_def tidy_def NewObjectTracker_def objects_of_def watchers_of_def lookup_def)

lemma order_add_kinds: "in_order t \<Longrightarrow> add_kinds ks obj t = (Returns err, t') \<Longrightarrow> in_order t'"
proof (induction ks arbitrary: t)
  case (Cons k ks)
  have o: "in_order t1" if "tracker_add (guessed_resource k) obj (om_Namespace (obj_meta obj)) False t = (Returns e, t1)" for e t1
    using moves_in_order [OF moves_add [OF Cons.prems(1) that] Cons.prems(1)] .
  show ?case using Cons.prems(2) Cons.IH o by (auto split: prod.splits outcome.splits option.splits)
qed simp

lemma order_add_all: "in_order t \<Longrightarrow> add_all s objs t = Some t' \<Longrightarrow> in_order t'"
proof (induction objs arbitrary: t)
  case (Cons obj objs)
  obtain t1 where t1: "tracker_Add s obj t = (Returns None, t1)" "add_all s objs t1 = Some t'"
    using add_all_first [OF Cons.prems(2)] .
  have "in_order t1"
    using t1(1) order_add_kinds [OF Cons.prems(1)] by (auto simp: tracker_Add_def split: if_splits)
  from Cons.IH [OF this t1(2)] show ?case .
qed simp

lemma order_clientset: "NewSimpleClientset s objects = Some c \<Longrightarrow> in_order (fk_tracker c)"
  using order_add_all [OF order_new] by (auto simp: NewSimpleClientset_def)

section \<open>Properties\<close>

definition jobs_gvr :: gvr where
  "jobs_gvr = (''vihara.arhat.dev'', ''v1alpha1'', ''maintenancejobs'')"

lemma jobs_listed:
  assumes "in_order (fk_tracker c)" and "fst (call_jobs L ns (OpList opts) c) = Returns (ObjectList objs, err)"
    and "fl_parse L (lo_LabelSelector opts) = None"
  shows "by_key objs = table jobs_gvr ns (fk_tracker c)"
proof -
  have "tracker_List (fl_scheme L) jobs_gvr (''vihara.arhat.dev'', ''v1alpha1'', ''MaintenanceJob'') ns (fk_tracker c) = Inr objs"
    using assms(2,3)
    by (auto simp: call_jobs_def fake_List listed_def matching_def fake_list_def jobs_gvr_def split: sum.splits)
  with by_key_list assms(1) show ?thesis unfolding in_order_def by blast
qed

lemma jobs_watched:
  assumes "in_order (fk_tracker c)" and "call_jobs L ns (OpWatch opts) c = (Returns (AWatcher i, None), c')"
  shows "follows i jobs_gvr ns (table jobs_gvr ns (fk_tracker c)) [] (fk_tracker c')"
proof -
  have w: "tracker_Watch jobs_gvr ns (fk_tracker c) = (i, fk_tracker c')"
    using assms(2) by (auto simp: call_jobs_def fake_defs FakeMaintenanceJobs_Watch_def jobs_gvr_def split: prod.splits)
  have o: "tracker_ok (fk_tracker c)" "tidy (fk_tracker c)" using assms(1) by (simp_all add: in_order_def)
  note u = watch_ok [OF o(1) w]
  have "table jobs_gvr ns (fk_tracker c') = table jobs_gvr ns (fk_tracker c)"
    unfolding table_def u(3) ..
  with u(1,2,5,6) o(2) tidy_frame [OF u(4)] show ?thesis
    by (simp add: follows_def in_order_def NewRaceFreeFake_def)
qed

text \<open>C32: A watch of the fake clientset tells what a list left out: whoever lists the maintenance jobs of a namespace
  (or of all, with the empty one) and watches them at that moment, has by replaying the events taken from the
  watcher, and those still waiting in it, the list of any later time, whatever was created, updated, patched and
  deleted in between by any clients, as long as no call panics (a watcher that is not read is full after a
  hundred events) and the watcher is not stopped.\<close>

theorem watch_completes_list:
  assumes "NewSimpleClientset (fl_scheme L) objects = Some c0" and "fake_run L i before c0 = Some (earlier, c)"
    and "fst (call_jobs L ns (OpList opts) c) = Returns (ObjectList l, None)"
    and "call_jobs L ns (OpWatch wopts) c = (Returns (AWatcher i, None), c1)"
    and "fake_run L i calls c1 = Some (es, c2)" and "StopWatch i \<notin> set calls"
    and "fst (call_jobs L ns (OpList opts) c2) = Returns (ObjectList l2, None)"
    and "fl_parse L (lo_LabelSelector opts) = None"
  shows "by_key l2 = fold replay_event (es @ fw_result (fake_watcher i c2)) (by_key l)"
proof -
  have o: "in_order (fk_tracker c)" by (rule order_run [OF order_clientset [OF assms(1)] assms(2)])
  from follows_run [OF jobs_watched [OF o assms(4)] assms(5,6)]
  have f: "follows i jobs_gvr ns (table jobs_gvr ns (fk_tracker c)) es (fk_tracker c2)" by simp
  then have "in_order (fk_tracker c2)" by (simp add: follows_def)
  from jobs_listed [OF o assms(3,8)] jobs_listed [OF this assms(7,8)] f show ?thesis
    by (simp add: follows_def fake_watcher_def)
qed

text \<open>A watch asks for no labels: what it tells does not depend on its options, while a list leaves out the items whose
  labels do not match.\<close>

lemma watch_ignores_selectors:
  "fk_tracker (snd (call_jobs L ns (OpWatch opts) c)) = fk_tracker (snd (call_jobs L ns (OpWatch opts') c))"
  by (simp add: call_jobs_def fake_defs FakeMaintenanceJobs_Watch_def split_beta)

text \<open>The scheme with the types of the group.\<close>

definition watch_lib :: fake_lib where
  "watch_lib = \<lparr>fl_patch = \<lambda>_. Inr, fl_parse = \<lambda>_. None,
     fl_scheme = (case AddKnownTypes group_version vihara_types NewScheme of None \<Rightarrow> NewScheme | Some s \<Rightarrow> s)\<rparr>"

definition no_options :: ListOptions where
  "no_options = \<lparr>lo_LabelSelector = [], lo_FieldSelector = [], lo_ResourceVersion = [], lo_TimeoutSeconds = None, lo_Watch = False\<rparr>"

definition named_job :: "string \<Rightarrow> MaintenanceJob" where
  "named_job n = zero_MaintenanceJob\<lparr>mj_Meta := zero_ObjectMeta\<lparr>om_Name := n\<rparr>\<rparr>"

text \<open>One job is created before the watch, one after it; the first is deleted. One event is taken, one waits.\<close>

definition watch_calls :: "fake_call list" where
  "watch_calls = [OnJobs ''ns'' (OpCreate (named_job ''b'') []), OnJobs ''ns'' (OpDelete ''a'' []), Receive 0]"

fun answered_list :: "answered outcome \<Rightarrow> api_object list option" where
  "answered_list (Returns (ObjectList l, None)) = Some l"
| "answered_list _ = None"

fun answered_watch :: "answered outcome \<times> fake_Clientset \<Rightarrow> (nat \<times> fake_Clientset) option" where
  "answered_watch (Returns (AWatcher i, None), c) = Some (i, c)"
| "answered_watch _ = None"

lemma answered_iff:
  "answered_list r = Some l \<longleftrightarrow> r = Returns (ObjectList l, None)"
  "answered_watch q = Some (i, c) \<longleftrightarrow> q = (Returns (AWatcher i, None), c)"
  by (cases r rule: answered_list.cases; simp) (cases q rule: answered_watch.cases; auto)

definition watch_sample where
  "watch_sample =
     (case NewSimpleClientset (fl_scheme watch_lib) [] of None \<Rightarrow> None | Some c0 \<Rightarrow>
     (case fake_run watch_lib 0 [OnJobs ''ns'' (OpCreate (named_job ''a'') [])] c0 of None \<Rightarrow> None | Some c \<Rightarrow>
     (case answered_list (fst (call_jobs watch_lib ''ns'' (OpList no_options) (snd c))) of None \<Rightarrow> None | Some l \<Rightarrow>
     (case answered_watch (call_jobs watch_lib ''ns'' (OpWatch no_options) (snd c)) of None \<Rightarrow> None | Some w \<Rightarrow>
     (case fake_run watch_lib 0 watch_calls (snd w) of None \<Rightarrow> None | Some r \<Rightarrow>
     (case answered_list (fst (call_jobs watch_lib ''ns'' (OpList no_options) (snd r))) of None \<Rightarrow> None | Some l2 \<Rightarrow>
     Some (fst w, length (fst r), length (fw_result (fake_watcher 0 (snd r))), map obj_key l, map obj_key l2)))))))"

lemma case_SomeE:
  "(case x of None \<Rightarrow> None | Some a \<Rightarrow> f a) = Some y \<Longrightarrow> (\<And>a. x = Some a \<Longrightarrow> f a = Some y \<Longrightarrow> thesis) \<Longrightarrow> thesis"
  by (cases x) auto

lemma watch_sample: "watch_sample = Some (0, 1, 1, [(''ns'', ''a'')], [(''ns'', ''b'')])"
  by code_simp

theorem watch_completes_list_witness:
  "\<exists>es rest l l2. length es = 1 \<and> length rest = 1 \<and> map obj_key l = [(''ns'', ''a'')] \<and> map obj_key l2 = [(''ns'', ''b'')] \<and>
     by_key l2 = fold replay_event (es @ rest) (by_key l)"
proof -
  obtain c0 p l w r l2 where
    c0: "NewSimpleClientset (fl_scheme watch_lib) [] = Some c0"
    and p: "fake_run watch_lib 0 [OnJobs ''ns'' (OpCreate (named_job ''a'') [])] c0 = Some p"
    and l: "answered_list (fst (call_jobs watch_lib ''ns'' (OpList no_options) (snd p))) = Some l"
    and w: "answered_watch (call_jobs watch_lib ''ns'' (OpWatch no_options) (snd p)) = Some w"
    and r: "fake_run watch_lib 0 watch_calls (snd w) = Some r"
    and l2: "answered_list (fst (call_jobs watch_lib ''ns'' (OpList no_options) (snd r))) = Some l2"
    and len: "Some (fst w, length (fst r), length (fw_result (fake_watcher 0 (snd r))), map obj_key l, map obj_key l2) =
      Some (0, 1, 1, [(''ns'', ''a'')], [(''ns'', ''b'')])"
    using watch_sample [unfolded watch_sample_def] by (elim case_SomeE) (rule that)
  obtain x c c1 es c2 where e: "p = (x, c)" "w = (0, c1)" "r = (es, c2)"
    using len by (cases p, cases w, cases r) simp
  have "StopWatch 0 \<notin> set watch_calls" "fl_parse watch_lib (lo_LabelSelector no_options) = None"
    by (simp_all add: watch_calls_def watch_lib_def)
  with watch_completes_list [of watch_lib "[]" c0 0 "[OnJobs ''ns'' (OpCreate (named_job ''a'') [])]" x c "''ns''" no_options l
      no_options c1 watch_calls es c2 l2] c0 p l w r l2
  have "by_key l2 = fold replay_event (es @ fw_result (fake_watcher 0 c2)) (by_key l)"
    by (simp only: e snd_conv answered_iff simp_thms)
  with len show ?thesis unfolding e by (intro exI [of _ es] exI [of _ "fw_result (fake_watcher 0 c2)"] exI [of _ l] exI [of _ l2]) simp
qed

end
