(* ===== verification/Spec2Isabelle.thy ===== *)
theory Spec2Isabelle
  imports System StepWrites QueueStop Startup Wiring DeepCopy MaintenanceProgress MaintenanceLife JobProgress QueueRaces FakeWatch
begin

text \<open>
  \<^bold>\<open>Vihara\<close> is a Kubernetes controller for the maintenance of nodes. A \<open>Maintenance\<close> object names nodes, a time
  window, dependencies and stages (drain, a pod, uncordon). When its window has begun and its
  dependencies are finished, the controller creates one \<open>MaintenanceJob\<close> for each node and runs
  the stages of each job in order, with Kubernetes jobs for its pods.

  \<^bold>\<open>The program and its model\<close> (paths under \<open>src/\<close>). Objects arrive from informers. A reconciler
  (\<open>vendor/arhat.dev/pkg/reconcile\<close>, \<open>kubehelper\<close>) keeps their old and new versions, merges the events of an
  object to one job, and calls a handler of \<open>pkg/controller/maintenance\<close>. Handlers put names into two
  timeout queues (\<open>vendor/arhat.dev/pkg/queue/timeout_queue.go\<close>), whose consumers run the schedulers of maintenances
  and of maintenance jobs; these read the informers' caches and write through the API clients.

  \<^item> \<open>Prelude\<close>, \<open>KubeTypes\<close>: errors, panics, machine integers, times; the Kubernetes objects with the fields the
    controller uses, tolerations, controller references.
  \<^item> \<open>ViharaTypes\<close>: \<open>pkg/apis/vihara/v1alpha1/types_*.go\<close>, every struct, phase predicate and \<open>Validate\<close>.
  \<^item> \<open>World\<close>: the state all handlers share (informer caches, timeout queues, and the history of calls and
    observations) and the API calls, answered by an environment \<open>env\<close> that may depend on the history.
  \<^item> \<open>MaintenanceHandlers\<close>, \<open>JobNames\<close>, \<open>Dependencies\<close>, \<open>MaintenanceSchedule\<close>: \<open>maintenance.go\<close>, the handlers with
    \<open>enqueueMaintenanceForScheduling\<close>, and \<open>scheduleMaintenance\<close> (snapshot, dependencies, nodes, names).
  \<^item> \<open>EnvResolve\<close>, \<open>EnvMerge\<close>, \<open>JobGen\<close>, \<open>NodeOps\<close>, \<open>MaintenanceJobs\<close>: \<open>maintenencejob.go\<close>, node specific environment, generated
    jobs, drain and uncordon, the job handlers and \<open>scheduleMaintenanceJob\<close>. \<open>KubeJobs\<close>: \<open>job.go\<close>.
  \<^item> \<open>TimeoutQueue\<close>, \<open>QueueThreads\<close>, \<open>QueueStop\<close>: the timeout queue as a data structure, the goroutines, lock, timer and
    channels that implement it, and what becomes of them when the stop channel is closed. \<open>JobQueue\<close>, \<open>Backoff\<close>, \<open>Reconciler\<close>: the jobs of a reconciler, its retry delays,
    its caches, and the informer events that feed it.
  \<^item> \<open>Controller\<close>: the step relation \<open>ctrl_step\<close>, in which handlers may be called with any object at any time, the
    queues are sorted and served, and caches change. \<open>System\<close>: the relation \<open>sys_step\<close> of the whole program, in
    which handlers are only called by the three reconcilers of \<open>controller.go\<close>; it refines \<open>ctrl_step\<close>.
    \<open>StepWrites\<close>: what the writes of each step come from.
  \<^item> \<open>MaintenanceProgress\<close>: which nodes the runs for a maintenance leave a job for. \<open>Rounds\<close>, \<open>MaintenanceLife\<close>,
    \<open>JobProgress\<close>: what becomes of a maintenance from its queue to its end, and of a maintenance job from its addition
    to its end, in rounds of expiry and processing. \<open>QueueRaces\<close>: the two goroutines that look a maintenance up in its queue and offer it, with the other
    running in between.
  \<^item> \<open>EnvExpand\<close>, \<open>Startup\<close>: \<open>pkg/conf\<close>, \<open>pkg/constant\<close>, \<open>pkg/cmd\<close>, \<open>pkg/util/manager\<close>, \<open>pkg/version\<close>, \<open>cmd/vihara\<close>: the
    configuration and its precedence, the steps of \<open>run\<close>, leader election, the commands with the help flag and commands of the
    cobra library, exit status.
  \<^item> \<open>Clients\<close>, \<open>Informers\<close>, \<open>DeepCopy\<close>: the generated code, clients and fakes over the request builder, the shared
    informer factory (informers have an address, since they are shared) and the listers, and the deep copies over an explicit memory. \<open>Clientset\<close>: the clientset with its
    rate limiters and the registration of the types with a scheme. \<open>Wiring\<close>: which of them \<open>NewController\<close> takes.
  \<^item> \<open>ObjectTracker\<close>, \<open>FakeClientset\<close>, \<open>FakeWatch\<close>: the fake clientset over the object tracker of \<open>client-go/testing\<close>, its
    objects, reactions and watchers.
  \<^item> \<open>Samples\<close>: objects and environments the witnesses use. This theory: properties of whole runs.

  \<^bold>\<open>What the lemmas show\<close>. In \<open>World\<close> the frame rules say what a call changes; in each theory of handlers one group says which writes a handler makes (\<open>extends\<close> with a
  predicate on writes), one which queues and caches it leaves alone, and one what it does on each
  branch, errors and panics included. The locales \<open>schedule_queue\<close> and \<open>job_queue\<close> state what the users of a
  queue rely on and are interpreted on the models of the two queues; \<open>step_invariant\<close> and \<open>simulation\<close> (\<open>Transitions\<close>) carry the
  inductions over reachable states. Refinement is stated for the merge functions and the text
  expansion (against references without indices), the job queue (against the table of its comments), the
  threads of the timeout queue (against the queue whose operations are atomic) and the system of
  reconcilers (against the controller). \<open>QueueThreads\<close> also shows which deadlocks the timeout queue has, \<open>QueueStop\<close> which of
  them a stop ends and which goroutines then never end.
  \<open>StepWrites\<close> derives for every write the state, the object and the clock readings that justify it; \<open>NodeOps\<close> which nodes a
  drain cordons. \<open>MaintenanceProgress\<close> shows that a run leaves a job for every eligible node and that later runs add none for it;
  \<open>MaintenanceLife\<close> that a maintenance is finished when its window is over and not before, whatever its jobs do;
  \<open>JobProgress\<close> follows one job to its end, by induction on the rounds; \<open>Clientset\<close> shows which clients share a rate
  limiter and that registered types stay known; \<open>Wiring\<close> that the controller lists and watches the jobs where it creates
  them; \<open>FakeWatch\<close> that a list and the events after it give every later list.

  \<^bold>\<open>Faithfulness\<close>. Durations and counters are 64 bit words. Go pointers to cached objects matter: the
  schedulers assign to fields of objects in the informers' caches, so an assignment in the model updates
  the cache (\<open>put_mt\<close>, \<open>put_mj\<close>), and the cached objects of a reconciler, which are the same ones, may change
  between its jobs (\<open>change_objects\<close>). A nil dereference, an index out of range and the second close of a channel
  are values of \<open>outcome\<close>. The order in which a map is ranged over is a parameter.

  \<^bold>\<open>Bounds\<close>. No definition stops early for lack of fuel: \<open>search_name\<close> counts up to \<open>MaxUint64\<close> as the code does and
  ends by that measure, the loops over text by what is left of it. Fuel
  is only used to print a duration in seconds as the \<open>float64\<close> that Go computes (\<open>JobGen\<close>): 200 binary digits for a 64
  bit number, and exponents up to 100 where 82 are enough. The backoff factor is the fraction 3/2, for which the
  \<open>float64\<close> product of the code is exact up to the greatest delay.

  \<^bold>\<open>Not modelled\<close>. A handler is one step of \<open>ctrl_step\<close>: of the interleavings inside handlers only the one between
  \<open>Find\<close> and \<open>Offer\<close> on the queue of maintenances is treated, in \<open>QueueRaces\<close>: that the queue of maintenances has no
  duplicate keys (\<open>queues_ok\<close> in \<open>Controller\<close>) holds for handlers that run one after another, and fails in that race. In \<open>Controller\<close> a queue may be
  sorted at any time, which \<open>QueueThreads\<close> justifies for a queue that is not stopped; that an entry is
  delivered in time is not shown, and cannot be, as a queue can block for ever. The conversions and defaults that are
  registered with a scheme, the fake discovery client and lists given to the fake clientset are left out. YAML and flag
  parsing, the REST transport, metrics, tracing, TLS, log
  and event texts belong to libraries. JSON, SHA-256, strategic merge patches, label selectors given as text, field
  paths and \<open>Sprintf\<close> with a user's format are parameters.
\<close>

section \<open>A run of the controller\<close>

text \<open>A maintenance with one pod stage, from its update to the job created for it.\<close>

definition pod_spec :: MaintenanceSpec where
  "pod_spec = (mt_Spec sample_maintenance)\<lparr>sp_Stages := [sample_pod_stage]\<rparr>"

definition run_env :: env where
  "run_env = sample_env_rec\<lparr>en_UnmarshalSpec := \<lambda>_. Inr pod_spec\<rparr>"

definition run1 :: world where
  "run1 = started_world\<lparr>wd_Mt := [(''mt'', sample_admitted)]\<rparr>"

definition run2 :: world where
  "run2 = snd (onMaintenanceUpdated run_env sample_admitted run1)"

definition run3 :: world where
  "run3 = run2\<lparr>wd_MtTQ := tq_sort [] 5000000100 (wd_MtTQ run2)\<rparr>"

definition run4 :: world where
  "run4 = snd (processMaintenanceSchedule run_env ''mt'' (set_mt_expired [] run3))"

lemma run1_reachable: "reachable run_env run1"
  unfolding run1_def by (rule r_into_rtranclp) (rule mt_informer)

lemma run2_reachable: "reachable run_env run2"
  unfolding run2_def by (rule rtranclp.rtrancl_into_rtrancl [OF run1_reachable]) (rule mt_updated)

lemma run3_reachable: "reachable run_env run3"
  unfolding run3_def
  by (rule rtranclp.rtrancl_into_rtrancl [OF run2_reachable]) (rule mt_sort, simp add: swaps_in_range_def)

lemma run3_expired: "map td_Key (tq_expired (wd_MtTQ run3)) = [''mt'']"
  by code_simp

lemma run4_step: "ctrl_step run_env run3 run4"
proof -
  obtain d where d: "tq_expired (wd_MtTQ run3) = [d]" "td_Key d = ''mt''"
    using run3_expired by (auto simp: map_eq_Cons_conv)
  from mt_take [of run3, OF d(1), where E = run_env] d(2) show "ctrl_step run_env run3 run4"
    by (simp add: run4_def)
qed

lemma run4_reachable: "reachable run_env run4"
  using run3_reachable run4_step by (rule rtranclp.rtrancl_into_rtrancl)

definition ends_with_pod :: "MaintenanceJob \<Rightarrow> bool" where
  "ends_with_pod j \<longleftrightarrow> spec_stages j \<noteq> [] \<and> is_pod_stage (last (spec_stages j))"

text \<open>A job with a pod stage at the end, controlled by the sample maintenance.\<close>

definition dep_on_mt :: MaintenanceDependency where
  "dep_on_mt = \<lparr>dep_Name = ''mt'', dep_Individual = False, dep_Condition = ''''\<rparr>"

definition pod_job :: "MaintenanceJob \<Rightarrow> bool" where
  "pod_job j \<longleftrightarrow> ends_with_pod j \<and>
     list_ex (is_dep_owner dep_on_mt sample_maintenance) (om_OwnerReferences (mj_Meta j))"

lemma run4_effects:
  "list_ex (\<lambda>e. case e of MjCreate j \<Rightarrow> pod_job j | _ \<Rightarrow> False) (wd_Hist run4)"
  by code_simp

lemma run4_creates: obtains j where "MjCreate j \<in> set (wd_Hist run4)" "pod_job j"
proof -
  from run4_effects obtain e where e: "e \<in> set (wd_Hist run4)" "case e of MjCreate j \<Rightarrow> pod_job j | _ \<Rightarrow> False"
    unfolding list_ex_iff by blast
  with that show ?thesis by (cases e) simp_all
qed

lemma run4_cached: "map_option (\<lambda>m. om_UID (mt_Meta m)) (map_of (wd_Mt run4) ''mt'') = Some ''u1''"
  by code_simp

text \<open>The informer brings the job that was created.\<close>

definition run5 :: "MaintenanceJob \<Rightarrow> world" where
  "run5 j = put_mj ''ns/mt.n1'' j run4"

lemma run5_reachable:
  obtains j where "reachable run_env (run5 j)" "pod_job j" "map_of (wd_Mj (run5 j)) ''ns/mt.n1'' = Some j"
proof -
  obtain j where j: "MjCreate j \<in> set (wd_Hist run4)" "pod_job j" by (rule run4_creates)
  have "ctrl_step run_env run4 (put_mj ''ns/mt.n1'' (j\<lparr>mj_Meta := mj_Meta j\<rparr>) run4)"
    using j(1) by (intro mj_informer) simp
  then have "reachable run_env (run5 j)"
    using run4_reachable by (simp add: run5_def)
  with j(2) show ?thesis by (intro that [of j]) (simp_all add: run5_def)
qed

lemma run_env_echo: "echo run_env"
  by (simp add: echo_def run_env_def sample_env_rec_def)

section \<open>Properties of the running controller\<close>

text \<open>C8: Every write of the running controller is justified by the state it is made in, if the API server answers
  status updates of maintenance jobs with what it was sent. A status update of a maintenance is an admission (of the
  object the handler was given, for this namespace and not admitted yet, with a non-empty window), or the snapshot of a
  cached object that is neither canceled nor scheduled, with its digest, at a clock reading within its window, or the end
  of a cached object that is neither canceled nor finished, at a clock reading past the end of its window; each sets its
  phase, with the time read just before the call, and nothing else. A maintenance is deleted only while its deletion is
  handled and when it is not under execution. A maintenance job is created while a cached maintenance is due, in the
  namespace of the controller, without a status and under a controlling reference; a Kubernetes job is the one generated
  for an idle pod stage of a cached maintenance job whose turn it is; and no status update touches pod stages.\<close>

theorem reachable_writes:
  assumes "reachable E w" and "echo E" and "ctrl_step E w w'"
  shows "\<exists>new. writes (wd_Hist w') = new @ writes (wd_Hist w) \<and> (\<forall>e \<in> set new. write_justified E w w' e)"
proof -
  have "calls_ok E w" using calls.reachable_inv [OF assms(1)] assms(2) by simp
  from step_writes [OF assms(2) this assms(3)] show ?thesis by (simp add: extends_def)
qed

text \<open>The step that schedules the maintenance of the run above takes its snapshot.\<close>

theorem reachable_writes_witness:
  "\<exists>m. MtUpdateStatus m \<in> set (writes (wd_Hist run4)) \<and> takes_snapshot run_env run3 (wd_Hist run4) m"
proof -
  have u: "writes (wd_Hist run3) = []" "list_ex (\<lambda>e. case e of MtUpdateStatus m \<Rightarrow> \<not> Finished m | _ \<Rightarrow> False) (writes (wd_Hist run4))"
    by code_simp+
  then obtain e where "e \<in> set (writes (wd_Hist run4))" "case e of MtUpdateStatus m \<Rightarrow> \<not> Finished m | _ \<Rightarrow> False"
    unfolding list_ex_iff by blast
  then obtain m where m: "MtUpdateStatus m \<in> set (writes (wd_Hist run4))" "\<not> Finished m" by (cases e rule: effect.exhaust) auto
  have "write_justified run_env run3 run4 (MtUpdateStatus m)"
    using reachable_writes [OF run3_reachable run_env_echo run4_step] m(1) u(1) by auto
  then have "admits run_env run3 run4 m \<or> takes_snapshot run_env run3 (wd_Hist run4) m \<or> ends_maintenance run_env run3 (wd_Hist run4) m"
    by simp
  moreover have "\<not> admits run_env run3 run4 m"
  proof
    assume "admits run_env run3 run4 m"
    then have "wd_MtTQ run4 = wd_MtTQ run3" unfolding admits_def by (metis onMaintenanceAdded_frame(3))
    moreover have "tq_expired (wd_MtTQ run4) = []" "tq_expired (wd_MtTQ run3) \<noteq> []" by code_simp+
    ultimately show False by simp
  qed
  moreover have "\<not> ends_maintenance run_env run3 (wd_Hist run4) m"
  proof
    assume "ends_maintenance run_env run3 (wd_Hist run4) m"
    then obtain d t where "m = set_finished t (en_ThisPod run_env) d" "Clock t \<in> set (wd_Hist run4)"
      unfolding ends_maintenance_def by auto
    moreover have "list_all (\<lambda>e. case e of Clock t \<Rightarrow> t = 100 | _ \<Rightarrow> True) (wd_Hist run4)" by code_simp
    ultimately show False using m(2) by (auto simp: list_all_iff Finished_def time_IsZero_def)
  qed
  ultimately show ?thesis using m(1) by blast
qed

lemma pods_new_unfinished:
  assumes "pods_new j" and "ends_with_pod j"
  shows "JobFinished j = Returns False \<and> JobSucceeded j = Returns False \<and> JobFailed j = Returns False"
proof (cases "length (status_stages j) = length (spec_stages j)")
  case True
  have ne: "spec_stages j \<noteq> []" using assms(2) by (simp add: ends_with_pod_def)
  with True have s: "status_stages j \<noteq> []" by auto
  let ?i = "length (spec_stages j) - 1"
  have "is_pod_stage (spec_stages j ! ?i)" using assms(2) ne by (simp add: ends_with_pod_def last_conv_nth)
  moreover have "?i < length (spec_stages j)" using ne by simp
  ultimately have "last (status_stages j) = new_stage_status (ss_Name (last (status_stages j)))"
    using assms(1) True s by (metis last_conv_nth pods_new_def)
  then have "ss_FinishedAt (last (status_stages j)) = None" "\<not> ss_Succeeded (last (status_stages j))"
      "\<not> ss_Failed (last (status_stages j))"
    by (metis new_stage_status_def MaintenanceJobStageStatus.select_convs)+
  then show ?thesis using ne by (simp add: JobFinished_def JobSucceeded_def JobFailed_def last_stage_test_ok)
next
  case False
  then show ?thesis by (simp add: JobFinished_def JobSucceeded_def JobFailed_def last_stage_test_def)
qed

lemma reachable_pods_new:
  "reachable E w \<Longrightarrow> echo E \<Longrightarrow> map_of (wd_Mj w) key = Some j \<Longrightarrow> pods_new j"
  using calls.reachable_inv [of E w] unfolding calls_ok_def by blast

text \<open>C1: A maintenance job whose last stage is a pod stage never ends: as long as only the
  controller writes maintenance jobs, no cached one is ever finished, succeeded or failed by its
  last stage, whatever its Kubernetes jobs do, since the handler of their updates stores nothing.\<close>

theorem pod_stage_never_finishes:
  assumes "reachable E w" and "echo E" and "map_of (wd_Mj w) key = Some j" and "ends_with_pod j"
  shows "JobFinished j = Returns False \<and> JobSucceeded j = Returns False \<and> JobFailed j = Returns False"
  by (rule pods_new_unfinished [OF reachable_pods_new [OF assms(1-3)] assms(4)])

theorem pod_stage_never_finishes_witness:
  "\<exists>j. reachable run_env (run5 j) \<and> ends_with_pod j \<and> JobFinished j = Returns False"
proof -
  obtain j where j: "reachable run_env (run5 j)" "pod_job j" "map_of (wd_Mj (run5 j)) ''ns/mt.n1'' = Some j"
    by (rule run5_reachable)
  then have "ends_with_pod j" by (simp add: pod_job_def)
  then show ?thesis using j pod_stage_never_finishes [OF j(1) run_env_echo j(3)] by blast
qed

text \<open>C20: A maintenance that waits for another one with such a job is never scheduled: outside
  individual mode, the dependency check of no world the controller reaches gets past the
  dependency, whatever condition it asks for.\<close>

theorem pod_stage_blocks_dependents:
  assumes "reachable E w" and "echo E" and "ranges_keys E w"
    and "dep \<in> set deps" and "\<not> dep_Individual dep"
    and "map_of (wd_Mt w) (dep_Name dep) = Some depMt"
    and "map_of (wd_Mj w) key = Some j" and "belongs_to dep depMt key j" and "ends_with_pod j"
  shows "\<nexists>u. check_deps E w deps [] = Returns (DepsMet u)"
proof -
  note f = pods_new_unfinished [OF reachable_pods_new [OF assms(1,2,7)] assms(9)]
  have "condition_met c j \<noteq> Some (Returns True)" for c
    using f by (auto simp: condition_met_def finished_and_def)
  then have "\<not> job_acceptable dep j" using assms(5) by (auto simp: job_acceptable_def)
  then have "\<not> dep_satisfied w dep" using assms(6-8) by (auto simp: dep_satisfied_def)
  then show ?thesis using check_deps_met [OF assms(3)] assms(4) by blast
qed

theorem pod_stage_blocks_dependents_witness:
  "\<exists>j. reachable run_env (run5 j) \<and> (\<nexists>u. check_deps run_env (run5 j) [dep_on_mt] [] = Returns (DepsMet u))"
proof -
  obtain j where j: "reachable run_env (run5 j)" "pod_job j" "map_of (wd_Mj (run5 j)) ''ns/mt.n1'' = Some j"
    by (rule run5_reachable)
  from run4_cached obtain m where m: "map_of (wd_Mt (run5 j)) (dep_Name dep_on_mt) = Some m" "om_UID (mt_Meta m) = ''u1''"
    by (auto simp: run5_def dep_on_mt_def)
  have "om_UID (mt_Meta sample_maintenance) = ''u1''" by (simp add: sample_maintenance_def)
  then have "is_dep_owner dep_on_mt sample_maintenance = is_dep_owner dep_on_mt m"
    using m(2) by (simp add: is_dep_owner_def fun_eq_iff)
  moreover have "SplitKey ''ns/mt.n1'' = Some (''ns'', ''mt.n1'')" "prefix (dep_Name dep_on_mt @ ''.'') ''mt.n1''"
    by (simp_all add: SplitKey_def dep_on_mt_def)
  ultimately have b: "belongs_to dep_on_mt m ''ns/mt.n1'' j"
    using j(2) by (auto simp: belongs_to_owner pod_job_def)
  have "ranges_all run_env" by (simp add: ranges_all_def run_env_def sample_env_rec_def)
  then have r: "ranges_keys run_env (run5 j)" by (rule ranges_all_keys)
  have "\<not> dep_Individual dep_on_mt" "ends_with_pod j" using j(2) by (simp_all add: dep_on_mt_def pod_job_def)
  from pod_stage_blocks_dependents [OF j(1) run_env_echo r _ this(1) m(1) j(3) b this(2), of "[dep_on_mt]"] j(1)
  show ?thesis by (intro exI [of _ j]) simp
qed

text \<open>A maintenance is polled: as long as its cached object is active, has a start time and is not
  expired, and its queue is running and accepts it, processing its entry puts it back into the queue,
  exactly once, whether the scheduling succeeded or failed, unless it panicked.\<close>

lemma maintenance_is_polled:
  assumes "map_of (wd_Mt w) n = Some c" and "mt_Name c = n" and "\<not> Canceled c" and "\<not> Finished c"
    and "ad_ScheduleSince (admitted_of c) \<noteq> None" and "\<And>h. \<not> Expired c (en_Now E h)"
    and "tq_inv (wd_MtTQ w)" and "distinct (tq_keys (wd_MtTQ w))" and "accepts n (wd_MtTQ w)"
    and "\<not> panics (fst (scheduleMaintenance E n w))"
  shows "fst (processMaintenanceSchedule E n w) = Returns () \<and>
    count (mset (tq_keys (wd_MtTQ (snd (processMaintenanceSchedule E n w))))) n = 1"
proof -
  let ?w1 = "snd (scheduleMaintenance E n w)"
  let ?enq = "enqueueMaintenanceForScheduling E n (sc_PollInterval (schedule_config E)) ?w1"
  obtain d where d: "map_of (wd_Mt ?w1) n = Some d" "same_but_scheduled c d"
    using schedule_keeps_cached [OF assms(1)] maybe_snapshot_same by blast
  note ph = same_but_scheduled_phases [OF d(2)]
  have ok: "tq.queue_ok (wd_MtTQ ?w1)" using assms(7,8) by (simp add: tq.queue_ok_def)
  let ?w2 = "log_effect (Clock (en_Now E (wd_Hist ?w1))) ?w1"
  have "?enq = doEnqueue E d (en_Now E (wd_Hist ?w1)) (sc_PollInterval (schedule_config E)) ?w2"
    using ph assms(3,4,6) by (intro enqueue_active d(1)) simp_all
  moreover have "tq.queue_ok (wd_MtTQ ?w2)" using ok by simp
  moreover have "accepts (mt_Name d) (wd_MtTQ ?w2)" using assms(2,9) ph by simp
  moreover have "ad_ScheduleSince (admitted_of d) \<noteq> None" using assms(5) ph by metis
  ultimately have enq: "fst ?enq = Returns None" "mt_pending n (snd ?enq)"
    using doEnqueue_pending [of ?w2 d] ph assms(2) by (metis, metis)
  obtain e where "fst (scheduleMaintenance E n w) = Returns e" using assms(10) by (metis not_panics_iff)
  then have p: "processMaintenanceSchedule E n w = (Returns (), snd ?enq)"
    using enq(1) by (simp add: processMaintenanceSchedule_def split_beta)
  have "tq.queue_ok (wd_MtTQ (snd ?enq))" using ok by (rule queue_ok_enqueue)
  then have "tq_inv (wd_MtTQ (snd ?enq))" "distinct (tq_keys (wd_MtTQ (snd ?enq)))" by (simp_all add: tq.queue_ok_def)
  then show ?thesis using p enq(2) tq_Find_iff distinct_count_atmost_1 by (metis fst_conv snd_conv)
qed

lemma maintenance_is_polled_witness:
  "fst (processMaintenanceSchedule run_env ''mt'' run1) = Returns ()"
proof (rule maintenance_is_polled [where c = sample_admitted, THEN conjunct1])
  show "\<not> panics (fst (scheduleMaintenance run_env ''mt'' run1))" by code_simp
  show "tq_inv (wd_MtTQ run1)" using queues_ok_start by (simp add: queues_ok_def run1_def tq.queue_ok_def)
qed (simp_all add: run1_def started_world_def sample_admitted_def sample_defs run_env_def phase_defs
    set_admitted_def set_window_def time_defs accepts_def NewTimeoutQueue_def tq_Start_def)

end
